(* ===== verification/Prelude.thy ===== *)
theory Prelude
  imports Main "HOL-Library.Multiset" "HOL-Library.Sublist"
begin

section \<open>Prelude: shared collections and lemmas\<close>

text \<open>
  What every component uses and no component owns: the collections of simplification
  rules (\<open>io_simps\<close> for steps of state-passing code, \<open>key_simps\<close> for strings that
  name things), facts on strings built from a separator, on association lists with
  distinct keys (Go maps with the order in which \<^verbatim>\<open>range\<close> visits them), and on
  filtered updates of a list of rows (the effect of a SQL UPDATE).
\<close>

named_theorems io_simps \<open>unfolding rules for state-passing operations\<close>
named_theorems key_simps \<open>rules for storage keys and decimal strings\<close>

subsection \<open>Strings cut at a separator\<close>

lemma append_first_sep_inject:
  assumes "c \<notin> set xs" and "c \<notin> set ys"
  shows "xs @ c # us = ys @ c # vs \<longleftrightarrow> xs = ys \<and> us = vs"
proof
  assume eq: "xs @ c # us = ys @ c # vs"
  have "takeWhile (\<lambda>x. x \<noteq> c) (xs @ c # us) = xs"
    using assms(1) by (subst takeWhile_append2) auto
  moreover have "takeWhile (\<lambda>x. x \<noteq> c) (ys @ c # vs) = ys"
    using assms(2) by (subst takeWhile_append2) auto
  ultimately have "xs = ys" using eq by metis
  with eq show "xs = ys \<and> us = vs" by simp
qed simp

lemma append_last_sep_inject:
  assumes "c \<notin> set us" and "c \<notin> set vs"
  shows "xs @ c # us = ys @ c # vs \<longleftrightarrow> xs = ys \<and> us = vs"
proof -
  have "xs @ c # us = ys @ c # vs \<longleftrightarrow> rev us @ c # rev xs = rev vs @ c # rev ys"
    by (metis rev_append rev_rev_ident append_assoc append_Cons append_Nil rev.simps(2))
  also have "\<dots> \<longleftrightarrow> rev us = rev vs \<and> rev xs = rev ys"
    using assms by (intro append_first_sep_inject) auto
  finally show ?thesis by auto
qed

subsection \<open>Association lists with distinct keys\<close>

abbreviation distinct_keys :: "('k \<times> 'v) list \<Rightarrow> bool" where
  "distinct_keys kvs \<equiv> distinct (map fst kvs)"

lemma map_of_perm:
  assumes "distinct_keys kvs" and "mset kvs = mset kvs'"
  shows "map_of kvs = map_of kvs'"
proof -
  have "mset (map fst kvs) = mset (map fst kvs')"
    using assms(2) by simp
  then have "distinct_keys kvs'"
    using assms(1) mset_eq_imp_distinct_iff by blast
  moreover have "set kvs = set kvs'"
    using assms(2) by (rule mset_eq_setD)
  ultimately show ?thesis
    using assms(1) by (intro map_of_inject_set [THEN iffD2]) auto
qed

subsection \<open>Filtered updates\<close>

definition update_where :: "('r \<Rightarrow> bool) \<Rightarrow> ('r \<Rightarrow> 'r) \<Rightarrow> 'r list \<Rightarrow> 'r list" where
  "update_where p f rs = map (\<lambda>r. if p r then f r else r) rs"

lemma update_where_Nil [simp]: "update_where p f [] = []"
  by (simp add: update_where_def)

lemma update_where_Cons [simp]:
  "update_where p f (r # rs) = (if p r then f r else r) # update_where p f rs"
  by (simp add: update_where_def)

lemma length_update_where [simp]: "length (update_where p f rs) = length rs"
  by (simp add: update_where_def)

lemma set_update_where: "set (update_where p f rs) = (\<lambda>r. if p r then f r else r) ` set rs"
  by (simp add: update_where_def)

lemma update_where_append [simp]:
  "update_where p f (rs @ rs') = update_where p f rs @ update_where p f rs'"
  by (simp add: update_where_def)

lemma map_update_where:
  "(\<And>r. g (f r) = g r) \<Longrightarrow> map g (update_where p f rs) = map g rs"
  by (simp add: update_where_def)

lemma update_where_none: "filter p rs = [] \<Longrightarrow> update_where p f rs = rs"
  by (induction rs) (auto split: if_splits)

lemma find_update_where:
  "(\<And>r. q (f r) \<longleftrightarrow> q r) \<Longrightarrow>
   find q (update_where p f rs) = map_option (\<lambda>r. if p r then f r else r) (find q rs)"
  by (induction rs) auto

lemma find_filter_Nil: "(find p rs = None) \<longleftrightarrow> filter p rs = []"
  by (induction rs) auto

lemma find_SomeD: "find p rs = Some r \<Longrightarrow> r \<in> set rs \<and> p r"
  by (induction rs) (auto split: if_splits)

lemma find_append:
  "find p (rs @ rs') = (case find p rs of None \<Rightarrow> find p rs' | Some r \<Rightarrow> Some r)"
  by (induction rs) auto

lemma find_distinct_key:
  assumes "distinct (map k rs)" and "r \<in> set rs"
  shows "find (\<lambda>x. k x = k r) rs = Some r"
  using assms by (induction rs) (auto simp: image_iff)

end
