(* ===== verification/Go_Runtime.thy ===== *)
theory Go_Runtime
  imports Prelude
begin

section \<open>Go errors, results and decimal formatting\<close>

text \<open>
  The part of the Go language and standard library every component rests on: error
  values with \<^verbatim>\<open>errors.Is\<close> and \<^verbatim>\<open>fmt.Errorf("...: %w", err)\<close>, functions that return
  \<^verbatim>\<open>(T, error)\<close> while changing a state, and the decimal rendering of \<^verbatim>\<open>%d\<close> and
  \<^verbatim>\<open>strconv.Itoa\<close>. A function of the source with results \<^verbatim>\<open>(T, error)\<close> is a function
  from the state to \<open>go_error + 't\<close> and the new state, \<open>Inl\<close> being the error return.
\<close>

subsection \<open>Error values\<close>

text \<open>
  \<open>net_error\<close> is an error any remote call can end with, whatever it was asked to do.
  The sentinels \<open>ErrNotFound\<close> and \<open>ErrNotOwner\<close> are those of the avatar package; the
  other constructors are the sentinels and error types of the libraries that the source
  inspects; \<open>NewError\<close> is \<^verbatim>\<open>errors.New\<close> and \<open>Wrapf m e\<close> is
  \<^verbatim>\<open>fmt.Errorf("m: %w", e)\<close>.
\<close>

datatype net_error = NetMsg string | CtxCanceled

datatype go_error =
    ErrNotFound
  | ErrNotOwner
  | ErrNoRows
  | ErrAmqpClosed
  | ErrServerClosed
  | ErrNoChange
  | PgError string
  | S3Response string
  | MaxBytesError int
  | Net net_error
  | NewError string
  | Wrapf string go_error

abbreviation Canceled :: go_error where
  "Canceled \<equiv> Net CtxCanceled"

fun errors_is :: "go_error \<Rightarrow> go_error \<Rightarrow> bool" where
  "errors_is (Wrapf m e) t = (Wrapf m e = t \<or> errors_is e t)"
| "errors_is e t = (e = t)"

fun error_text :: "go_error \<Rightarrow> string" where
  "error_text ErrNotFound = ''avatar not found''"
| "error_text ErrNotOwner = ''avatar belongs to another user''"
| "error_text ErrNoRows = ''no rows in result set''"
| "error_text ErrAmqpClosed = ''channel/connection is not open''"
| "error_text ErrServerClosed = ''http: Server closed''"
| "error_text ErrNoChange = ''no change''"
| "error_text (PgError c) = ''SQLSTATE '' @ c"
| "error_text (S3Response c) = c"
| "error_text (MaxBytesError n) = ''http: request body too large''"
| "error_text (Net (NetMsg m)) = m"
| "error_text (Net CtxCanceled) = ''context canceled''"
| "error_text (NewError m) = m"
| "error_text (Wrapf m e) = m @ '': '' @ error_text e"

lemma errors_is_refl [simp]: "errors_is e e"
  by (cases e) auto

lemma errors_is_Wrapf_sentinel [simp]:
  "errors_is (Wrapf m e) ErrNotFound \<longleftrightarrow> errors_is e ErrNotFound"
  "errors_is (Wrapf m e) ErrNotOwner \<longleftrightarrow> errors_is e ErrNotOwner"
  by simp_all

subsection \<open>Results and state-passing functions\<close>

type_synonym 'a res = "go_error + 'a"
type_synonym ('w, 'a) io = "'w \<Rightarrow> 'a res \<times> 'w"

text \<open>A byte string: Go's \<^verbatim>\<open>[]byte\<close> and \<^verbatim>\<open>string\<close> are both sequences of 8-bit values.\<close>

type_synonym bytes = string

text \<open>
  An \<^verbatim>\<open>io.ReadCloser\<close> read to its end (\<^verbatim>\<open>io.ReadAll\<close>, \<^verbatim>\<open>io.Copy\<close>): the bytes that came,
  and the error that cut them off, if any.
\<close>

type_synonym 'w reader = "'w \<Rightarrow> (bytes \<times> go_error option) \<times> 'w"

definition wrap_err :: "string \<Rightarrow> 'a res \<Rightarrow> 'a res" where
  "wrap_err m r = (case r of Inl e \<Rightarrow> Inl (Wrapf m e) | Inr a \<Rightarrow> Inr a)"

lemma wrap_err_simps [simp]:
  "wrap_err m (Inl e) = Inl (Wrapf m e)"
  "wrap_err m (Inr a) = Inr a"
  by (simp_all add: wrap_err_def)

lemma wrap_err_Inr_iff [simp]: "wrap_err m r = Inr a \<longleftrightarrow> r = Inr a"
  by (simp add: wrap_err_def split: sum.splits)

lemma wrap_err_Inl_iff [simp]: "wrap_err m r = Inl e \<longleftrightarrow> (\<exists>e'. r = Inl e' \<and> e = Wrapf m e')"
  by (auto simp add: wrap_err_def split: sum.splits)

lemmas go_splits = prod.splits sum.splits option.splits if_splits

subsection \<open>Decimal rendering\<close>

definition digit :: "nat \<Rightarrow> char" where
  "digit n = char_of (48 + n)"

fun dec :: "nat \<Rightarrow> string" where
  "dec n = (if n < 10 then [digit n] else dec (n div 10) @ [digit (n mod 10)])"

declare dec.simps [simp del]

definition itoa :: "int \<Rightarrow> string" where
  "itoa i = (if i < 0 then CHR ''-'' # dec (nat (- i)) else dec (nat i))"

definition undec :: "string \<Rightarrow> nat" where
  "undec s = foldl (\<lambda>n c. 10 * n + (of_char c - 48)) 0 s"

lemma of_char_digit [simp]: "n < 10 \<Longrightarrow> of_char (digit n) = 48 + n"
  by (simp add: digit_def)

lemma undec_snoc [simp]: "undec (s @ [c]) = 10 * undec s + (of_char c - 48)"
  by (simp add: undec_def)

lemma undec_dec [simp]: "undec (dec n) = n"
proof (induction n rule: dec.induct)
  case (1 n)
  show ?case
  proof (cases "n < 10")
    case True
    then show ?thesis by (subst dec.simps) (simp add: undec_def)
  next
    case False
    with 1 show ?thesis by (subst dec.simps) simp
  qed
qed

lemma set_dec: "c \<in> set (dec n) \<Longrightarrow> 48 \<le> (of_char c :: nat) \<and> (of_char c :: nat) \<le> 57"
proof (induction n rule: dec.induct)
  case (1 n)
  show ?case
  proof (cases "n < 10")
    case True
    with 1(2) show ?thesis by (subst (asm) dec.simps) simp
  next
    case False
    with 1 show ?thesis by (subst (asm) (2) dec.simps) auto
  qed
qed

lemma dec_inject [simp]: "dec m = dec n \<longleftrightarrow> m = n"
  by (metis undec_dec)

lemma dec_no_minus: "CHR ''-'' \<notin> set (dec n)"
  by (auto dest: set_dec)

lemma itoa_inject [simp, key_simps]: "itoa i = itoa j \<longleftrightarrow> i = j"
proof
  assume eq: "itoa i = itoa j"
  have no: "\<And>m n. CHR ''-'' # dec m \<noteq> dec n"
    using dec_no_minus by (metis list.set_intros(1))
  then have no': "\<And>m n. dec n \<noteq> CHR ''-'' # dec m"
    by metis
  from eq show "i = j"
    by (auto simp: itoa_def no no' split: if_splits)
qed simp

lemma set_itoa:
  "c \<in> set (itoa i) \<Longrightarrow> c = CHR ''-'' \<or> (48 \<le> (of_char c :: nat) \<and> (of_char c :: nat) \<le> 57)"
  by (auto simp: itoa_def dest: set_dec split: if_splits)

lemma itoa_no_letter [simp, key_simps]:
  "CHR ''x'' \<notin> set (itoa i)" "CHR ''/'' \<notin> set (itoa i)" "CHR ''.'' \<notin> set (itoa i)"
  by (auto dest: set_itoa)

end
