(* ===== verification/Avatar.thy ===== *)
theory Avatar
  imports Go_Runtime
begin

section \<open>The avatar domain (internal/avatar)\<close>

text \<open>
  \<^verbatim>\<open>avatar.go\<close> and \<^verbatim>\<open>events.go\<close>: the record shared by server and worker, the status
  strings, the two events and the layout of the S3 keys. A status is a string, as in the
  code; which strings a column accepts is the business of the schema (theory Postgres).
  \<^verbatim>\<open>Thumbnails\<close>, a Go map from size names to keys, is the list of its entries in the order
  a \<^verbatim>\<open>range\<close> over it visits them: the order is arbitrary, the keys are distinct.
\<close>

subsection \<open>Statuses\<close>

abbreviation UploadStatusUploading :: string where
  "UploadStatusUploading \<equiv> ''uploading''"

abbreviation UploadStatusUploaded :: string where
  "UploadStatusUploaded \<equiv> ''uploaded''"

abbreviation UploadStatusFailed :: string where
  "UploadStatusFailed \<equiv> ''failed''"

abbreviation ProcessingStatusPending :: string where
  "ProcessingStatusPending \<equiv> ''pending''"

abbreviation ProcessingStatusProcessing :: string where
  "ProcessingStatusProcessing \<equiv> ''processing''"

abbreviation ProcessingStatusCompleted :: string where
  "ProcessingStatusCompleted \<equiv> ''completed''"

abbreviation ProcessingStatusFailed :: string where
  "ProcessingStatusFailed \<equiv> ''failed''"

abbreviation ProcessingStatusDeleted :: string where
  "ProcessingStatusDeleted \<equiv> ''deleted''"

definition ThumbnailSizes :: "int list" where
  "ThumbnailSizes = [100, 300]"

subsection \<open>Records\<close>

record avatar =
  ID :: string
  UserID :: string
  FileName :: string
  MimeType :: string
  SizeBytes :: int
  Width :: int
  Height :: int
  S3Key :: string
  Thumbnails :: "(string \<times> string) list"
  UploadStatus :: string
  ProcessingStatus :: string
  CreatedAt :: int
  UpdatedAt :: int
  DeletedAt :: "int option"

record new_avatar =
  newID :: string
  newUserID :: string
  newFileName :: string
  newMimeType :: string
  newSizeBytes :: int
  newWidth :: int
  newHeight :: int
  newS3Key :: string

record UploadEvent =
  upAvatarID :: string
  upUserID :: string
  upS3Key :: string

record DeleteEvent =
  delAvatarID :: string
  delS3Keys :: "string list"

definition live :: "avatar \<Rightarrow> bool" where
  "live a \<longleftrightarrow> DeletedAt a = None"

subsection \<open>S3 keys\<close>

definition OriginalKey :: "string \<Rightarrow> string" where
  "OriginalKey i = ''avatars/'' @ i @ ''/original''"

definition SizeName :: "int \<Rightarrow> string" where
  "SizeName px = itoa px @ ''x'' @ itoa px"

definition ThumbnailKey :: "string \<Rightarrow> int \<Rightarrow> string" where
  "ThumbnailKey i px = ''thumbnails/'' @ i @ ''/'' @ SizeName px @ ''.jpg''"

lemma SizeName_inject [simp, key_simps]: "SizeName p = SizeName q \<longleftrightarrow> p = q"
  using append_first_sep_inject [of "CHR ''x''" "itoa p" "itoa q" "itoa p" "itoa q"]
  by (auto simp: SizeName_def)

lemma SizeName_no_slash [simp, key_simps]: "CHR ''/'' \<notin> set (SizeName px)"
  by (simp add: SizeName_def)

lemma OriginalKey_inject [simp, key_simps]: "OriginalKey i = OriginalKey j \<longleftrightarrow> i = j"
  by (simp add: OriginalKey_def)

lemma ThumbnailKey_inject [simp, key_simps]:
  "ThumbnailKey i p = ThumbnailKey j q \<longleftrightarrow> i = j \<and> p = q"
  using append_last_sep_inject [of "CHR ''/''" "SizeName p @ ''.jpg''" "SizeName q @ ''.jpg''" i j]
  by (auto simp: ThumbnailKey_def)

lemma OriginalKey_ThumbnailKey [simp, key_simps]:
  "OriginalKey i \<noteq> ThumbnailKey j px" "ThumbnailKey j px \<noteq> OriginalKey i"
  by (simp_all add: OriginalKey_def ThumbnailKey_def)

text \<open>
  two objects of the bucket never share a key. The original of an avatar and the
  thumbnails of any avatar at any size, including ids that themselves contain slashes,
  all have different keys, and so do the public size labels of different sizes.
\<close>

theorem storage_keys_disjoint:
  "(OriginalKey i = OriginalKey j \<longleftrightarrow> i = j) \<and>
   (ThumbnailKey i p = ThumbnailKey j q \<longleftrightarrow> i = j \<and> p = q) \<and>
   OriginalKey i \<noteq> ThumbnailKey j q \<and>
   (SizeName p = SizeName q \<longleftrightarrow> p = q)"
  by simp

end
