(* ===== verification/Utf8.thy ===== *)
theory Utf8
  imports Go_Runtime
begin

section \<open>UTF-8: Go's strings and runes\<close>

text \<open>
  Go strings are byte sequences; \<^verbatim>\<open>[]rune(s)\<close> decodes them, an invalid byte becoming
  U+FFFD with width one, \<^verbatim>\<open>string(runes)\<close> encodes, a value that is no Unicode scalar
  becoming U+FFFD, and \<^verbatim>\<open>utf8.RuneCountInString\<close> counts what decoding yields. The
  service truncates file names and the handlers bound user ids in runes, because
  PostgreSQL's \<^verbatim>\<open>VARCHAR(n)\<close> counts characters. Bytes are naturals below 256 here; the
  functions on strings convert at the border.
\<close>

definition RuneError :: nat where
  "RuneError = 0xFFFD"

definition is_cont :: "nat \<Rightarrow> bool" where
  "is_cont b \<longleftrightarrow> 0x80 \<le> b \<and> b \<le> 0xBF"

text \<open>The bounds on the second byte depend on the first (no overlong forms, no surrogates).\<close>

definition second_lo :: "nat \<Rightarrow> nat" where
  "second_lo b0 = (if b0 = 0xE0 then 0xA0 else if b0 = 0xF0 then 0x90 else 0x80)"

definition second_hi :: "nat \<Rightarrow> nat" where
  "second_hi b0 = (if b0 = 0xED then 0x9F else if b0 = 0xF4 then 0x8F else 0xBF)"

definition second_ok :: "nat \<Rightarrow> nat \<Rightarrow> bool" where
  "second_ok b0 b1 \<longleftrightarrow> second_lo b0 \<le> b1 \<and> b1 \<le> second_hi b0"

text \<open>\<^verbatim>\<open>utf8.DecodeRune\<close>: the rune and how many bytes it takes.\<close>

definition decode_rune :: "nat list \<Rightarrow> nat \<times> nat" where
  "decode_rune bs = (case bs of
     [] \<Rightarrow> (RuneError, 0)
   | b0 # r \<Rightarrow>
      if b0 < 0x80 then (b0, 1)
      else if 0xC2 \<le> b0 \<and> b0 \<le> 0xDF then
        (case r of
           b1 # _ \<Rightarrow> if second_ok b0 b1
             then ((b0 - 0xC0) * 64 + (b1 - 0x80), 2) else (RuneError, 1)
         | _ \<Rightarrow> (RuneError, 1))
      else if 0xE0 \<le> b0 \<and> b0 \<le> 0xEF then
        (case r of
           b1 # b2 # _ \<Rightarrow> if second_ok b0 b1 \<and> is_cont b2
             then ((b0 - 0xE0) * 4096 + (b1 - 0x80) * 64 + (b2 - 0x80), 3) else (RuneError, 1)
         | _ \<Rightarrow> (RuneError, 1))
      else if 0xF0 \<le> b0 \<and> b0 \<le> 0xF4 then
        (case r of
           b1 # b2 # b3 # _ \<Rightarrow> if second_ok b0 b1 \<and> is_cont b2 \<and> is_cont b3
             then ((b0 - 0xF0) * 262144 + (b1 - 0x80) * 4096 + (b2 - 0x80) * 64 + (b3 - 0x80), 4)
             else (RuneError, 1)
         | _ \<Rightarrow> (RuneError, 1))
      else (RuneError, 1))"

lemma decode_rune_width: "bs \<noteq> [] \<Longrightarrow> 0 < snd (decode_rune bs)"
  by (auto simp: decode_rune_def split: list.splits)

function decode_runes :: "nat list \<Rightarrow> nat list" where
  "decode_runes bs = (if bs = [] then []
     else fst (decode_rune bs) # decode_runes (drop (snd (decode_rune bs)) bs))"
  by pat_completeness auto
termination
  by (relation "measure length") (use decode_rune_width in \<open>auto simp: length_greater_0_conv\<close>)

declare decode_runes.simps [simp del]

lemma decode_runes_Nil [simp]: "decode_runes [] = []"
  by (subst decode_runes.simps) simp

text \<open>A Unicode scalar value: what \<^verbatim>\<open>utf8.ValidRune\<close> accepts.\<close>

definition valid_rune :: "nat \<Rightarrow> bool" where
  "valid_rune r \<longleftrightarrow> r < 0xD800 \<or> (0xDFFF < r \<and> r \<le> 0x10FFFF)"

definition encode_rune :: "nat \<Rightarrow> nat list" where
  "encode_rune x = (let r = (if valid_rune x then x else RuneError) in
     if r < 0x80 then [r]
     else if r < 0x800 then [0xC0 + r div 64, 0x80 + r mod 64]
     else if r < 0x10000 then
       [0xE0 + r div 4096, 0x80 + (r div 64) mod 64, 0x80 + r mod 64]
     else
       [0xF0 + r div 262144, 0x80 + (r div 4096) mod 64, 0x80 + (r div 64) mod 64,
        0x80 + r mod 64])"

definition encode_runes :: "nat list \<Rightarrow> nat list" where
  "encode_runes rs = concat (map encode_rune rs)"

subsection \<open>Decoding inverts encoding\<close>

lemma base64_digits:
  fixes r :: nat
  shows "r div 64 * 64 + r mod 64 = r"
    and "r div 4096 * 4096 + r div 64 mod 64 * 64 + r mod 64 = r"
    and "r div 262144 * 262144 + r div 4096 mod 64 * 4096 + r div 64 mod 64 * 64 + r mod 64 = r"
proof -
  show two: "r div 64 * 64 + r mod 64 = r" by simp
  have "r div 64 = r div 4096 * 64 + r div 64 mod 64" and
    four: "r div 4096 = r div 262144 * 64 + r div 4096 mod 64"
    using div_mult2_eq [of r 64 64] div_mult2_eq [of r 4096 64] by simp_all
  with two show three: "r div 4096 * 4096 + r div 64 mod 64 * 64 + r mod 64 = r" by linarith
  with four show "r div 262144 * 262144 + r div 4096 mod 64 * 4096 + r div 64 mod 64 * 64 + r mod 64 = r"
    by linarith
qed

lemma decode_encode_rune_1: "r < 0x80 \<Longrightarrow> decode_rune (encode_rune r @ bs) = (r, 1)"
  by (simp add: encode_rune_def decode_rune_def valid_rune_def)

lemma decode_encode_rune_2:
  assumes "0x80 \<le> r" "r < 0x800"
  shows "decode_rune (encode_rune r @ bs) = (r, 2)"
proof -
  have "2 \<le> r div 64" "r div 64 < 32" using assms by auto
  with assms show ?thesis
    by (auto simp: encode_rune_def decode_rune_def valid_rune_def second_ok_def second_lo_def
        second_hi_def Let_def)
qed

lemma decode_encode_rune_3:
  assumes "0x800 \<le> r" "r < 0x10000" "valid_rune r"
  shows "decode_rune (encode_rune r @ bs) = (r, 3)"
proof -
  have enc: "encode_rune r = [0xE0 + r div 4096, 0x80 + (r div 64) mod 64, 0x80 + r mod 64]"
    using assms by (simp add: encode_rune_def)
  have b0: "r div 4096 < 16" using assms by auto
  have lo: "r div 4096 = 0 \<Longrightarrow> 32 \<le> r div 64 mod 64"
  proof -
    assume "r div 4096 = 0"
    then have "r < 4096" by simp
    then have "r div 64 < 64" by simp
    then show "32 \<le> r div 64 mod 64" using assms(1) by simp
  qed
  have hi: "r div 4096 = 13 \<Longrightarrow> r div 64 mod 64 \<le> 31"
  proof -
    assume h: "r div 4096 = 13"
    have "r = 13 * 4096 + r div 64 mod 64 * 64 + r mod 64"
      using base64_digits(2) [of r] h by simp
    with assms(3) show "r div 64 mod 64 \<le> 31"
      by (simp add: valid_rune_def) (use h in linarith)
  qed
  show ?thesis
    using b0 lo hi base64_digits(2) [of r]
    by (auto simp: enc decode_rune_def second_ok_def second_lo_def second_hi_def is_cont_def)
qed

lemma decode_encode_rune_4:
  assumes "0x10000 \<le> r" "r \<le> 0x10FFFF"
  shows "decode_rune (encode_rune r @ bs) = (r, 4)"
proof -
  have enc: "encode_rune r = [0xF0 + r div 262144, 0x80 + (r div 4096) mod 64,
      0x80 + (r div 64) mod 64, 0x80 + r mod 64]"
    using assms by (simp add: encode_rune_def valid_rune_def)
  have b0: "r div 262144 \<le> 4" using assms by auto
  have lo: "r div 262144 = 0 \<Longrightarrow> 16 \<le> r div 4096 mod 64"
  proof -
    assume "r div 262144 = 0"
    then have "r < 262144" by simp
    then have "r div 4096 < 64" by simp
    then show "16 \<le> r div 4096 mod 64" using assms(1) by simp
  qed
  have hi: "r div 262144 = 4 \<Longrightarrow> r div 4096 mod 64 \<le> 15"
    using base64_digits(3) [of r] assms(2) by linarith
  have m: "\<And>x :: nat. x mod 64 \<le> 63" by (simp add: less_Suc_eq_le [symmetric])
  show ?thesis
    using b0 lo hi base64_digits(3) [of r] m
    by (auto simp: enc decode_rune_def second_ok_def second_lo_def second_hi_def is_cont_def)
qed

lemma decode_encode_rune:
  assumes "valid_rune r"
  shows "decode_rune (encode_rune r @ bs) = (r, length (encode_rune r))"
proof -
  consider "r < 0x80" | "0x80 \<le> r" "r < 0x800" | "0x800 \<le> r" "r < 0x10000" | "0x10000 \<le> r"
    by linarith
  then show ?thesis
    using assms decode_encode_rune_1 [of r bs] decode_encode_rune_2 [of r bs]
      decode_encode_rune_3 [of r bs] decode_encode_rune_4 [of r bs]
    by cases (auto simp: encode_rune_def valid_rune_def)
qed

lemma encode_rune_nonempty: "encode_rune r \<noteq> []"
  by (simp add: encode_rune_def Let_def)

lemma decode_encode_runes:
  assumes "list_all valid_rune rs"
  shows "decode_runes (encode_runes rs) = rs"
  using assms
proof (induction rs)
  case Nil
  then show ?case by (simp add: encode_runes_def)
next
  case (Cons r rs)
  then show ?case
    using decode_encode_rune [of r "encode_runes rs"] encode_rune_nonempty [of r]
    by (subst decode_runes.simps) (simp add: encode_runes_def)
qed

lemma valid_rune_RuneError [simp]: "valid_rune RuneError"
  by (simp add: valid_rune_def RuneError_def)

lemma decode_rune_valid: "valid_rune (fst (decode_rune bs))"
proof -
  have two: "\<And>b0 b1. 0xC2 \<le> b0 \<Longrightarrow> b0 \<le> 0xDF \<Longrightarrow> second_ok b0 b1
    \<Longrightarrow> valid_rune ((b0 - 0xC0) * 64 + (b1 - 0x80))"
    by (auto simp: valid_rune_def second_ok_def second_hi_def split: if_splits)
  have three: "\<And>b0 b1 b2. 0xE0 \<le> b0 \<Longrightarrow> b0 \<le> 0xEF \<Longrightarrow> second_ok b0 b1 \<Longrightarrow> is_cont b2
    \<Longrightarrow> valid_rune ((b0 - 0xE0) * 4096 + (b1 - 0x80) * 64 + (b2 - 0x80))"
  proof -
    fix b0 b1 b2 :: nat
    assume h: "0xE0 \<le> b0" "b0 \<le> 0xEF" "second_ok b0 b1" "is_cont b2"
    have b1: "b1 - 0x80 \<le> 63" and b2: "b2 - 0x80 \<le> 63"
      and d: "b0 = 0xED \<Longrightarrow> b1 - 0x80 \<le> 31"
      using h by (auto simp: second_ok_def second_hi_def is_cont_def split: if_splits)
    consider "b0 \<le> 0xEC" | "b0 = 0xED" | "0xEE \<le> b0" by linarith
    then show "valid_rune ((b0 - 0xE0) * 4096 + (b1 - 0x80) * 64 + (b2 - 0x80))"
      using b1 b2 d h(1,2) by cases (auto simp: valid_rune_def)
  qed
  have four: "\<And>b0 b1 b2 b3. 0xF0 \<le> b0 \<Longrightarrow> b0 \<le> 0xF4 \<Longrightarrow> second_ok b0 b1 \<Longrightarrow> is_cont b2
    \<Longrightarrow> is_cont b3
    \<Longrightarrow> valid_rune ((b0 - 0xF0) * 262144 + (b1 - 0x80) * 4096 + (b2 - 0x80) * 64 + (b3 - 0x80))"
  proof -
    fix b0 b1 b2 b3 :: nat
    assume h: "0xF0 \<le> b0" "b0 \<le> 0xF4" "second_ok b0 b1" "is_cont b2" "is_cont b3"
    define k c1 c2 c3 where "k = b0 - 0xF0" and "c1 = b1 - 0x80" and "c2 = b2 - 0x80"
      and "c3 = b3 - 0x80"
    have "c1 \<le> 63" "c2 \<le> 63" "c3 \<le> 63" "k \<le> 4"
      and "k = 0 \<Longrightarrow> 16 \<le> c1" and "k = 4 \<Longrightarrow> c1 \<le> 15"
      using h by (auto simp: second_ok_def second_hi_def second_lo_def is_cont_def k_def c1_def
          c2_def c3_def split: if_splits)
    then have "0xDFFF < k * 262144 + c1 * 4096 + c2 * 64 + c3"
      and "k * 262144 + c1 * 4096 + c2 * 64 + c3 \<le> 0x10FFFF"
      by linarith+
    then show "valid_rune ((b0 - 0xF0) * 262144 + (b1 - 0x80) * 4096 + (b2 - 0x80) * 64
        + (b3 - 0x80))"
      by (simp only: valid_rune_def k_def c1_def c2_def c3_def simp_thms)
  qed
  have one: "\<And>b0. b0 < 0x80 \<Longrightarrow> valid_rune b0"
    by (simp add: valid_rune_def)
  show ?thesis
    using one two three four by (auto simp: decode_rune_def split: list.splits)
qed

lemma decode_runes_valid: "list_all valid_rune (decode_runes bs)"
proof (induction bs rule: decode_runes.induct)
  case (1 bs)
  then show ?case
    using decode_rune_valid by (subst decode_runes.simps) simp
qed

subsection \<open>Strings\<close>

definition runes :: "string \<Rightarrow> nat list" where
  "runes s = decode_runes (map of_char s)"

definition string_of_runes :: "nat list \<Rightarrow> string" where
  "string_of_runes rs = map char_of (encode_runes rs)"

definition RuneCountInString :: "string \<Rightarrow> nat" where
  "RuneCountInString s = length (runes s)"

text \<open>\<^verbatim>\<open>utf8.ValidString\<close>: no byte was replaced while decoding.\<close>

definition valid_utf8 :: "string \<Rightarrow> bool" where
  "valid_utf8 s \<longleftrightarrow> string_of_runes (runes s) = s"

lemma encode_rune_bytes: "b \<in> set (encode_rune r) \<Longrightarrow> b < 256"
  by (auto simp: encode_rune_def valid_rune_def RuneError_def Let_def split: if_splits)

lemma encode_runes_bytes: "b \<in> set (encode_runes rs) \<Longrightarrow> b < 256"
  by (auto simp: encode_runes_def dest: encode_rune_bytes)

lemma of_char_string_of_runes: "map of_char (string_of_runes rs) = encode_runes rs"
  by (auto simp: string_of_runes_def intro!: map_idI dest: encode_runes_bytes)

lemma runes_valid [simp]: "list_all valid_rune (runes s)"
  by (simp add: runes_def decode_runes_valid)

lemma runes_string_of_runes:
  "list_all valid_rune rs \<Longrightarrow> runes (string_of_runes rs) = rs"
  by (simp add: runes_def of_char_string_of_runes decode_encode_runes)

lemma valid_utf8_string_of_runes:
  "list_all valid_rune rs \<Longrightarrow> valid_utf8 (string_of_runes rs)"
  by (simp add: valid_utf8_def runes_string_of_runes)

text \<open>Plain ASCII text is valid UTF-8.\<close>

lemma string_of_ascii: "list_all (\<lambda>c. of_char c < (128 :: nat)) s \<Longrightarrow> string_of_runes (map of_char s) = s"
  by (induction s) (simp_all add: string_of_runes_def encode_runes_def encode_rune_def valid_rune_def)

lemma valid_utf8_ascii:
  assumes "list_all (\<lambda>c. of_char c < (128 :: nat)) s"
  shows "valid_utf8 s"
proof -
  have "list_all valid_rune (map of_char s)" using assms by (fastforce simp: list_all_iff valid_rune_def)
  from valid_utf8_string_of_runes [OF this] string_of_ascii [OF assms] show ?thesis by simp
qed

end
