(* ===== verification/Schema.thy ===== *)
theory Schema
  imports Avatar Utf8
begin

section \<open>The avatars table (migrations/000001_init.up.sql)\<close>

text \<open>
  The schema the first migration creates: the two enums, the length of every
  \<^verbatim>\<open>VARCHAR\<close>, the integer widths, the primary key. What PostgreSQL itself computes, the
  parsing of a \<^verbatim>\<open>UUID\<close> literal, the acceptance of a text value and the order in which the
  scan of a statement meets the rows, is the parameter record \<open>env\<close>, together with the functions of
  the image and uuid libraries the code calls (a decoded image being some byte string) and
  the fields the trace propagator injects; \<open>env_ok\<close> names what the code relies on.
\<close>

record env =
  uuid_in :: "string \<Rightarrow> string option"
  text_in :: "string \<Rightarrow> bool"
  varchar_in :: "nat \<Rightarrow> string \<Rightarrow> string option"
  scan_order :: "string \<Rightarrow> avatar list \<Rightarrow> avatar list"
  uuid_gen :: "nat \<Rightarrow> string"
  decode_config :: "bytes \<Rightarrow> (int \<times> int) option"
  detect_content_type :: "bytes \<Rightarrow> string"
  trace_context :: "(string \<times> string) list"
  im_decode :: "bytes \<Rightarrow> bytes res"
  im_fill :: "bytes \<Rightarrow> int \<Rightarrow> int \<Rightarrow> bytes"
  im_encode :: "bytes \<Rightarrow> int \<Rightarrow> bytes res"

text \<open>
  A parsed \<^verbatim>\<open>UUID\<close> has a canonical text form that parses to itself, a stored \<^verbatim>\<open>VARCHAR(n)\<close>
  value can be stored again unchanged, and a scan visits every row once.
\<close>

definition env_ok :: "env \<Rightarrow> bool" where
  "env_ok E \<longleftrightarrow>
     (\<forall>i u. uuid_in E i = Some u \<longrightarrow> uuid_in E u = Some u) \<and>
     (\<forall>n s t. varchar_in E n s = Some t \<longrightarrow> varchar_in E n t = Some t) \<and>
     (\<forall>stmt rs. mset (scan_order E stmt rs) = mset rs)"

definition upload_status_enum :: "string list" where
  "upload_status_enum = [''uploading'', ''uploaded'', ''failed'']"

definition processing_status_enum :: "string list" where
  "processing_status_enum = [''pending'', ''processing'', ''completed'', ''failed'', ''deleted'']"

definition int4_ok :: "int \<Rightarrow> bool" where
  "int4_ok i \<longleftrightarrow> - (2 ^ 31) \<le> i \<and> i < 2 ^ 31"

definition int8_ok :: "int \<Rightarrow> bool" where
  "int8_ok i \<longleftrightarrow> - (2 ^ 63) \<le> i \<and> i < 2 ^ 63"

text \<open>The row an INSERT of the given values stores at time \<open>now\<close>, if every value fits.\<close>

definition new_row :: "env \<Rightarrow> int \<Rightarrow> new_avatar \<Rightarrow> avatar option" where
  "new_row E now n =
     (case (uuid_in E (newID n), varchar_in E 255 (newUserID n), varchar_in E 255 (newFileName n),
            varchar_in E 100 (newMimeType n), varchar_in E 1024 (newS3Key n)) of
        (Some i, Some uid, Some fn, Some mt, Some key) \<Rightarrow>
          if int8_ok (newSizeBytes n) \<and> int4_ok (newWidth n) \<and> int4_ok (newHeight n)
          then Some \<lparr>ID = i, UserID = uid, FileName = fn, MimeType = mt,
                     SizeBytes = newSizeBytes n, Width = newWidth n, Height = newHeight n,
                     S3Key = key, Thumbnails = [], UploadStatus = ''uploading'',
                     ProcessingStatus = ''pending'', CreatedAt = now, UpdatedAt = now,
                     DeletedAt = None\<rparr>
          else None
      | _ \<Rightarrow> None)"

definition row_ok :: "env \<Rightarrow> avatar \<Rightarrow> bool" where
  "row_ok E a \<longleftrightarrow>
     uuid_in E (ID a) = Some (ID a) \<and>
     varchar_in E 255 (UserID a) = Some (UserID a) \<and>
     varchar_in E 255 (FileName a) = Some (FileName a) \<and>
     varchar_in E 100 (MimeType a) = Some (MimeType a) \<and>
     varchar_in E 1024 (S3Key a) = Some (S3Key a) \<and>
     int8_ok (SizeBytes a) \<and> int4_ok (Width a) \<and> int4_ok (Height a) \<and>
     UploadStatus a \<in> set upload_status_enum \<and>
     ProcessingStatus a \<in> set processing_status_enum"

definition table_ok :: "env \<Rightarrow> avatar list \<Rightarrow> bool" where
  "table_ok E rs \<longleftrightarrow> distinct (map ID rs) \<and> list_all (row_ok E) rs"

lemma new_row_ok: "env_ok E \<Longrightarrow> new_row E now n = Some a \<Longrightarrow> row_ok E a"
  by (auto simp: new_row_def row_ok_def env_ok_def upload_status_enum_def
      processing_status_enum_def split: option.splits if_splits)

lemma new_row_fields:
  "new_row E now n = Some a \<Longrightarrow>
   uuid_in E (newID n) = Some (ID a) \<and> live a \<and> Thumbnails a = [] \<and>
   UploadStatus a = ''uploading'' \<and> ProcessingStatus a = ''pending'' \<and>
   SizeBytes a = newSizeBytes n \<and> Width a = newWidth n \<and> Height a = newHeight n \<and>
   CreatedAt a = now \<and> UpdatedAt a = now \<and>
   varchar_in E 255 (newUserID n) = Some (UserID a) \<and>
   varchar_in E 255 (newFileName n) = Some (FileName a) \<and>
   varchar_in E 100 (newMimeType n) = Some (MimeType a) \<and>
   varchar_in E 1024 (newS3Key n) = Some (S3Key a)"
  by (auto simp: new_row_def live_def split: option.splits if_splits)

lemma set_scan_order [simp]: "env_ok E \<Longrightarrow> set (scan_order E stmt rs) = set rs"
  by (metis env_ok_def mset_eq_setD)

lemma distinct_scan_order:
  "env_ok E \<Longrightarrow> distinct (map ID rs) \<Longrightarrow> distinct (map ID (scan_order E stmt rs))"
  by (metis env_ok_def mset_eq_imp_distinct_iff mset_map)

lemma env_ok_uuid: "env_ok E \<Longrightarrow> uuid_in E i = Some u \<Longrightarrow> uuid_in E u = Some u"
  by (auto simp: env_ok_def)

subsection \<open>A concrete environment\<close>

text \<open>
  An instance of the parameters that meets what is assumed of them, for the witnesses: any
  non-empty id is accepted as it stands, a text fits if it is short enough, scans keep the
  order of the table, and a file of at least four bytes probes as a 2x2 image.
\<close>

definition sample_env :: env where
  "sample_env = \<lparr>uuid_in = (\<lambda>i. if i = [] then None else Some i), text_in = (\<lambda>_. True),
     varchar_in = (\<lambda>n s. if length s \<le> n then Some s else None), scan_order = (\<lambda>_ rs. rs),
     uuid_gen = (\<lambda>n. ''id-'' @ dec n),
     decode_config = (\<lambda>d. if length d < 4 then None else Some (2, 2)),
     detect_content_type = (\<lambda>d. if length d < 4 then ''text/plain'' else ''image/png''),
     trace_context = [(''traceparent'', ''00-01'')],
     im_decode = (\<lambda>d. if length d < 4 then Inl (NewError ''image: unknown format'') else Inr d),
     im_fill = (\<lambda>d x y. take 2 d @ itoa x), im_encode = (\<lambda>d q. Inr (''JPEG'' @ d))\<rparr>"

definition sample_row :: "string \<Rightarrow> int \<Rightarrow> int option \<Rightarrow> avatar" where
  "sample_row i t del = \<lparr>ID = i, UserID = ''ann'', FileName = ''me.png'', MimeType = ''image/png'',
     SizeBytes = 4, Width = 2, Height = 2, S3Key = OriginalKey i, Thumbnails = [],
     UploadStatus = ''uploaded'', ProcessingStatus = ''pending'', CreatedAt = t, UpdatedAt = t,
     DeletedAt = del\<rparr>"

lemma sample_env_ok [simp]: "env_ok sample_env"
  by (simp add: env_ok_def sample_env_def)

lemma sample_row_sel [simp]:
  "ID (sample_row i t del) = i" "UserID (sample_row i t del) = ''ann''"
  "CreatedAt (sample_row i t del) = t" "DeletedAt (sample_row i t del) = del"
  "live (sample_row i t del) \<longleftrightarrow> del = None"
  by (simp_all add: sample_row_def live_def)

lemma sample_row_ok: "i \<noteq> [] \<Longrightarrow> length i \<le> 900 \<Longrightarrow> row_ok sample_env (sample_row i t del)"
  by (simp add: row_ok_def sample_env_def sample_row_def OriginalKey_def int8_ok_def int4_ok_def
      upload_status_enum_def processing_status_enum_def)

end
