(* ===== verification/Json.thy ===== *)
theory Json
  imports Avatar Utf8
begin

section \<open>Event payloads (encoding/json on internal/avatar/events.go)\<close>

text \<open>
  The two events travel as JSON. A message body is modelled by the JSON value its text
  denotes, \<open>None\<close> being text that is no JSON; what \<^verbatim>\<open>json.Marshal\<close> and \<^verbatim>\<open>json.Unmarshal\<close>
  do with the two structs is written out over that value: Marshal replaces invalid UTF-8
  by U+FFFD, Unmarshal starts from the zero struct, ignores unknown members, lets null
  leave a field alone, matches member names exactly or up to ASCII case, goes on after a
  member of the wrong type and reports the first such error at the end.
\<close>

datatype json =
    JNull
  | JBool bool
  | JNum int
  | JStr string
  | JArr "json list"
  | JObj "(string \<times> json) list"

subsection \<open>Marshal\<close>

definition json_string :: "string \<Rightarrow> json" where
  "json_string s = JStr (string_of_runes (runes s))"

definition marshal_upload :: "UploadEvent \<Rightarrow> json" where
  "marshal_upload ev = JObj
     [(''avatar_id'', json_string (upAvatarID ev)),
      (''user_id'', json_string (upUserID ev)),
      (''s3_key'', json_string (upS3Key ev))]"

definition marshal_delete :: "DeleteEvent \<Rightarrow> json" where
  "marshal_delete ev = JObj
     [(''avatar_id'', json_string (delAvatarID ev)),
      (''s3_keys'', JArr (map json_string (delS3Keys ev)))]"

subsection \<open>Unmarshal\<close>

definition lower :: "char \<Rightarrow> char" where
  "lower c = (if 65 \<le> (of_char c :: nat) \<and> (of_char c :: nat) \<le> 90
     then char_of (of_char c + 32 :: nat) else c)"

definition field_matches :: "string \<Rightarrow> string \<Rightarrow> bool" where
  "field_matches f k \<longleftrightarrow> k = f \<or> map lower k = map lower f"

definition type_error :: go_error where
  "type_error = NewError ''json: cannot unmarshal''"

definition syntax_error :: go_error where
  "syntax_error = NewError ''invalid character''"

fun into_string :: "json \<Rightarrow> string \<Rightarrow> string \<times> bool" where
  "into_string (JStr s) _ = (s, True)"
| "into_string JNull old = (old, True)"
| "into_string _ old = (old, False)"

text \<open>Elements of an array go into the elements a former member of the same name left.\<close>

fun into_elems :: "json list \<Rightarrow> string list \<Rightarrow> (string \<times> bool) list" where
  "into_elems [] _ = []"
| "into_elems (v # vs) [] = into_string v [] # into_elems vs []"
| "into_elems (v # vs) (old # olds) = into_string v old # into_elems vs olds"

fun into_strings :: "json \<Rightarrow> string list \<Rightarrow> string list \<times> bool" where
  "into_strings (JArr vs) olds = (map fst (into_elems vs olds), list_all snd (into_elems vs olds))"
| "into_strings JNull _ = ([], True)"
| "into_strings _ olds = (olds, False)"

definition upload_member :: "UploadEvent \<Rightarrow> string \<times> json \<Rightarrow> UploadEvent \<times> bool" where
  "upload_member ev kv = (let (k, v) = kv in
     if field_matches ''avatar_id'' k then
       (let (s, ok) = into_string v (upAvatarID ev) in (ev\<lparr>upAvatarID := s\<rparr>, ok))
     else if field_matches ''user_id'' k then
       (let (s, ok) = into_string v (upUserID ev) in (ev\<lparr>upUserID := s\<rparr>, ok))
     else if field_matches ''s3_key'' k then
       (let (s, ok) = into_string v (upS3Key ev) in (ev\<lparr>upS3Key := s\<rparr>, ok))
     else (ev, True))"

definition delete_member :: "DeleteEvent \<Rightarrow> string \<times> json \<Rightarrow> DeleteEvent \<times> bool" where
  "delete_member ev kv = (let (k, v) = kv in
     if field_matches ''avatar_id'' k then
       (let (s, ok) = into_string v (delAvatarID ev) in (ev\<lparr>delAvatarID := s\<rparr>, ok))
     else if field_matches ''s3_keys'' k then
       (let (ss, ok) = into_strings v (delS3Keys ev) in (ev\<lparr>delS3Keys := ss\<rparr>, ok))
     else (ev, True))"

fun members :: "('e \<Rightarrow> string \<times> json \<Rightarrow> 'e \<times> bool) \<Rightarrow> 'e \<Rightarrow> (string \<times> json) list \<Rightarrow> 'e \<times> bool" where
  "members m ev [] = (ev, True)"
| "members m ev (kv # kvs) =
     (let (ev1, ok1) = m ev kv; (ev2, ok2) = members m ev1 kvs in (ev2, ok1 \<and> ok2))"

definition unmarshal :: "('e \<Rightarrow> string \<times> json \<Rightarrow> 'e \<times> bool) \<Rightarrow> 'e \<Rightarrow> json option \<Rightarrow> 'e res" where
  "unmarshal m zero body = (case body of
     None \<Rightarrow> Inl syntax_error
   | Some JNull \<Rightarrow> Inr zero
   | Some (JObj kvs) \<Rightarrow>
       (let (ev, ok) = members m zero kvs in if ok then Inr ev else Inl type_error)
   | Some _ \<Rightarrow> Inl type_error)"

definition zero_upload :: UploadEvent where
  "zero_upload = \<lparr>upAvatarID = [], upUserID = [], upS3Key = []\<rparr>"

definition zero_delete :: DeleteEvent where
  "zero_delete = \<lparr>delAvatarID = [], delS3Keys = []\<rparr>"

definition unmarshal_upload :: "json option \<Rightarrow> UploadEvent res" where
  "unmarshal_upload = unmarshal upload_member zero_upload"

definition unmarshal_delete :: "json option \<Rightarrow> DeleteEvent res" where
  "unmarshal_delete = unmarshal delete_member zero_delete"

lemmas unmarshal_simps = unmarshal_upload_def unmarshal_delete_def unmarshal_def
  upload_member_def delete_member_def field_matches_def zero_upload_def zero_delete_def

subsection \<open>Round trip\<close>

definition clean :: "string \<Rightarrow> string" where
  "clean s = string_of_runes (runes s)"

lemma clean_valid [simp]: "valid_utf8 s \<Longrightarrow> clean s = s"
  by (simp add: clean_def valid_utf8_def)

lemma json_string_clean: "json_string s = JStr (clean s)"
  by (simp add: json_string_def clean_def)

lemma upload_roundtrip_clean:
  "unmarshal_upload (Some (marshal_upload ev)) =
   Inr \<lparr>upAvatarID = clean (upAvatarID ev), upUserID = clean (upUserID ev),
        upS3Key = clean (upS3Key ev)\<rparr>"
  by (simp add: unmarshal_simps marshal_upload_def json_string_clean lower_def)

lemma into_elems_strings: "into_elems (map json_string ks) [] = map (\<lambda>k. (clean k, True)) ks"
  by (induction ks) (simp_all add: json_string_clean)

lemma delete_roundtrip_clean:
  "unmarshal_delete (Some (marshal_delete ev)) =
   Inr \<lparr>delAvatarID = clean (delAvatarID ev), delS3Keys = map clean (delS3Keys ev)\<rparr>"
  by (simp add: unmarshal_simps marshal_delete_def json_string_clean lower_def
      into_elems_strings comp_def list_all_iff)

end
