(* ===== verification/Environment.thy ===== *)
theory Environment
  imports Schema Json
begin

section \<open>The world outside the process\<close>

text \<open>
  Everything the program shares with other processes: the avatars table, the S3 buckets
  and the messages the broker has accepted. Every remote call of a handler is one turn of
  a script. A turn says what the other processes do to the shared state before the call
  takes effect (any function), what the clock then shows, and how the call ends: it is
  answered, it is refused and has no effect, or it takes effect and the answer is lost.
  Theorems quantify over the script, so they cover every pattern of faults, and, where
  they do not ask for \<open>quiet\<close>, every interleaving with other processes at the grain of
  single remote calls. When the script has run out, calls are answered and nobody
  interferes.
\<close>

record object =
  oType :: string
  oData :: bytes

datatype amqp_value = TStr string | TBool bool | TInt int

type_synonym amqp_table = "(string \<times> amqp_value) list"

record message =
  mExchange :: string
  mKey :: string
  mType :: string
  mHeaders :: amqp_table
  mId :: string
  mPersistent :: bool
  mBody :: json

record shared =
  rows :: "avatar list"
  buckets :: "string \<Rightarrow> (string \<rightharpoonup> object) option"
  sent :: "message list"

datatype outcome = Answered | Refused net_error | Lost net_error

type_synonym turn = "(shared \<Rightarrow> shared) \<times> int \<times> outcome"

record world =
  sh :: shared
  script :: "turn list"
  clock :: int
  next_id :: nat
  observed :: "(string \<times> string) list"

definition take_turn :: "world \<Rightarrow> outcome \<times> world" where
  "take_turn w = (case script w of
     [] \<Rightarrow> (Answered, w)
   | (others, now, out) # ts \<Rightarrow>
       (out, w\<lparr>sh := others (sh w), clock := now, script := ts\<rparr>))"

definition remote :: "(int \<Rightarrow> shared \<Rightarrow> 'a res \<times> shared) \<Rightarrow> (world, 'a) io" where
  "remote act w = (case take_turn w of
     (Answered, w1) \<Rightarrow> (let (r, s) = act (clock w1) (sh w1) in (r, w1\<lparr>sh := s\<rparr>))
   | (Refused e, w1) \<Rightarrow> (Inl (Net e), w1)
   | (Lost e, w1) \<Rightarrow> (Inl (Net e), w1\<lparr>sh := snd (act (clock w1) (sh w1))\<rparr>))"

text \<open>The objects of one bucket; a bucket that does not exist has none.\<close>

definition objects :: "string \<Rightarrow> shared \<Rightarrow> (string \<rightharpoonup> object)" where
  "objects b s = (case buckets s b of None \<Rightarrow> Map.empty | Some m \<Rightarrow> m)"

subsection \<open>Undisturbed runs\<close>

definition quiet :: "world \<Rightarrow> bool" where
  "quiet w \<longleftrightarrow> list_all (\<lambda>(others, _, _). \<forall>s. others s = s) (script w)"

lemma quiet_no_script [simp]: "script w = [] \<Longrightarrow> quiet w"
  by (simp add: quiet_def)

lemma take_turn_quiet:
  assumes "quiet w" and "take_turn w = (out, w1)"
  shows "quiet w1" "sh w1 = sh w" "next_id w1 = next_id w" "observed w1 = observed w"
  using assms by (auto simp: take_turn_def quiet_def split: list.splits)

text \<open>A remote call in an undisturbed run: answered, without effect, or done but unanswered.\<close>

lemma remote_quiet:
  assumes "quiet w" and "remote act w = (r, w')"
  obtains now where "quiet w'" "next_id w' = next_id w" "observed w' = observed w"
    and "r = fst (act now (sh w)) \<and> sh w' = snd (act now (sh w)) \<or>
         (\<exists>e. r = Inl (Net e)) \<and> sh w' \<in> {sh w, snd (act now (sh w))}"
proof -
  obtain out w1 where t: "take_turn w = (out, w1)" by fastforce
  note q = take_turn_quiet [OF assms(1) t]
  have q': "quiet (w1\<lparr>sh := s\<rparr>)" for s
    using q(1) by (simp add: quiet_def)
  show ?thesis
    using assms(2) t q q' that [of "clock w1"]
    by (cases out) (auto simp: remote_def split: prod.splits)
qed

subsection \<open>Guarantees under interference\<close>

text \<open>
  A guarantee is a reflexive and transitive relation between shared states. Where the
  other processes keep to it, so does a sequence of remote calls each of which keeps to
  it: this is how a property of single statements becomes a property of every
  interleaving of handlers.
\<close>

definition others_keep :: "(shared \<Rightarrow> shared \<Rightarrow> bool) \<Rightarrow> world \<Rightarrow> bool" where
  "others_keep G w \<longleftrightarrow> list_all (\<lambda>(others, _, _). \<forall>s. G s (others s)) (script w)"

definition upheld :: "(shared \<Rightarrow> shared \<Rightarrow> bool) \<Rightarrow> world \<Rightarrow> world \<Rightarrow> bool" where
  "upheld G w w' \<longleftrightarrow> (others_keep G w \<longrightarrow> G (sh w) (sh w') \<and> others_keep G w')"

definition keeps :: "('w \<Rightarrow> 'w \<Rightarrow> bool) \<Rightarrow> ('w \<Rightarrow> 'a \<times> 'w) \<Rightarrow> bool" where
  "keeps I m \<longleftrightarrow> (\<forall>w. I w (snd (m w)))"

locale guarantee =
  fixes G :: "shared \<Rightarrow> shared \<Rightarrow> bool"
  assumes G_refl: "G s s"
    and G_trans: "G s t \<Longrightarrow> G t u \<Longrightarrow> G s u"
begin

lemma upheld_refl: "upheld G w w"
  by (simp add: upheld_def G_refl)

lemma upheld_trans: "upheld G w w1 \<Longrightarrow> upheld G w1 w2 \<Longrightarrow> upheld G w w2"
  by (auto simp: upheld_def intro: G_trans)

lemma keeps_remote:
  assumes "\<And>now s. G s (snd (act now s))"
  shows "keeps (upheld G) (remote act)"
  unfolding keeps_def upheld_def
proof (intro allI impI)
  fix w
  assume rely: "others_keep G w"
  obtain out w1 where t: "take_turn w = (out, w1)" by fastforce
  have w1: "G (sh w) (sh w1)" "others_keep G w1"
    using t rely G_refl by (auto simp: take_turn_def others_keep_def split: list.splits)
  then have "G (sh w) (snd (act (clock w1) (sh w1)))"
    using assms G_trans by blast
  moreover have "others_keep G (w1\<lparr>sh := s\<rparr>)" for s
    using w1(2) by (simp add: others_keep_def)
  ultimately show "G (sh w) (sh (snd (remote act w))) \<and> others_keep G (snd (remote act w))"
    using t w1 by (cases out) (auto simp: remote_def split: prod.splits)
qed

end

text \<open>
  How a relation between states passes through the shapes the code is made of: a call
  whose result the rest of the function inspects, a branch, a value returned.
\<close>

locale step_relation =
  fixes I :: "'w \<Rightarrow> 'w \<Rightarrow> bool"
  assumes I_refl: "I w w"
    and I_trans: "I w w1 \<Longrightarrow> I w1 w2 \<Longrightarrow> I w w2"
begin

lemma keeps_call:
  assumes "keeps I m" and "I w0 w"
    and "\<And>r w1. m w = (r, w1) \<Longrightarrow> I w0 w1 \<Longrightarrow> I w0 (snd (k r w1))"
  shows "I w0 (snd (case m w of (r, w1) \<Rightarrow> k r w1))"
proof -
  obtain r w1 where m: "m w = (r, w1)" by fastforce
  with assms(1,2) have "I w0 w1" by (metis keeps_def I_trans snd_conv)
  with m assms(3) show ?thesis by simp
qed

lemma keeps_tail: "keeps I m \<Longrightarrow> I w0 w \<Longrightarrow> I w0 (snd (m w))"
  by (metis keeps_def I_trans)

lemma keeps_sum:
  assumes "\<And>e. r = Inl e \<Longrightarrow> I w0 (snd (f e))" and "\<And>a. r = Inr a \<Longrightarrow> I w0 (snd (g a))"
  shows "I w0 (snd (case r of Inl e \<Rightarrow> f e | Inr a \<Rightarrow> g a))"
  using assms by (cases r) auto

lemma keeps_option:
  assumes "r = None \<Longrightarrow> I w0 (snd f)" and "\<And>a. r = Some a \<Longrightarrow> I w0 (snd (g a))"
  shows "I w0 (snd (case r of None \<Rightarrow> f | Some a \<Rightarrow> g a))"
  using assms by (cases r) auto

lemma keeps_if:
  assumes "c \<Longrightarrow> I w0 (snd f)" and "\<not> c \<Longrightarrow> I w0 (snd g)"
  shows "I w0 (snd (if c then f else g))"
  using assms by simp

lemma keeps_return: "I w0 w \<Longrightarrow> I w0 (snd (r, w))"
  by simp

lemmas keeps_rules = keeps_call keeps_sum keeps_option keeps_if keeps_return

end

sublocale guarantee \<subseteq> upheld_rel: step_relation "upheld G"
  by unfold_locales (auto intro: upheld_refl upheld_trans)

end
