(* ===== verification/Contracts.thy ===== *)
theory Contracts
  imports Environment
begin

section \<open>What the clients of the stores rely on\<close>

text \<open>
  The Go interfaces \<^verbatim>\<open>Repository\<close>, \<^verbatim>\<open>FileStore\<close>, \<^verbatim>\<open>Publisher\<close> and \<^verbatim>\<open>Observer\<close> are
  records of operations in the theories that declare them; this theory states the
  contracts their implementations meet, over an abstract \<open>view\<close> of the state: the rows
  by id, the objects by key, the messages handed to the broker and the recorded
  observations. A contract speaks of undisturbed states (\<open>good\<close>) but of every fault: an
  operation that reports an error may or may not have had its effect, and the two
  outcomes are all a client may assume.
\<close>

record view =
  vRow :: "string \<rightharpoonup> avatar"
  vObj :: "string \<rightharpoonup> object"
  vMsgs :: "message list"
  vObs :: "(string \<times> string) list"

lemma view_row_same [simp]: "vRow v i = Some a \<Longrightarrow> (v :: view)\<lparr>vRow := (vRow v)(i \<mapsto> a)\<rparr> = v"
  by (cases v) (simp add: fun_upd_idem)

text \<open>The effect of an operation that may report an error: done if it returns no error.\<close>

definition done_or_failed :: "'a res \<Rightarrow> 'v \<Rightarrow> 'v \<Rightarrow> 'v \<Rightarrow> bool" where
  "done_or_failed r old new v' \<longleftrightarrow> v' = new \<or> ((\<exists>e. r = Inl e) \<and> v' = old)"

lemma done_or_failed_Inr [simp]: "done_or_failed (Inr a) old new v' \<longleftrightarrow> v' = new"
  by (simp add: done_or_failed_def)

lemma done_or_failed_Inl [simp]: "done_or_failed (Inl e) old new v' \<longleftrightarrow> v' = new \<or> v' = old"
  by (simp add: done_or_failed_def)

lemma row_outcome:
  assumes "vRow v i = Some x" and "done_or_failed r (v :: view) (v\<lparr>vRow := (vRow v)(i \<mapsto> x')\<rparr>) v'"
  obtains y where "v' = v\<lparr>vRow := (vRow v)(i \<mapsto> y)\<rparr>" "y = x' \<or> y = x \<and> (\<exists>e. r = Inl e)"
proof -
  from assms(2) have "v' = v\<lparr>vRow := (vRow v)(i \<mapsto> x')\<rparr> \<or> (\<exists>e. r = Inl e) \<and> v' = v\<lparr>vRow := (vRow v)(i \<mapsto> x)\<rparr>"
    using view_row_same [OF assms(1)] by (simp only: done_or_failed_def)
  with that show thesis by blast
qed

locale object_store =
  fixes good :: "'w \<Rightarrow> bool"
    and view :: "'w \<Rightarrow> view"
    and put :: "string \<Rightarrow> string \<Rightarrow> bytes \<Rightarrow> int \<Rightarrow> ('w, unit) io"
    and get :: "string \<Rightarrow> ('w, 'w reader) io"
  assumes put_law: "good w \<Longrightarrow> n = int (length d) \<Longrightarrow> put k ct d n w = (r, w') \<Longrightarrow>
      good w' \<and> done_or_failed r (view w)
        ((view w)\<lparr>vObj := (vObj (view w))(k \<mapsto> \<lparr>oType = ct, oData = d\<rparr>)\<rparr>) (view w')"
    and get_law: "good w \<Longrightarrow> get k w = (rg, w') \<Longrightarrow> good w' \<and> view w' = view w"
    and get_exists: "good w \<Longrightarrow> get k w = (Inr rd, w') \<Longrightarrow> vObj (view w) k \<noteq> None"
    and get_missing: "good w \<Longrightarrow> get k w = (Inl e, w') \<Longrightarrow> errors_is e ErrNotFound \<Longrightarrow>
      vObj (view w) k = None"
    and get_not_owner: "good w \<Longrightarrow> get k w = (Inl e, w') \<Longrightarrow> \<not> errors_is e ErrNotOwner"
    and read_law: "good w \<Longrightarrow> get k w = (Inr rd, w1) \<Longrightarrow> good w2 \<Longrightarrow>
      rd w2 = ((d, err), w3) \<Longrightarrow> good w3 \<and> view w3 = view w2 \<and>
      (err = None \<longrightarrow> (\<exists>x. vObj (view w2) k = Some x \<and> d = oData x))"

locale row_reader =
  fixes good :: "'w \<Rightarrow> bool"
    and view :: "'w \<Rightarrow> view"
    and get_by_id :: "string \<Rightarrow> ('w, avatar) io"
  assumes row_law: "good w \<Longrightarrow> get_by_id i w = (r, w') \<Longrightarrow> good w' \<and> view w' = view w"
    and row_found: "good w \<Longrightarrow> get_by_id i w = (Inr a, w') \<Longrightarrow>
      vRow (view w) (ID a) = Some a \<and> live a"
    and row_asked: "good w \<Longrightarrow> get_by_id i w = (Inr a, w') \<Longrightarrow> vRow (view w) i = Some x \<Longrightarrow>
      ID a = i"
    and row_missing: "good w \<Longrightarrow> get_by_id i w = (Inl e, w') \<Longrightarrow> errors_is e ErrNotFound \<Longrightarrow>
      vRow (view w) i = Some x \<Longrightarrow> \<not> live x"
    and row_not_owner: "good w \<Longrightarrow> get_by_id i w = (Inl e, w') \<Longrightarrow> \<not> errors_is e ErrNotOwner"

subsection \<open>The view of the world\<close>

definition good_world :: "env \<Rightarrow> world \<Rightarrow> bool" where
  "good_world E w \<longleftrightarrow> env_ok E \<and> quiet w \<and> table_ok E (rows (sh w))"

definition row_of :: "avatar list \<Rightarrow> (string \<rightharpoonup> avatar)" where
  "row_of rs i = find (\<lambda>a. ID a = i) rs"

definition world_view :: "string \<Rightarrow> world \<Rightarrow> view" where
  "world_view b w = \<lparr>vRow = row_of (rows (sh w)), vObj = objects b (sh w),
     vMsgs = sent (sh w), vObs = observed w\<rparr>"

lemma world_view_sel [simp]:
  "vRow (world_view b w) = row_of (rows (sh w))"
  "vObj (world_view b w) = objects b (sh w)"
  "vMsgs (world_view b w) = sent (sh w)"
  "vObs (world_view b w) = observed w"
  by (simp_all add: world_view_def)

lemma world_viewD:
  assumes "world_view b w = v"
  shows "row_of (rows (sh w)) = vRow v" "objects b (sh w) = vObj v" "sent (sh w) = vMsgs v"
    "observed w = vObs v"
  using assms by auto

lemma row_of_Some: "row_of rs i = Some a \<Longrightarrow> a \<in> set rs \<and> ID a = i"
  by (auto simp: row_of_def dest: find_SomeD)

lemma row_of_ID: "distinct (map ID rs) \<Longrightarrow> a \<in> set rs \<Longrightarrow> row_of rs (ID a) = Some a"
  by (simp add: row_of_def find_distinct_key)

lemma row_of_append: "row_of (rs @ [a]) = (\<lambda>i. case row_of rs i of
    Some x \<Rightarrow> Some x | None \<Rightarrow> if ID a = i then Some a else None)"
  by (auto simp: row_of_def find_append fun_eq_iff split: option.splits)

lemma row_of_None: "row_of rs i = None \<longleftrightarrow> i \<notin> set (map ID rs)"
  by (auto simp: row_of_def find_None_iff)

subsection \<open>A concrete world\<close>

text \<open>
  A world for the witnesses: the given rows, the objects of the bucket \<^verbatim>\<open>b\<close>, nothing sent,
  and a script of turns.
\<close>

definition sample_world :: "avatar list \<Rightarrow> (string \<rightharpoonup> object) \<Rightarrow> turn list \<Rightarrow> world" where
  "sample_world rs objs ts = \<lparr>sh = \<lparr>rows = rs, buckets = [''b'' \<mapsto> objs], sent = []\<rparr>,
     script = ts, clock = 50, next_id = 7, observed = []\<rparr>"

lemma sample_world_sel [simp]:
  "rows (sh (sample_world rs objs ts)) = rs"
  "buckets (sh (sample_world rs objs ts)) = [''b'' \<mapsto> objs]"
  "sent (sh (sample_world rs objs ts)) = []"
  "script (sample_world rs objs ts) = ts"
  "clock (sample_world rs objs ts) = 50"
  "next_id (sample_world rs objs ts) = 7"
  "observed (sample_world rs objs ts) = []"
  "objects ''b'' (sh (sample_world rs objs ts)) = objs"
  by (simp_all add: sample_world_def objects_def)

lemma good_sample_world:
  "table_ok sample_env rs \<Longrightarrow> good_world sample_env (sample_world rs objs [])"
  by (simp add: good_world_def)

definition sample_rows :: "avatar list" where
  "sample_rows = [sample_row ''a1'' 3 None, sample_row ''a2'' 9 None, sample_row ''a3'' 20 (Some 21)]"

lemma table_ok_sample_rows [simp]: "table_ok sample_env sample_rows"
  by (simp add: table_ok_def sample_rows_def sample_row_ok)

end
