(* ===== verification/History.thy ===== *)
theory History
  imports Contracts
begin

section \<open>What never changes back\<close>

text \<open>
  The guarantee every process keeps: what no statement of the program undoes. Single
  remote calls that keep it are composed by the rules of theory Environment, so that it
  holds of whole handlers under every interleaving; and on undisturbed worlds it carries
  the well-formedness of the table through every call, faults included.
\<close>

subsection \<open>The history relation\<close>

text \<open>
  The history relation: the table only grows, a row keeps the columns no UPDATE names, a
  soft-deleted row stays deleted with the same time, messages once accepted stay, and a
  well-formed table stays well-formed.
\<close>

definition same_record :: "avatar \<Rightarrow> avatar \<Rightarrow> bool" where
  "same_record a b \<longleftrightarrow>
     ID b = ID a \<and> UserID b = UserID a \<and> FileName b = FileName a \<and> MimeType b = MimeType a \<and>
     SizeBytes b = SizeBytes a \<and> Width b = Width a \<and> Height b = Height a \<and>
     S3Key b = S3Key a \<and> CreatedAt b = CreatedAt a \<and>
     (\<not> live a \<longrightarrow> DeletedAt b = DeletedAt a)"

definition table_extends :: "avatar list \<Rightarrow> avatar list \<Rightarrow> bool" where
  "table_extends rs rs' \<longleftrightarrow> (\<exists>old new. rs' = old @ new \<and> list_all2 same_record rs old)"

definition history :: "env \<Rightarrow> shared \<Rightarrow> shared \<Rightarrow> bool" where
  "history E s s' \<longleftrightarrow>
     (env_ok E \<and> table_ok E (rows s) \<longrightarrow> table_ok E (rows s')) \<and>
     table_extends (rows s) (rows s') \<and>
     prefix (sent s) (sent s')"

lemma same_record_refl [simp]: "same_record a a"
  by (simp add: same_record_def)

lemma same_record_trans: "same_record a b \<Longrightarrow> same_record b c \<Longrightarrow> same_record a c"
  by (auto simp: same_record_def live_def)

lemma same_records_refl [simp]: "list_all2 same_record rs rs"
  by (simp add: list_all2_refl)

lemma table_extends_refl [simp]: "table_extends rs rs"
  unfolding table_extends_def by (intro exI [of _ rs] exI [of _ "[]"]) simp

lemma table_extends_append [simp]: "table_extends rs (rs @ new)"
  unfolding table_extends_def by (intro exI [of _ rs] exI [of _ new]) simp

lemma table_extends_update:
  "(\<And>a. q a \<Longrightarrow> same_record a (f a)) \<Longrightarrow> table_extends rs (update_where q f rs)"
  unfolding table_extends_def
  by (intro exI [of _ "update_where q f rs"] exI [of _ "[]"])
     (simp add: update_where_def list_all2_conv_all_nth)

lemma table_extends_trans:
  assumes "table_extends rs rs1" and "table_extends rs1 rs2"
  shows "table_extends rs rs2"
proof -
  obtain old new where 1: "rs1 = old @ new" "list_all2 same_record rs old"
    using assms(1) by (auto simp: table_extends_def)
  obtain old' new' where 2: "rs2 = old' @ new'" "list_all2 same_record rs1 old'"
    using assms(2) by (auto simp: table_extends_def)
  obtain u v where "old' = u @ v" "list_all2 same_record old u"
    using 1(1) 2(2) by (auto simp: list_all2_append1)
  moreover have "list_all2 same_record rs u"
    using list_all2_trans [OF same_record_trans 1(2) \<open>list_all2 same_record old u\<close>] .
  ultimately show ?thesis
    using 2(1) unfolding table_extends_def by (intro exI [of _ u] exI [of _ "v @ new'"]) simp
qed

lemma table_ok_update:
  assumes "table_ok E rs" and "\<And>a. ID (f a) = ID a"
    and "\<And>a. row_ok E a \<Longrightarrow> q a \<Longrightarrow> row_ok E (f a)"
  shows "table_ok E (update_where q f rs)"
  using assms by (auto simp: table_ok_def map_update_where list_all_iff set_update_where)

lemma history_refl: "history E s s"
  by (simp add: history_def)

interpretation hist: guarantee "history E" for E
  by unfold_locales
     (auto simp: history_def intro: table_extends_trans prefix_order.trans)

lemma keeps_map_result: "keeps I m \<Longrightarrow> keeps I (\<lambda>w. case m w of (r, w1) \<Rightarrow> (f r, w1))"
  by (auto simp: keeps_def split: prod.splits) (metis snd_conv)

subsection \<open>Calls on an undisturbed world\<close>

lemma good_worldD:
  assumes "good_world E w"
  shows "env_ok E" "quiet w" "table_ok E (rows (sh w))" "distinct (map ID (rows (sh w)))"
  using assms by (simp_all add: good_world_def table_ok_def)

lemma good_remote:
  assumes "good_world E w" and "remote act w = (r, w')" and "\<And>now s. history E s (snd (act now s))"
  obtains now where "good_world E w'" "next_id w' = next_id w" "observed w' = observed w"
    and "r = fst (act now (sh w)) \<and> sh w' = snd (act now (sh w)) \<or>
         (\<exists>e. r = Inl (Net e)) \<and> sh w' \<in> {sh w, snd (act now (sh w))}"
proof -
  note g = good_worldD [OF assms(1)]
  obtain now where now: "quiet w'" "next_id w' = next_id w" "observed w' = observed w"
    "r = fst (act now (sh w)) \<and> sh w' = snd (act now (sh w)) \<or>
     (\<exists>e. r = Inl (Net e)) \<and> sh w' \<in> {sh w, snd (act now (sh w))}"
    by (rule remote_quiet [OF g(2) assms(2)])
  have "table_ok E (rows (snd (act now (sh w))))"
    using assms(3) [of "sh w" now] g by (simp add: history_def)
  with now g show ?thesis
    by (intro that [of now]) (auto simp: good_world_def)
qed

lemma good_read:
  assumes "good_world E w" and "remote act w = (r, w')" and "\<And>now s. snd (act now s) = s"
  obtains now where "good_world E w'" "world_view b w' = world_view b w"
    and "r = fst (act now (sh w)) \<or> (\<exists>e. r = Inl (Net e))"
  using good_remote [OF assms(1,2)] assms(3) history_refl
  by (metis (no_types, lifting) insert_iff singletonD world_view_def)

lemma remote_answer:
  assumes "remote act w = (Inr a, w')"
  obtains now s where "act now s = (Inr a, sh w')"
proof -
  obtain out w1 where "take_turn w = (out, w1)" by fastforce
  with assms that [of "clock w1" "sh w1"] show ?thesis
    by (cases out) (auto simp: remote_def split: prod.splits)
qed

lemma remote_read_state:
  assumes "\<And>now s. snd (act now s) = s" and "remote act w = (r, w')" and "r = Inr a"
  obtains now where "act now (sh w') = (Inr a, sh w')"
proof -
  obtain out w1 where t: "take_turn w = (out, w1)" by fastforce
  have "w1\<lparr>sh := sh w1\<rparr> = w1" by simp
  with assms t that [of "clock w1"] show ?thesis
    by (cases out) (auto simp: remote_def split: prod.splits, metis prod.collapse snd_conv)
qed

lemma remote_answered:
  "script w = [] \<Longrightarrow> remote act w =
     (fst (act (clock w) (sh w)), w\<lparr>sh := snd (act (clock w) (sh w))\<rparr>)"
  by (simp add: remote_def take_turn_def split: prod.splits)

text \<open>
  The effect of a call on the view: what the call does, or nothing, and then an error. It
  is enough to look at the call answered at once.
\<close>

lemma remote_effect:
  assumes "good_world E w" and "remote act w = (r, w')" and "\<And>now s. history E s (snd (act now s))"
    and act: "\<And>now. world_view b (w\<lparr>sh := snd (act now (sh w))\<rparr>) = v now \<or>
      world_view b (w\<lparr>sh := snd (act now (sh w))\<rparr>) = world_view b w \<and>
      (\<exists>e. fst (act now (sh w)) = Inl e)"
  shows "good_world E w' \<and> (\<exists>now. done_or_failed r (world_view b w) (v now) (world_view b w'))"
proof -
  obtain now where w': "good_world E w'" "observed w' = observed w" and
    r: "r = fst (act now (sh w)) \<and> sh w' = snd (act now (sh w)) \<or>
         (\<exists>e. r = Inl (Net e)) \<and> sh w' \<in> {sh w, snd (act now (sh w))}"
    by (rule good_remote [OF assms(1-3)])
  have old: "world_view b w' = world_view b w" if "sh w' = sh w"
    using that w'(2) by (simp add: world_view_def)
  have new: "world_view b w' = world_view b (w\<lparr>sh := snd (act now (sh w))\<rparr>)"
    if "sh w' = snd (act now (sh w))"
    using that w'(2) by (simp add: world_view_def)
  have "done_or_failed r (world_view b w) (v now) (world_view b w')"
    using r act [of now] old new unfolding done_or_failed_def by (metis insert_iff singletonD)
  with w'(1) show ?thesis by blast
qed

lemma remote_effect_const:
  assumes "good_world E w" and "remote act w = (r, w')" and "\<And>now s. history E s (snd (act now s))"
    and "\<And>now. world_view b (w\<lparr>sh := snd (act now (sh w))\<rparr>) = v \<or>
      world_view b (w\<lparr>sh := snd (act now (sh w))\<rparr>) = world_view b w \<and>
      (\<exists>e. fst (act now (sh w)) = Inl e)"
  shows "good_world E w' \<and> done_or_failed r (world_view b w) v (world_view b w')"
  using remote_effect [where v = "\<lambda>_. v", OF assms] by blast

end
