(* ===== verification/Postgres.thy ===== *)
theory Postgres
  imports History
begin

section \<open>The metadata repository (internal/storage/postgres)\<close>

text \<open>
  \<^verbatim>\<open>postgres.go\<close>: every method is one SQL statement, run by one remote call on the
  avatars table, and the translation of its result. The statements are written out as
  functions on the rows: INSERT with the checks of the schema, SELECT as a filter of the
  rows in the order a scan meets them, ORDER BY as a stable sort of that, UPDATE as a
  filtered update with the number of rows it touched. An id that is no UUID makes the
  statement fail, as PostgreSQL refuses the literal.
\<close>

subsection \<open>Statements\<close>

definition bad_literal :: go_error where
  "bad_literal = PgError ''22P02''"

definition sql_insert :: "env \<Rightarrow> new_avatar \<Rightarrow> int \<Rightarrow> shared \<Rightarrow> avatar res \<times> shared" where
  "sql_insert E n now s = (case new_row E now n of
     None \<Rightarrow> (Inl (PgError ''22000''), s)
   | Some a \<Rightarrow>
       if ID a \<in> set (map ID (rows s)) then (Inl (PgError ''23505''), s)
       else (Inr a, s\<lparr>rows := rows s @ [a]\<rparr>))"

definition sql_select_by_id :: "env \<Rightarrow> string \<Rightarrow> int \<Rightarrow> shared \<Rightarrow> avatar res \<times> shared" where
  "sql_select_by_id E i now s = (case uuid_in E i of
     None \<Rightarrow> (Inl bad_literal, s)
   | Some u \<Rightarrow>
       (case find (\<lambda>a. ID a = u \<and> live a) (scan_order E ''by id'' (rows s)) of
          None \<Rightarrow> (Inl ErrNoRows, s)
        | Some a \<Rightarrow> (Inr a, s)))"

definition user_rows :: "env \<Rightarrow> string \<Rightarrow> string \<Rightarrow> avatar list \<Rightarrow> avatar list" where
  "user_rows E stmt uid rs =
     sort_key (\<lambda>a. - CreatedAt a) (filter (\<lambda>a. UserID a = uid \<and> live a) (scan_order E stmt rs))"

definition sql_latest_by_user :: "env \<Rightarrow> string \<Rightarrow> int \<Rightarrow> shared \<Rightarrow> avatar res \<times> shared" where
  "sql_latest_by_user E uid now s =
     (if \<not> text_in E uid then (Inl (PgError ''22021''), s)
      else (case user_rows E ''latest'' uid (rows s) of
              [] \<Rightarrow> (Inl ErrNoRows, s)
            | a # _ \<Rightarrow> (Inr a, s)))"

definition sql_list_by_user :: "env \<Rightarrow> string \<Rightarrow> int \<Rightarrow> shared \<Rightarrow> avatar list res \<times> shared" where
  "sql_list_by_user E uid now s =
     (if \<not> text_in E uid then (Inl (PgError ''22021''), s)
      else (Inr (user_rows E ''list'' uid (rows s)), s))"

text \<open>An UPDATE of the row with a given id: how many rows matched, and the new table.\<close>

definition sql_update ::
  "env \<Rightarrow> string \<Rightarrow> bool \<Rightarrow> (avatar \<Rightarrow> bool) \<Rightarrow> (int \<Rightarrow> avatar \<Rightarrow> avatar) \<Rightarrow>
   int \<Rightarrow> shared \<Rightarrow> nat res \<times> shared" where
  "sql_update E i args_ok cond upd now s = (case uuid_in E i of
     None \<Rightarrow> (Inl bad_literal, s)
   | Some u \<Rightarrow>
       if \<not> args_ok then (Inl bad_literal, s)
       else (let q = (\<lambda>a. ID a = u \<and> cond a) in
         (Inr (length (filter q (rows s))), s\<lparr>rows := update_where q (upd now) (rows s)\<rparr>)))"

subsection \<open>The repository's methods\<close>

definition scanAvatar :: "avatar res \<Rightarrow> avatar res" where
  "scanAvatar row = (case row of
     Inr a \<Rightarrow> Inr a
   | Inl e \<Rightarrow> if errors_is e ErrNoRows then Inl ErrNotFound else Inl (Wrapf ''scan avatar'' e))"

definition pg_Create :: "env \<Rightarrow> new_avatar \<Rightarrow> (world, avatar) io" where
  "pg_Create E n w = (case remote (sql_insert E n) w of
     (row, w1) \<Rightarrow> (wrap_err ''insert avatar'' (scanAvatar row), w1))"

definition pg_GetByID :: "env \<Rightarrow> string \<Rightarrow> (world, avatar) io" where
  "pg_GetByID E i w = (case remote (sql_select_by_id E i) w of
     (row, w1) \<Rightarrow> (scanAvatar row, w1))"

definition pg_LatestByUser :: "env \<Rightarrow> string \<Rightarrow> (world, avatar) io" where
  "pg_LatestByUser E uid w = (case remote (sql_latest_by_user E uid) w of
     (row, w1) \<Rightarrow> (scanAvatar row, w1))"

definition pg_ListByUser :: "env \<Rightarrow> string \<Rightarrow> (world, avatar list) io" where
  "pg_ListByUser E uid w = (case remote (sql_list_by_user E uid) w of
     (rs, w1) \<Rightarrow> (wrap_err ''list avatars'' rs, w1))"

definition pg_exec :: "(int \<Rightarrow> shared \<Rightarrow> nat res \<times> shared) \<Rightarrow> (world, unit) io" where
  "pg_exec stmt w = (case remote stmt w of
     (Inl e, w1) \<Rightarrow> (Inl (Wrapf ''update avatar'' e), w1)
   | (Inr n, w1) \<Rightarrow> if n = 0 then (Inl ErrNotFound, w1) else (Inr (), w1))"

definition pg_SetUploadStatus :: "env \<Rightarrow> string \<Rightarrow> string \<Rightarrow> (world, unit) io" where
  "pg_SetUploadStatus E i st = pg_exec (sql_update E i (st \<in> set upload_status_enum)
     (\<lambda>_. True) (\<lambda>now a. a\<lparr>UploadStatus := st, UpdatedAt := now\<rparr>))"

definition pg_SetProcessingStatus :: "env \<Rightarrow> string \<Rightarrow> string \<Rightarrow> (world, unit) io" where
  "pg_SetProcessingStatus E i st = pg_exec (sql_update E i (st \<in> set processing_status_enum)
     (\<lambda>_. True) (\<lambda>now a. a\<lparr>ProcessingStatus := st, UpdatedAt := now\<rparr>))"

definition pg_SetThumbnails :: "env \<Rightarrow> string \<Rightarrow> (string \<times> string) list \<Rightarrow> (world, unit) io" where
  "pg_SetThumbnails E i keys = pg_exec (sql_update E i True (\<lambda>_. True)
     (\<lambda>now a. a\<lparr>Thumbnails := keys, ProcessingStatus := ProcessingStatusCompleted,
              UpdatedAt := now\<rparr>))"

definition pg_SoftDelete :: "env \<Rightarrow> string \<Rightarrow> (world, unit) io" where
  "pg_SoftDelete E i = pg_exec (sql_update E i True live
     (\<lambda>now a. a\<lparr>DeletedAt := Some now, UpdatedAt := now\<rparr>))"

text \<open>
  \<^verbatim>\<open>StorageByUser\<close>: the sums of the live rows per user. \<^verbatim>\<open>SUM\<close> of a \<^verbatim>\<open>BIGINT\<close> column is a
  \<^verbatim>\<open>NUMERIC\<close>, scanned into an int64: a total that does not fit is a scan error. The
  result map is given by its entries, one per user, in the order the groups come.
\<close>

definition user_total :: "avatar list \<Rightarrow> string \<Rightarrow> int" where
  "user_total rs uid = sum_list (map SizeBytes (filter (\<lambda>a. live a \<and> UserID a = uid) rs))"

definition live_users :: "avatar list \<Rightarrow> string list" where
  "live_users rs = remdups (map UserID (filter live rs))"

fun scan_usage :: "(string \<times> int) list \<Rightarrow> (string \<times> int) list res" where
  "scan_usage [] = Inr []"
| "scan_usage ((uid, n) # rs) =
     (if int8_ok n then
        (case scan_usage rs of Inl e \<Rightarrow> Inl e | Inr m \<Rightarrow> Inr ((uid, n) # m))
      else Inl (Wrapf ''scan storage row'' (PgError ''22003'')))"

definition sql_storage :: "env \<Rightarrow> int \<Rightarrow> shared \<Rightarrow> (string \<times> int) list res \<times> shared" where
  "sql_storage E now s =
     (Inr (map (\<lambda>uid. (uid, user_total (rows s) uid)) (live_users (scan_order E ''storage'' (rows s)))), s)"

definition pg_StorageByUser :: "env \<Rightarrow> (world, (string \<times> int) list) io" where
  "pg_StorageByUser E w = (case remote (sql_storage E) w of
     (Inl e, w1) \<Rightarrow> (Inl (Wrapf ''sum storage'' e), w1)
   | (Inr rs, w1) \<Rightarrow> (scan_usage rs, w1))"

subsection \<open>What the statements do to the table\<close>

lemma table_ok_insert:
  assumes "env_ok E" and "table_ok E rs" and "new_row E now n = Some a" and "ID a \<notin> set (map ID rs)"
  shows "table_ok E (rs @ [a])"
  using assms new_row_ok by (auto simp: table_ok_def)

lemma history_insert: "history E s (snd (sql_insert E n now s))"
  by (auto simp: sql_insert_def history_def table_ok_insert split: option.splits)

lemma history_update:
  assumes "\<And>now a. cond a \<Longrightarrow> same_record a (upd now a)" and "\<And>now a. ID (upd now a) = ID a"
    and "\<And>now a. args_ok \<Longrightarrow> row_ok E a \<Longrightarrow> row_ok E (upd now a)"
  shows "history E s (snd (sql_update E i args_ok cond upd now s))"
  using assms
  by (auto simp: sql_update_def history_def Let_def intro!: table_extends_update table_ok_update
      split: option.splits)

lemma sql_read_only [simp]:
  "snd (sql_select_by_id E i now s) = s"
  "snd (sql_latest_by_user E uid now s) = s"
  "snd (sql_list_by_user E uid now s) = s"
  "snd (sql_storage E now s) = s"
  by (auto simp: sql_select_by_id_def sql_latest_by_user_def sql_list_by_user_def sql_storage_def
      split: option.splits list.splits)

lemma keeps_pg_exec:
  "keeps I (remote stmt) \<Longrightarrow> keeps I (pg_exec stmt)"
  by (auto simp: keeps_def pg_exec_def split: prod.splits sum.splits) (metis snd_conv)+

lemma row_ok_update [simp]:
  "st \<in> set upload_status_enum \<Longrightarrow> row_ok E a \<Longrightarrow>
     row_ok E (a\<lparr>UploadStatus := st, UpdatedAt := now\<rparr>)"
  "st \<in> set processing_status_enum \<Longrightarrow> row_ok E a \<Longrightarrow>
     row_ok E (a\<lparr>ProcessingStatus := st, UpdatedAt := now\<rparr>)"
  "row_ok E a \<Longrightarrow> row_ok E (a\<lparr>Thumbnails := keys, ProcessingStatus := ''completed'', UpdatedAt := now\<rparr>)"
  "row_ok E a \<Longrightarrow> row_ok E (a\<lparr>DeletedAt := d, UpdatedAt := now\<rparr>)"
  by (simp_all add: row_ok_def processing_status_enum_def)

lemma pg_keeps_history:
  "keeps (upheld (history E)) (pg_Create E n)"
  "keeps (upheld (history E)) (pg_GetByID E i)"
  "keeps (upheld (history E)) (pg_LatestByUser E uid)"
  "keeps (upheld (history E)) (pg_ListByUser E uid)"
  "keeps (upheld (history E)) (pg_SetUploadStatus E i st)"
  "keeps (upheld (history E)) (pg_SetProcessingStatus E i st)"
  "keeps (upheld (history E)) (pg_SetThumbnails E i keys)"
  "keeps (upheld (history E)) (pg_SoftDelete E i)"
  "keeps (upheld (history E)) (pg_StorageByUser E)"
proof -
  show "keeps (upheld (history E)) (pg_Create E n)"
    unfolding pg_Create_def by (intro keeps_map_result hist.keeps_remote history_insert)
  show "keeps (upheld (history E)) (pg_GetByID E i)"
    unfolding pg_GetByID_def by (intro keeps_map_result hist.keeps_remote) (simp add: history_refl)
  show "keeps (upheld (history E)) (pg_LatestByUser E uid)"
    unfolding pg_LatestByUser_def by (intro keeps_map_result hist.keeps_remote) (simp add: history_refl)
  show "keeps (upheld (history E)) (pg_ListByUser E uid)"
    unfolding pg_ListByUser_def by (intro keeps_map_result hist.keeps_remote) (simp add: history_refl)
  show "keeps (upheld (history E)) (pg_StorageByUser E)"
    using hist.keeps_remote [of E "sql_storage E"]
    by (simp add: pg_StorageByUser_def keeps_def history_refl split: prod.splits sum.splits)
       (metis snd_conv)
  show "keeps (upheld (history E)) (pg_SetUploadStatus E i st)"
    "keeps (upheld (history E)) (pg_SetProcessingStatus E i st)"
    "keeps (upheld (history E)) (pg_SetThumbnails E i keys)"
    "keeps (upheld (history E)) (pg_SoftDelete E i)"
    unfolding pg_SetUploadStatus_def pg_SetProcessingStatus_def pg_SetThumbnails_def pg_SoftDelete_def
    by (intro keeps_pg_exec hist.keeps_remote history_update; simp add: same_record_def)+
qed

subsection \<open>The methods on an undisturbed world\<close>

lemma row_of_update_where:
  assumes "distinct (map ID rs)" and "row_of rs i = Some x" and "\<And>a. ID (f a) = ID a"
  shows "row_of (update_where (\<lambda>a. ID a = i \<and> c a) f rs) =
    (row_of rs)(i \<mapsto> if c x then f x else x)"
proof
  fix j
  have "row_of (update_where (\<lambda>a. ID a = i \<and> c a) f rs) j =
      map_option (\<lambda>a. if ID a = i \<and> c a then f a else a) (row_of rs j)"
    using assms(3) by (simp add: row_of_def find_update_where)
  also have "\<dots> = ((row_of rs)(i \<mapsto> if c x then f x else x)) j"
  proof (cases "row_of rs j")
    case None
    with assms(2) show ?thesis by (cases "j = i") simp_all
  next
    case (Some y)
    then have "ID y = j" by (simp add: row_of_Some)
    with Some assms(2) show ?thesis by (cases "j = i") simp_all
  qed
  finally show "row_of (update_where (\<lambda>a. ID a = i \<and> c a) f rs) j =
      ((row_of rs)(i \<mapsto> if c x then f x else x)) j" .
qed

lemma filter_row_of:
  assumes "distinct (map ID rs)" and "row_of rs i = Some x"
  shows "filter (\<lambda>a. ID a = i \<and> c a) rs = (if c x then [x] else [])"
  using assms
proof (induction rs)
  case (Cons a rs)
  have "filter (\<lambda>a. ID a = i \<and> c a) rs = []" if "ID a = i"
  proof -
    have "\<forall>y \<in> set rs. ID y \<noteq> i"
      using Cons.prems(1) that by (metis distinct.simps(2) image_eqI list.map(2) list.set_map)
    then show ?thesis by (simp add: filter_empty_conv)
  qed
  with Cons show ?case by (auto simp: row_of_def split: if_splits)
qed (simp add: row_of_def)

text \<open>An UPDATE by id, faults included: the row has been updated, or an error was returned.\<close>

lemma pg_update_step:
  assumes good: "good_world E w" and row: "row_of (rows (sh w)) i = Some x" and ok: args_ok
    and run: "pg_exec (sql_update E i args_ok c upd) w = (r, w')"
    and upd: "\<And>now a. c a \<Longrightarrow> same_record a (upd now a)" "\<And>now a. ID (upd now a) = ID a"
      "\<And>now a. row_ok E a \<Longrightarrow> row_ok E (upd now a)"
  shows "good_world E w' \<and> (r = Inr () \<longrightarrow> c x) \<and>
    (\<exists>now. done_or_failed r (world_view b w)
      ((world_view b w)\<lparr>vRow := (row_of (rows (sh w)))(i \<mapsto> if c x then upd now x else x)\<rparr>)
      (world_view b w'))"
proof -
  note g = good_worldD [OF good]
  have uuid: "uuid_in E i = Some i"
    using g(3) row_of_Some [OF row] by (auto simp: table_ok_def list_all_iff row_ok_def)
  obtain rm where rm: "remote (sql_update E i args_ok c upd) w = (rm, w')"
    using run by (auto simp: pg_exec_def split: prod.splits sum.splits if_splits)
  have act: "sql_update E i args_ok c upd now (sh w) = (Inr (if c x then 1 else 0),
      (sh w)\<lparr>rows := update_where (\<lambda>a. ID a = i \<and> c a) (upd now) (rows (sh w))\<rparr>)" for now
    using uuid ok filter_row_of [OF g(4) row, of c] by (simp add: sql_update_def Let_def)
  obtain now where now: "good_world E w'" "next_id w' = next_id w" "observed w' = observed w"
    "rm = fst (sql_update E i args_ok c upd now (sh w)) \<and>
       sh w' = snd (sql_update E i args_ok c upd now (sh w)) \<or>
     (\<exists>e. rm = Inl (Net e)) \<and> sh w' \<in> {sh w, snd (sql_update E i args_ok c upd now (sh w))}"
    by (rule good_remote [OF good rm history_update]) (use upd in auto)
  note rows' = row_of_update_where [OF g(4) row upd(2), of c]
  from now(4) show ?thesis
  proof (elim disjE conjE exE)
    assume "rm = fst (sql_update E i args_ok c upd now (sh w))"
      "sh w' = snd (sql_update E i args_ok c upd now (sh w))"
    with run rm now(1,3) rows' row show ?thesis
      by (auto simp: pg_exec_def act world_view_def done_or_failed_def objects_def
          split: if_splits intro!: exI [of _ now])
  next
    fix e
    assume "rm = Inl (Net e)" "sh w' \<in> {sh w, snd (sql_update E i args_ok c upd now (sh w))}"
    with run rm now(1,3) rows' show ?thesis
      by (auto simp: pg_exec_def act world_view_def done_or_failed_def objects_def
          intro!: exI [of _ now])
  qed
qed

lemma scanAvatar_Inr [simp]: "scanAvatar row = Inr a \<longleftrightarrow> row = Inr a"
  by (auto simp: scanAvatar_def split: sum.splits)

lemma pg_GetByID_read:
  assumes "good_world E w" and "pg_GetByID E i w = (r, w')"
  obtains now row where "good_world E w'" "world_view b w' = world_view b w"
    "r = scanAvatar row" "row = fst (sql_select_by_id E i now (sh w)) \<or> (\<exists>e. row = Inl (Net e))"
proof -
  obtain row where "remote (sql_select_by_id E i) w = (row, w')" "r = scanAvatar row"
    using assms(2) by (auto simp: pg_GetByID_def split: prod.splits)
  with good_read [OF assms(1), of "sql_select_by_id E i" row w' b] that show ?thesis
    by (metis sql_read_only(1))
qed

interpretation pgrow: row_reader "good_world E" "world_view b" "pg_GetByID E" for E b
proof unfold_locales
  fix i w r w'
  assume "good_world E w" "pg_GetByID E i w = (r, w')"
  then show "good_world E w' \<and> world_view b w' = world_view b w"
    by (rule pg_GetByID_read [where b = b]) simp
next
  fix w i a w'
  assume good: "good_world E w" and get: "pg_GetByID E i w = (Inr a, w')"
  obtain now where "fst (sql_select_by_id E i now (sh w)) = Inr a"
    by (rule pg_GetByID_read [OF good get]) (metis scanAvatar_Inr Inl_Inr_False)
  then show "vRow (world_view b w) (ID a) = Some a \<and> live a"
    using good_worldD [OF good]
    by (auto simp: sql_select_by_id_def row_of_ID split: option.splits dest: find_SomeD)
next
  fix w i a w' x
  assume good: "good_world E w" and get: "pg_GetByID E i w = (Inr a, w')"
    and row: "vRow (world_view b w) i = Some x"
  obtain now where "fst (sql_select_by_id E i now (sh w)) = Inr a"
    by (rule pg_GetByID_read [OF good get]) (metis scanAvatar_Inr Inl_Inr_False)
  moreover have "uuid_in E i = Some i"
    using good_worldD(3) [OF good] row
    by (auto simp: table_ok_def list_all_iff row_ok_def dest!: row_of_Some)
  ultimately show "ID a = i"
    by (auto simp: sql_select_by_id_def split: option.splits dest: find_SomeD)
next
  fix w i e w' x
  assume good: "good_world E w" and get: "pg_GetByID E i w = (Inl e, w')"
    and nf: "errors_is e ErrNotFound" and row: "vRow (world_view b w) i = Some x"
  obtain now row where r: "Inl e = scanAvatar row"
    "row = fst (sql_select_by_id E i now (sh w)) \<or> (\<exists>e. row = Inl (Net e))"
    by (rule pg_GetByID_read [OF good get])
  have "uuid_in E i = Some i" and x: "x \<in> set (rows (sh w))" "ID x = i"
    using good_worldD(3) [OF good] row
    by (auto simp: table_ok_def list_all_iff row_ok_def dest!: row_of_Some)
  with r nf have "find (\<lambda>a. ID a = i \<and> live a) (scan_order E ''by id'' (rows (sh w))) = None"
    by (auto simp: scanAvatar_def sql_select_by_id_def split: sum.splits option.splits if_splits)
  with x show "\<not> live x"
    using good_worldD(1) [OF good] by (auto simp: find_None_iff)
next
  fix w i e w'
  assume good: "good_world E w" and get: "pg_GetByID E i w = (Inl e, w')"
  obtain now row where r: "Inl e = scanAvatar row"
    "row = fst (sql_select_by_id E i now (sh w)) \<or> (\<exists>e. row = Inl (Net e))"
    by (rule pg_GetByID_read [OF good get])
  then show "\<not> errors_is e ErrNotOwner"
    by (auto simp: scanAvatar_def sql_select_by_id_def bad_literal_def
        split: sum.splits option.splits if_splits)
qed

subsection \<open>Listing a user's avatars\<close>

lemma user_rows_mset:
  "env_ok E \<Longrightarrow> mset (user_rows E stmt uid rs) = mset (filter (\<lambda>a. UserID a = uid \<and> live a) rs)"
  by (simp add: user_rows_def env_ok_def)

lemma user_rows_newest_first:
  "sorted_wrt (\<lambda>a b. CreatedAt b \<le> CreatedAt a) (user_rows E stmt uid rs)"
proof -
  have "sorted (map (\<lambda>a. - CreatedAt a) (user_rows E stmt uid rs))"
    by (simp add: user_rows_def)
  then show ?thesis by (simp add: sorted_wrt_map)
qed

lemma pg_ListByUser_rows:
  assumes "pg_ListByUser E uid w = (Inr as, w')"
  shows "as = user_rows E ''list'' uid (rows (sh w'))"
proof -
  obtain r where run: "remote (sql_list_by_user E uid) w = (r, w')" and r: "r = Inr as"
    using assms by (auto simp: pg_ListByUser_def split: prod.splits)
  obtain now where "sql_list_by_user E uid now (sh w') = (Inr as, sh w')"
    by (rule remote_read_state [OF sql_read_only(3) run r])
  then show ?thesis by (auto simp: sql_list_by_user_def split: if_splits)
qed

text \<open>
  C21: ListByUser answers with exactly the live rows of the user (each as often as the
  table holds it), newest first, whatever faults and concurrent changes came before the
  query ran.
\<close>

theorem list_by_user_exact:
  assumes "env_ok E" and "pg_ListByUser E uid w = (Inr as, w')"
  shows "mset as = mset (filter (\<lambda>a. UserID a = uid \<and> live a) (rows (sh w'))) \<and>
    sorted_wrt (\<lambda>a b. CreatedAt b \<le> CreatedAt a) as"
  using pg_ListByUser_rows [OF assms(2)] assms(1)
  by (simp add: user_rows_mset user_rows_newest_first)

lemma user_rows_Nil: "env_ok E \<Longrightarrow> user_rows E stmt uid rs = [] \<longleftrightarrow>
    (\<forall>a \<in> set rs. \<not> (UserID a = uid \<and> live a))"
  by (auto simp: user_rows_def filter_empty_conv simp flip: set_empty)

lemma user_rows_Cons:
  assumes "env_ok E" and "user_rows E stmt uid rs = a # as"
  shows "a \<in> set rs \<and> UserID a = uid \<and> live a \<and>
    (\<forall>x \<in> set rs. UserID x = uid \<and> live x \<longrightarrow> CreatedAt x \<le> CreatedAt a)"
proof -
  have "set (a # as) = {x \<in> set rs. UserID x = uid \<and> live x}"
    using assms by (auto simp: user_rows_def simp flip: assms(2))
  moreover have "\<forall>x \<in> set as. CreatedAt x \<le> CreatedAt a"
    using user_rows_newest_first [of E stmt uid rs] assms(2) by simp
  ultimately show ?thesis by auto
qed

text \<open>
  LatestByUser answers with a live row of the user that no live row of the user is
  newer than, and with ErrNotFound only where the user has no live row; both are about
  the table at the moment of the query, whatever ran before or concurrently.
\<close>

theorem latest_by_user_newest:
  assumes "env_ok E" and "pg_LatestByUser E uid w = (r, w')"
  shows "case r of
      Inr a \<Rightarrow> a \<in> set (rows (sh w')) \<and> UserID a = uid \<and> live a \<and>
        (\<forall>x \<in> set (rows (sh w')). UserID x = uid \<and> live x \<longrightarrow> CreatedAt x \<le> CreatedAt a)
    | Inl e \<Rightarrow> errors_is e ErrNotFound \<longrightarrow>
        (\<forall>x \<in> set (rows (sh w')). \<not> (UserID x = uid \<and> live x))"
proof -
  obtain out w1 where t: "take_turn w = (out, w1)" by fastforce
  have w1: "w1\<lparr>sh := sh w1\<rparr> = w1" by simp
  show ?thesis
    using assms t w1
    by (cases out; cases "text_in E uid"; cases "user_rows E ''latest'' uid (rows (sh w1))")
       (auto simp: pg_LatestByUser_def remote_def sql_latest_by_user_def scanAvatar_def
          user_rows_Nil dest: user_rows_Cons [OF assms(1)])
qed

subsection \<open>Soft deletion\<close>

lemma pg_SoftDelete_step:
  assumes "good_world E w" and "row_of (rows (sh w)) i = Some x" and "pg_SoftDelete E i w = (r, w')"
  shows "good_world E w' \<and> (r = Inr () \<longrightarrow> live x) \<and>
    (\<exists>now. done_or_failed r (world_view b w)
      ((world_view b w)\<lparr>vRow := (row_of (rows (sh w)))
         (i \<mapsto> if live x then x\<lparr>DeletedAt := Some now, UpdatedAt := now\<rparr> else x)\<rparr>)
      (world_view b w'))"
  using pg_update_step [OF assms(1,2) TrueI assms(3) [unfolded pg_SoftDelete_def], of b]
  by (simp add: same_record_def)

lemma uuid_of_row:
  "good_world E w \<Longrightarrow> row_of (rows (sh w)) i = Some x \<Longrightarrow> uuid_in E i = Some i"
  by (auto simp: good_world_def table_ok_def list_all_iff row_ok_def dest!: row_of_Some)

lemma row_of_unique:
  assumes "good_world E w" and "row_of (rows (sh w)) i = Some x" and "a \<in> set (rows (sh w))" "ID a = i"
  shows "a = x"
  using row_of_ID [OF good_worldD(4) [OF assms(1)] assms(3)] assms(2,4) by simp

text \<open>What the repository answers about a row that is deleted: not found, or a fault.\<close>

lemma pg_GetByID_deleted:
  assumes good: "good_world E w" and row: "row_of (rows (sh w)) i = Some x" and dead: "\<not> live x"
    and literal: "uuid_in E j = Some i" and get: "pg_GetByID E j w = (r, w')"
  shows "r = Inl ErrNotFound \<or> (\<exists>e. r = Inl (Wrapf ''scan avatar'' (Net e)))"
proof -
  obtain now q where q: "r = scanAvatar q"
    "q = fst (sql_select_by_id E j now (sh w)) \<or> (\<exists>e. q = Inl (Net e))"
    by (rule pg_GetByID_read [OF good get])
  have "\<not> (\<exists>a \<in> set (rows (sh w)). ID a = i \<and> live a)"
    using row_of_unique [OF good row] dead by blast
  then have "find (\<lambda>a. ID a = i \<and> live a) (scan_order E ''by id'' (rows (sh w))) = None"
    using good_worldD(1) [OF good] by (auto simp: find_None_iff)
  with q show ?thesis
    by (auto simp: scanAvatar_def sql_select_by_id_def literal)
qed

lemma pg_ListByUser_deleted:
  assumes good: "good_world E w" and row: "row_of (rows (sh w)) i = Some x" and dead: "\<not> live x"
    and ls: "pg_ListByUser E uid w = (Inr as, w')"
  shows "i \<notin> ID ` set as"
proof -
  obtain q where q: "remote (sql_list_by_user E uid) w = (q, w')"
    using ls by (auto simp: pg_ListByUser_def split: prod.splits)
  have rd: "world_view [] w' = world_view [] w" and good': "good_world E w'"
    using good_read [OF good q sql_read_only(3), of "[]"] by auto
  have "row_of (rows (sh w')) i = Some x"
    using arg_cong [OF rd, of vRow] row by simp
  then have "\<forall>a \<in> set (rows (sh w')). ID a = i \<longrightarrow> \<not> live a"
    using row_of_unique [OF good'] dead by blast
  moreover have "set as \<subseteq> {a \<in> set (rows (sh w')). live a}"
    using good_worldD(1) [OF good] unfolding pg_ListByUser_rows [OF ls]
    by (auto simp: user_rows_def)
  ultimately show ?thesis by auto
qed

lemma pg_SoftDelete_deleted:
  assumes good: "good_world E w" and row: "row_of (rows (sh w)) i = Some x" and dead: "\<not> live x"
    and del: "pg_SoftDelete E i w = (r, w')"
  shows "r = Inl ErrNotFound \<or> (\<exists>e. r = Inl (Wrapf ''update avatar'' (Net e)))"
proof -
  let ?act = "sql_update E i True live (\<lambda>now a. a\<lparr>DeletedAt := Some now, UpdatedAt := now\<rparr>)"
  obtain rm where rm: "remote ?act w = (rm, w')"
    using del by (auto simp: pg_SoftDelete_def pg_exec_def split: prod.splits sum.splits if_splits)
  have "fst (?act now (sh w)) = Inr 0" for now
    using filter_row_of [OF good_worldD(4) [OF good] row, of live] dead uuid_of_row [OF good row]
    by (simp add: sql_update_def Let_def)
  moreover have "\<exists>now. rm = fst (?act now (sh w)) \<or> (\<exists>e. rm = Inl (Net e))"
    by (rule good_remote [OF good rm history_update]) (auto simp: same_record_def)
  ultimately show ?thesis
    using del rm by (auto simp: pg_SoftDelete_def pg_exec_def)
qed

text \<open>
  soft deletion hides. After a SoftDelete that returned no error, GetByID answers
  ErrNotFound, unless the call itself fails; the list of its user does not contain it; a
  second SoftDelete answers ErrNotFound, unless the call fails; every other row is as it
  was before.
\<close>

theorem soft_delete_hides:
  assumes good: "good_world E w" and row: "row_of (rows (sh w)) i = Some x"
    and del: "pg_SoftDelete E i w = (Inr (), w1)"
  shows "(fst (pg_GetByID E i w1) = Inl ErrNotFound \<or>
     (\<exists>e. fst (pg_GetByID E i w1) = Inl (Wrapf ''scan avatar'' (Net e)))) \<and>
    (\<forall>as w2. pg_ListByUser E (UserID x) w1 = (Inr as, w2) \<longrightarrow> i \<notin> ID ` set as) \<and>
    (fst (pg_SoftDelete E i w1) = Inl ErrNotFound \<or>
     (\<exists>e. fst (pg_SoftDelete E i w1) = Inl (Wrapf ''update avatar'' (Net e)))) \<and>
    (\<forall>j. j \<noteq> i \<longrightarrow> row_of (rows (sh w1)) j = row_of (rows (sh w)) j)"
proof -
  obtain now where good1: "good_world E w1" and
    "world_view [] w1 = (world_view [] w)\<lparr>vRow := (row_of (rows (sh w)))
       (i \<mapsto> x\<lparr>DeletedAt := Some now, UpdatedAt := now\<rparr>)\<rparr>"
    using pg_SoftDelete_step [OF good row del, of "[]"] by auto
  then have rows1: "row_of (rows (sh w1)) = (row_of (rows (sh w)))
       (i \<mapsto> x\<lparr>DeletedAt := Some now, UpdatedAt := now\<rparr>)"
    by (auto dest: arg_cong [of _ _ vRow])
  let ?y = "x\<lparr>DeletedAt := Some now, UpdatedAt := now\<rparr>"
  have row1: "row_of (rows (sh w1)) i = Some ?y" and dead: "\<not> live ?y"
    using rows1 by (simp_all add: live_def)
  note get = pg_GetByID_deleted [OF good1 row1 dead uuid_of_row [OF good1 row1] surjective_pairing]
    and again = pg_SoftDelete_deleted [OF good1 row1 dead surjective_pairing]
    and listed = pg_ListByUser_deleted [OF good1 row1 dead]
  then show ?thesis using rows1 by auto
qed

subsection \<open>Steps the clients use\<close>

lemma pg_Create_step:
  assumes "good_world E w" and "pg_Create E n w = (rc, w')"
  shows "good_world E w' \<and> ((\<exists>e. rc = Inl e) \<and> world_view b w' = world_view b w \<or>
    (\<exists>a. (\<exists>now. new_row E now n = Some a) \<and> vRow (world_view b w) (ID a) = None \<and>
      (\<forall>a'. rc = Inr a' \<longrightarrow> a' = a) \<and>
      done_or_failed rc (world_view b w)
        ((world_view b w)\<lparr>vRow := (vRow (world_view b w))(ID a \<mapsto> a)\<rparr>) (world_view b w')))"
proof -
  obtain q where q: "remote (sql_insert E n) w = (q, w')" and rc: "rc = wrap_err ''insert avatar'' (scanAvatar q)"
    using assms(2) by (auto simp: pg_Create_def split: prod.splits)
  obtain now where w': "good_world E w'" "observed w' = observed w" and
    d: "q = fst (sql_insert E n now (sh w)) \<and> sh w' = snd (sql_insert E n now (sh w)) \<or>
       (\<exists>e. q = Inl (Net e)) \<and> sh w' \<in> {sh w, snd (sql_insert E n now (sh w))}"
    by (rule good_remote [OF assms(1) q history_insert])
  have old: "world_view b w' = world_view b w" if "sh w' = sh w"
    using that w'(2) by (simp add: world_view_def)
  have err: "\<exists>e. rc = Inl e" if "q = Inl e" for e
    using that rc by (auto simp: scanAvatar_def)
  show ?thesis
  proof (cases "\<exists>a. new_row E now n = Some a \<and> ID a \<notin> set (map ID (rows (sh w)))")
    case False
    then have "\<exists>e. sql_insert E n now (sh w) = (Inl e, sh w)"
      by (auto simp: sql_insert_def split: option.splits)
    then obtain e where "sql_insert E n now (sh w) = (Inl e, sh w)" ..
    with d old err w'(1) show ?thesis by auto
  next
    case True
    then obtain a where a: "new_row E now n = Some a" "ID a \<notin> set (map ID (rows (sh w)))" by blast
    then have none: "row_of (rows (sh w)) (ID a) = None" by (simp only: row_of_None not_False_eq_True)
    have act: "sql_insert E n now (sh w) = (Inr a, (sh w)\<lparr>rows := rows (sh w) @ [a]\<rparr>)"
      using a by (simp add: sql_insert_def)
    have new: "world_view b w' = (world_view b w)\<lparr>vRow := (vRow (world_view b w))(ID a \<mapsto> a)\<rparr>"
      if "sh w' = snd (sql_insert E n now (sh w))"
      using that w'(2) none
      by (auto simp: act world_view_def objects_def row_of_append fun_eq_iff split: option.splits)
    have "(\<forall>a'. rc = Inr a' \<longrightarrow> a' = a) \<and> done_or_failed rc (world_view b w)
        ((world_view b w)\<lparr>vRow := (vRow (world_view b w))(ID a \<mapsto> a)\<rparr>) (world_view b w')"
      using d
    proof (elim disjE conjE exE)
      assume "q = fst (sql_insert E n now (sh w))" "sh w' = snd (sql_insert E n now (sh w))"
      with new rc show ?thesis by (simp add: act scanAvatar_def)
    next
      fix e assume "q = Inl (Net e)" "sh w' \<in> {sh w, snd (sql_insert E n now (sh w))}"
      with new old err rc show ?thesis by (auto simp: scanAvatar_def)
    qed
    with a none w'(1) show ?thesis by auto
  qed
qed

lemma pg_LatestByUser_step:
  assumes "good_world E w" and "pg_LatestByUser E uid w = (rl, w')"
  shows "good_world E w' \<and> world_view b w' = world_view b w \<and>
    (\<forall>a. rl = Inr a \<longrightarrow> vRow (world_view b w) (ID a) = Some a \<and> live a \<and> UserID a = uid) \<and>
    (\<forall>e. rl = Inl e \<longrightarrow> \<not> errors_is e ErrNotOwner)"
proof -
  obtain q where q: "remote (sql_latest_by_user E uid) w = (q, w')" and rl: "rl = scanAvatar q"
    using assms(2) by (auto simp: pg_LatestByUser_def split: prod.splits)
  obtain now where 1: "good_world E w'" "world_view b w' = world_view b w"
    "q = fst (sql_latest_by_user E uid now (sh w)) \<or> (\<exists>e. q = Inl (Net e))"
    by (rule good_read [OF assms(1) q sql_read_only(2)])
  note g = good_worldD [OF assms(1)]
  have "vRow (world_view b w) (ID a) = Some a \<and> live a \<and> UserID a = uid" if "rl = Inr a" for a
    using that rl 1(3) user_rows_Cons [OF g(1)] row_of_ID [OF g(4)]
    by (auto simp: sql_latest_by_user_def split: if_splits list.splits)
  moreover have "\<not> errors_is e ErrNotOwner" if "rl = Inl e" for e
    using that rl 1(3) by (auto simp: scanAvatar_def sql_latest_by_user_def split: if_splits list.splits)
  ultimately show ?thesis using 1 by blast
qed

lemma pg_exec_update_error:
  assumes "pg_exec (sql_update E i ok c upd) w = (Inl e, w')"
  shows "\<not> errors_is e ErrNotOwner"
  using assms
  by (auto simp: pg_exec_def remote_def sql_update_def bad_literal_def Let_def
      split: prod.splits sum.splits if_splits outcome.splits option.splits)

subsection \<open>Storage totals\<close>

lemma scan_usage_Inr: "scan_usage us = Inr m \<Longrightarrow> m = us \<and> (\<forall>(u, n) \<in> set us. int8_ok n)"
  by (induction us arbitrary: m rule: scan_usage.induct) (auto split: if_splits sum.splits)

lemma map_of_totals: "map_of (map (\<lambda>u. (u, f u)) us) u = (if u \<in> set us then Some (f u) else None)"
  by (induction us) auto

lemma sum_totals:
  assumes "finite U" and "(\<lambda>a. UserID a) ` {a \<in> set rs. live a} \<subseteq> U"
  shows "(\<Sum>u \<in> U. user_total rs u) = sum_list (map SizeBytes (filter live rs))"
  using assms(2)
proof (induction rs)
  case (Cons a rs)
  have "(\<Sum>u \<in> U. user_total (a # rs) u) =
      (\<Sum>u \<in> U. user_total rs u + (if live a \<and> UserID a = u then SizeBytes a else 0))"
    by (intro sum.cong) (auto simp: user_total_def)
  also have "\<dots> = sum_list (map SizeBytes (filter live (a # rs)))"
    using Cons assms(1) by (auto simp: sum.distrib sum.delta image_subset_iff)
  finally show ?case .
qed (simp add: user_total_def)

lemma pg_StorageByUser_rows:
  assumes "pg_StorageByUser E w = (Inr m, w')"
  shows "m = map (\<lambda>uid. (uid, user_total (rows (sh w')) uid))
      (live_users (scan_order E ''storage'' (rows (sh w'))))"
proof -
  obtain rs where run: "remote (sql_storage E) w = (Inr rs, w')" and m: "scan_usage rs = Inr m"
    using assms by (auto simp: pg_StorageByUser_def split: prod.splits sum.splits)
  obtain now where "sql_storage E now (sh w') = (Inr rs, sh w')"
    by (rule remote_read_state [OF sql_read_only(4) run refl])
  with scan_usage_Inr [OF m] show ?thesis by (simp add: sql_storage_def)
qed

text \<open>
  StorageByUser answers with one entry per user who has a live avatar and for no other
  user; the entry is the sum of the sizes of the user's live avatars, and all entries
  together account for every live byte of the table at the moment of the query.
\<close>

theorem storage_by_user_exact:
  assumes "env_ok E" and "pg_StorageByUser E w = (Inr m, w')"
  shows "distinct_keys m \<and>
    map_of m uid = (if \<exists>a. a \<in> set (rows (sh w')) \<and> live a \<and> UserID a = uid
      then Some (user_total (rows (sh w')) uid) else None) \<and>
    sum_list (map snd m) = sum_list (map SizeBytes (filter live (rows (sh w'))))"
proof -
  let ?rs = "rows (sh w')" and ?us = "live_users (scan_order E ''storage'' (rows (sh w')))"
  note m = pg_StorageByUser_rows [OF assms(2)]
  have us: "set ?us = UserID ` {a \<in> set ?rs. live a}" and d: "distinct ?us"
    using assms(1) by (auto simp: live_users_def)
  have "sum_list (map snd m) = (\<Sum>u \<in> set ?us. user_total ?rs u)"
    using d by (simp add: m o_def sum_list_distinct_conv_sum_set)
  also have "\<dots> = sum_list (map SizeBytes (filter live ?rs))"
    by (intro sum_totals) (simp_all add: us)
  finally show ?thesis
    using d us by (auto simp: m o_def map_of_totals)
qed

subsection \<open>What the repository hands out\<close>

lemma keeps_table:
  assumes "keeps (upheld (history E)) m" and "env_ok E" and "others_keep (history E) w"
    and "table_ok E (rows (sh w))" and "m w = (r, w')"
  shows "table_ok E (rows (sh w'))"
  using assms by (auto simp: keeps_def upheld_def history_def dest!: spec [of _ w])

lemma table_ok_row: "table_ok E rs \<Longrightarrow> a \<in> set rs \<Longrightarrow> row_ok E a"
  by (simp add: table_ok_def list_all_iff)

lemma pg_GetByID_row:
  assumes "env_ok E" and "pg_GetByID E i w = (Inr a, w')"
  shows "a \<in> set (rows (sh w')) \<and> live a \<and> uuid_in E i = Some (ID a)"
proof -
  obtain q where q: "remote (sql_select_by_id E i) w = (q, w')" "q = Inr a"
    using assms(2) by (auto simp: pg_GetByID_def split: prod.splits)
  obtain now where "sql_select_by_id E i now (sh w') = (Inr a, sh w')"
    by (rule remote_read_state [OF sql_read_only(1) q])
  then show ?thesis
    using assms(1) by (auto simp: sql_select_by_id_def split: option.splits dest!: find_SomeD)
qed

lemma pg_LatestByUser_row:
  assumes "env_ok E" and "pg_LatestByUser E uid w = (Inr a, w')"
  shows "a \<in> set (rows (sh w')) \<and> live a \<and> UserID a = uid \<and>
    (\<forall>x \<in> set (rows (sh w')). UserID x = uid \<and> live x \<longrightarrow> CreatedAt x \<le> CreatedAt a)"
proof -
  obtain q where q: "remote (sql_latest_by_user E uid) w = (q, w')" "q = Inr a"
    using assms(2) by (auto simp: pg_LatestByUser_def split: prod.splits)
  obtain now where "sql_latest_by_user E uid now (sh w') = (Inr a, sh w')"
    by (rule remote_read_state [OF sql_read_only(2) q])
  then show ?thesis
    using user_rows_Cons [OF assms(1)] by (auto simp: sql_latest_by_user_def split: if_splits list.splits)
qed

lemma pg_ListByUser_in:
  assumes "env_ok E" and "pg_ListByUser E uid w = (Inr as, w')" and "a \<in> set as"
  shows "a \<in> set (rows (sh w')) \<and> live a \<and> UserID a = uid"
  using assms(3) unfolding pg_ListByUser_rows [OF assms(2)] by (simp add: user_rows_def assms(1))

lemma pg_Create_row:
  assumes "pg_Create E n w = (Inr a, w')"
  shows "a \<in> set (rows (sh w'))"
proof -
  obtain q where q: "remote (sql_insert E n) w = (Inr q, w')" and r: "q = a"
    using assms by (auto simp: pg_Create_def scanAvatar_def split: prod.splits sum.splits if_splits)
  obtain now s where ins: "sql_insert E n now s = (Inr q, sh w')"
    by (rule remote_answer [OF q])
  then have "sh w' = s\<lparr>rows := rows s @ [q]\<rparr>"
    by (auto simp: sql_insert_def split: option.splits if_splits)
  then show ?thesis using r by simp
qed


subsection \<open>Concrete runs\<close>


theorem list_by_user_exact_witness:
  "\<exists>as w'. pg_ListByUser sample_env ''ann'' (sample_world sample_rows Map.empty []) = (Inr as, w') \<and>
     map ID as = [''a2'', ''a1''] \<and>
     mset as = mset (filter (\<lambda>a. UserID a = ''ann'' \<and> live a) (rows (sh w')))"
proof -
  obtain as w' where run: "pg_ListByUser sample_env ''ann'' (sample_world sample_rows Map.empty []) = (Inr as, w')"
    and as: "map ID as = [''a2'', ''a1'']"
    by (simp add: pg_ListByUser_def remote_answered sql_list_by_user_def user_rows_def sample_env_def
        sample_rows_def)
  have "mset as = mset (filter (\<lambda>a. UserID a = ''ann'' \<and> live a) (rows (sh w')))"
    using list_by_user_exact [OF sample_env_ok run] by (rule conjunct1)
  with run as show ?thesis by (intro exI conjI)
qed

theorem latest_by_user_newest_witness:
  "\<exists>a w'. pg_LatestByUser sample_env ''ann'' (sample_world sample_rows Map.empty []) = (Inr a, w') \<and>
     ID a = ''a2'' \<and> (\<forall>x \<in> set (rows (sh w')). UserID x = ''ann'' \<and> live x \<longrightarrow> CreatedAt x \<le> CreatedAt a)"
proof -
  obtain a w' where run: "pg_LatestByUser sample_env ''ann'' (sample_world sample_rows Map.empty []) = (Inr a, w')"
    and a: "ID a = ''a2''"
    by (simp add: pg_LatestByUser_def remote_answered sql_latest_by_user_def user_rows_def sample_env_def
        sample_rows_def)
  with latest_by_user_newest [OF sample_env_ok run] show ?thesis by auto
qed

theorem storage_by_user_exact_witness:
  "\<exists>m w'. pg_StorageByUser sample_env (sample_world sample_rows Map.empty []) = (Inr m, w') \<and>
     map_of m ''ann'' = Some 8 \<and> sum_list (map snd m) = 8"
proof -
  obtain m w' where run: "pg_StorageByUser sample_env (sample_world sample_rows Map.empty []) = (Inr m, w')"
    and rs: "rows (sh w') = sample_rows"
    by (simp add: pg_StorageByUser_def remote_answered sql_storage_def live_users_def sample_env_def
        sample_rows_def user_total_def int8_ok_def sample_row_def live_def)
  have some: "\<exists>a. a \<in> set (rows (sh w')) \<and> live a \<and> UserID a = ''ann''"
    by (intro exI [of _ "sample_row ''a1'' 3 None"]) (simp add: rs sample_rows_def)
  have eight: "user_total sample_rows ''ann'' = 8" "sum_list (map SizeBytes (filter live sample_rows)) = 8"
    by (simp_all add: user_total_def sample_rows_def sample_row_def live_def)
  have "map_of m ''ann'' = Some 8" "sum_list (map snd m) = 8"
    using storage_by_user_exact [OF sample_env_ok run, of "''ann''"] some
    by (simp_all only: rs eight if_True simp_thms)
  with run show ?thesis by (intro exI conjI)
qed

theorem soft_delete_hides_witness:
  "\<exists>w1. pg_SoftDelete sample_env ''a1'' (sample_world sample_rows Map.empty []) = (Inr (), w1) \<and>
     (fst (pg_GetByID sample_env ''a1'' w1) = Inl ErrNotFound \<or>
       (\<exists>e. fst (pg_GetByID sample_env ''a1'' w1) = Inl (Wrapf ''scan avatar'' (Net e)))) \<and>
     row_of (rows (sh w1)) ''a2'' = Some (sample_row ''a2'' 9 None)"
proof -
  let ?w = "sample_world sample_rows Map.empty []"
  have row: "row_of (rows (sh ?w)) ''a1'' = Some (sample_row ''a1'' 3 None)"
    and other: "row_of (rows (sh ?w)) ''a2'' = Some (sample_row ''a2'' 9 None)"
    by (simp_all add: row_of_def sample_rows_def)
  obtain w1 where del: "pg_SoftDelete sample_env ''a1'' ?w = (Inr (), w1)"
    by (simp add: pg_SoftDelete_def pg_exec_def remote_answered sql_update_def sample_env_def
        sample_rows_def Let_def)
  show ?thesis
    using soft_delete_hides [OF good_sample_world [OF table_ok_sample_rows] row del] del other by auto
qed

end
