(* ===== verification/S3_Store.thy ===== *)
theory S3_Store
  imports History
begin

section \<open>The object store (internal/storage/s3)\<close>

text \<open>
  \<^verbatim>\<open>s3.go\<close>: a bucket bound to a client, with the mapping of the storage errors to the
  domain's \<open>ErrNotFound\<close>. The minio client is library code: a record of its five
  operations, a parameter of every method. \<open>world_minio\<close> is the client of the world of
  theory Environment, used by the theorems that follow objects across components.
\<close>

subsection \<open>The client\<close>

record 'w minio_object =
  oStat :: "('w, unit) io"
  oRead :: "'w reader"

record 'w minio_client =
  mBucketExists :: "string \<Rightarrow> ('w, bool) io"
  mMakeBucket :: "string \<Rightarrow> ('w, unit) io"
  mPutObject :: "string \<Rightarrow> string \<Rightarrow> string \<Rightarrow> bytes \<Rightarrow> int \<Rightarrow> ('w, unit) io"
  mGetObject :: "string \<Rightarrow> string \<Rightarrow> ('w, 'w minio_object) io"
  mRemoveObject :: "string \<Rightarrow> string \<Rightarrow> ('w, unit) io"

record s3_Config =
  cfgEndpoint :: string
  cfgAccessKey :: string
  cfgSecretKey :: string
  cfgBucket :: string
  cfgUseSSL :: bool

record 'w Store =
  s3client :: "'w minio_client"
  s3bucket :: string

subsection \<open>The methods\<close>

definition s3_New ::
  "(string \<Rightarrow> string \<Rightarrow> string \<Rightarrow> bool \<Rightarrow> 'w minio_client res) \<Rightarrow> s3_Config \<Rightarrow> 'w Store res" where
  "s3_New minio_New cfg =
     (if cfgEndpoint cfg = [] then Inl (NewError ''s3: endpoint is required'')
      else if cfgAccessKey cfg = [] \<or> cfgSecretKey cfg = []
        then Inl (NewError ''s3: access key and secret key are required'')
      else if cfgBucket cfg = [] then Inl (NewError ''s3: bucket is required'')
      else case minio_New (cfgEndpoint cfg) (cfgAccessKey cfg) (cfgSecretKey cfg) (cfgUseSSL cfg) of
             Inl e \<Rightarrow> Inl (Wrapf ''create s3 client'' e)
           | Inr c \<Rightarrow> Inr \<lparr>s3client = c, s3bucket = cfgBucket cfg\<rparr>)"

text \<open>\<^verbatim>\<open>errors.As\<close> with a \<^verbatim>\<open>minio.ErrorResponse\<close> target: the first one in the chain.\<close>

fun errors_as_s3 :: "go_error \<Rightarrow> string option" where
  "errors_as_s3 (S3Response code) = Some code"
| "errors_as_s3 (Wrapf _ e) = errors_as_s3 e"
| "errors_as_s3 _ = None"

definition isNoSuchKey :: "go_error \<Rightarrow> bool" where
  "isNoSuchKey e \<longleftrightarrow> errors_as_s3 e = Some ''NoSuchKey''"

definition s3_EnsureBucket :: "'w Store \<Rightarrow> ('w, unit) io" where
  "s3_EnsureBucket s w = (case mBucketExists (s3client s) (s3bucket s) w of
     (Inl e, w1) \<Rightarrow> (Inl (Wrapf ''check bucket'' e), w1)
   | (Inr True, w1) \<Rightarrow> (Inr (), w1)
   | (Inr False, w1) \<Rightarrow>
       (case mMakeBucket (s3client s) (s3bucket s) w1 of
          (Inr _, w2) \<Rightarrow> (Inr (), w2)
        | (Inl e, w2) \<Rightarrow>
            (case mBucketExists (s3client s) (s3bucket s) w2 of
               (Inr True, w3) \<Rightarrow> (Inr (), w3)
             | (_, w3) \<Rightarrow> (Inl (Wrapf ''create bucket'' e), w3))))"

definition s3_Ping :: "'w Store \<Rightarrow> ('w, unit) io" where
  "s3_Ping s w = (case mBucketExists (s3client s) (s3bucket s) w of
     (Inl e, w1) \<Rightarrow> (Inl (Wrapf ''ping s3'' e), w1)
   | (Inr _, w1) \<Rightarrow> (Inr (), w1))"

definition s3_Put :: "'w Store \<Rightarrow> string \<Rightarrow> string \<Rightarrow> bytes \<Rightarrow> int \<Rightarrow> ('w, unit) io" where
  "s3_Put s k contentType r sz w =
     (case mPutObject (s3client s) (s3bucket s) k contentType r sz w of
        (Inl e, w1) \<Rightarrow> (Inl (Wrapf (''put '' @ k) e), w1)
      | (Inr _, w1) \<Rightarrow> (Inr (), w1))"

definition s3_Get :: "'w Store \<Rightarrow> string \<Rightarrow> ('w, 'w reader) io" where
  "s3_Get s k w = (case mGetObject (s3client s) (s3bucket s) k w of
     (Inl e, w1) \<Rightarrow> (Inl (Wrapf (''get '' @ k) e), w1)
   | (Inr obj, w1) \<Rightarrow>
       (case oStat obj w1 of
          (Inl statErr, w2) \<Rightarrow>
            if isNoSuchKey statErr then (Inl ErrNotFound, w2)
            else (Inl (Wrapf (''stat '' @ k) statErr), w2)
        | (Inr _, w2) \<Rightarrow> (Inr (oRead obj), w2)))"

definition s3_Delete :: "'w Store \<Rightarrow> string \<Rightarrow> ('w, unit) io" where
  "s3_Delete s k w = (case mRemoveObject (s3client s) (s3bucket s) k w of
     (Inl e, w1) \<Rightarrow> if isNoSuchKey e then (Inr (), w1) else (Inl (Wrapf (''delete '' @ k) e), w1)
   | (Inr _, w1) \<Rightarrow> (Inr (), w1))"

subsection \<open>The bucket service of the world\<close>

text \<open>
  What S3 answers: the existence of a bucket, making one that is not there, storing an
  object under a key (a body shorter than the announced size is refused, a longer one is
  cut at it), removing a key whether it is there or not, and the body of an object.
  Opening an object costs no call; its \<^verbatim>\<open>Stat\<close> is the first.
\<close>

definition no_bucket :: go_error where
  "no_bucket = S3Response ''NoSuchBucket''"

definition act_exists :: "string \<Rightarrow> int \<Rightarrow> shared \<Rightarrow> bool res \<times> shared" where
  "act_exists b now s = (Inr (buckets s b \<noteq> None), s)"

definition act_make :: "string \<Rightarrow> int \<Rightarrow> shared \<Rightarrow> unit res \<times> shared" where
  "act_make b now s = (case buckets s b of
     None \<Rightarrow> (Inr (), s\<lparr>buckets := (buckets s)(b \<mapsto> Map.empty)\<rparr>)
   | Some _ \<Rightarrow> (Inl (S3Response ''BucketAlreadyOwnedByYou''), s))"

definition act_put :: "string \<Rightarrow> string \<Rightarrow> string \<Rightarrow> bytes \<Rightarrow> int \<Rightarrow> int \<Rightarrow> shared \<Rightarrow> unit res \<times> shared" where
  "act_put b k ct d n now s = (case buckets s b of
     None \<Rightarrow> (Inl no_bucket, s)
   | Some m \<Rightarrow>
       if int (length d) < n then (Inl (S3Response ''IncompleteBody''), s)
       else (Inr (), s\<lparr>buckets := (buckets s)
         (b \<mapsto> m(k \<mapsto> \<lparr>oType = ct, oData = (if 0 \<le> n then take (nat n) d else d)\<rparr>))\<rparr>))"

definition act_read :: "string \<Rightarrow> string \<Rightarrow> int \<Rightarrow> shared \<Rightarrow> bytes res \<times> shared" where
  "act_read b k now s = (case buckets s b of
     None \<Rightarrow> (Inl no_bucket, s)
   | Some m \<Rightarrow> (case m k of
       None \<Rightarrow> (Inl (S3Response ''NoSuchKey''), s)
     | Some x \<Rightarrow> (Inr (oData x), s)))"

definition act_remove :: "string \<Rightarrow> string \<Rightarrow> int \<Rightarrow> shared \<Rightarrow> unit res \<times> shared" where
  "act_remove b k now s = (case buckets s b of
     None \<Rightarrow> (Inl no_bucket, s)
   | Some m \<Rightarrow> (Inr (), s\<lparr>buckets := (buckets s)(b \<mapsto> m(k := None))\<rparr>))"

definition world_object :: "string \<Rightarrow> string \<Rightarrow> world minio_object" where
  "world_object b k = \<lparr>
     oStat = (\<lambda>w. case remote (act_read b k) w of
        (Inl e, w1) \<Rightarrow> (Inl e, w1) | (Inr _, w1) \<Rightarrow> (Inr (), w1)),
     oRead = (\<lambda>w. case remote (act_read b k) w of
        (Inl e, w1) \<Rightarrow> (([], Some e), w1) | (Inr d, w1) \<Rightarrow> ((d, None), w1))\<rparr>"

definition world_minio :: "world minio_client" where
  "world_minio = \<lparr>
     mBucketExists = (\<lambda>b. remote (act_exists b)),
     mMakeBucket = (\<lambda>b. remote (act_make b)),
     mPutObject = (\<lambda>b k ct d n. remote (act_put b k ct d n)),
     mGetObject = (\<lambda>b k w. (Inr (world_object b k), w)),
     mRemoveObject = (\<lambda>b k. remote (act_remove b k))\<rparr>"

definition world_store :: "string \<Rightarrow> world Store" where
  "world_store b = \<lparr>s3client = world_minio, s3bucket = b\<rparr>"

text \<open>
  S3-compatible services differ in one answer: for a key that is not there the removal is
  no error to most, and the code \<^verbatim>\<open>NoSuchKey\<close> to some. The store over a client of the
  second kind.
\<close>

definition act_remove_reporting :: "string \<Rightarrow> string \<Rightarrow> int \<Rightarrow> shared \<Rightarrow> unit res \<times> shared" where
  "act_remove_reporting b k now s = (case buckets s b of
     None \<Rightarrow> (Inl no_bucket, s)
   | Some m \<Rightarrow> (case m k of
       None \<Rightarrow> (Inl (S3Response ''NoSuchKey''), s)
     | Some _ \<Rightarrow> (Inr (), s\<lparr>buckets := (buckets s)(b \<mapsto> m(k := None))\<rparr>)))"

definition reporting_store :: "string \<Rightarrow> world Store" where
  "reporting_store b =
     \<lparr>s3client = world_minio\<lparr>mRemoveObject := (\<lambda>b k. remote (act_remove_reporting b k))\<rparr>, s3bucket = b\<rparr>"

lemmas s3_act_defs = act_exists_def act_make_def act_put_def act_read_def act_remove_def

lemma world_store_sel [simp]: "s3client (world_store b) = world_minio" "s3bucket (world_store b) = b"
  by (simp_all add: world_store_def)

lemma world_minio_sel [simp]:
  "mBucketExists world_minio b = remote (act_exists b)"
  "mMakeBucket world_minio b = remote (act_make b)"
  "mPutObject world_minio b k ct d n = remote (act_put b k ct d n)"
  "mGetObject world_minio b k w = (Inr (world_object b k), w)"
  "mRemoveObject world_minio b k = remote (act_remove b k)"
  by (simp_all add: world_minio_def)

lemma act_history [simp]:
  "history E s (snd (act_exists b now s))"
  "history E s (snd (act_make b now s))"
  "history E s (snd (act_put b k ct d n now s))"
  "history E s (snd (act_read b k now s))"
  "history E s (snd (act_remove b k now s))"
  by (auto simp: s3_act_defs history_def split: option.splits)

lemma act_read_only [simp]: "snd (act_exists b now s) = s" "snd (act_read b k now s) = s"
  by (auto simp: s3_act_defs split: option.splits)

lemma s3_keeps_history:
  "keeps (upheld (history E)) (s3_Put (world_store b) k ct d n)"
  "keeps (upheld (history E)) (s3_Get (world_store b) k)"
  "keeps (upheld (history E)) (s3_Delete (world_store b) k)"
  "keeps (upheld (history E)) (oRead (world_object b k))"
proof -
  have put: "keeps (upheld (history E)) (remote (act_put b k ct d n))"
    and rm: "keeps (upheld (history E)) (remote (act_remove b k))"
    and rd: "keeps (upheld (history E)) (remote (act_read b k))"
    by (intro hist.keeps_remote act_history)+
  show "keeps (upheld (history E)) (s3_Put (world_store b) k ct d n)"
    using put by (auto simp: keeps_def s3_Put_def split: prod.splits sum.splits) (metis snd_conv)+
  show "keeps (upheld (history E)) (s3_Delete (world_store b) k)"
    using rm by (auto simp: keeps_def s3_Delete_def split: prod.splits sum.splits) (metis snd_conv)+
  show "keeps (upheld (history E)) (s3_Get (world_store b) k)"
    "keeps (upheld (history E)) (oRead (world_object b k))"
    using rd by (auto simp: keeps_def s3_Get_def world_object_def split: prod.splits sum.splits)
      (metis snd_conv)+
qed

subsection \<open>The contract of the store\<close>

lemma s3_Put_step:
  assumes "good_world E w" and "n = int (length d)" and "s3_Put (world_store b) k ct d n w = (r, w')"
  shows "good_world E w' \<and> done_or_failed r (world_view b w)
    ((world_view b w)\<lparr>vObj := (vObj (world_view b w))(k \<mapsto> \<lparr>oType = ct, oData = d\<rparr>)\<rparr>) (world_view b w')"
proof -
  obtain q where q: "remote (act_put b k ct d n) w = (q, w')" "r = wrap_err (''put '' @ k) q"
    using assms(3) by (auto simp: s3_Put_def split: prod.splits sum.splits)
  let ?v = "(world_view b w)\<lparr>vObj := (vObj (world_view b w))(k \<mapsto> \<lparr>oType = ct, oData = d\<rparr>)\<rparr>"
  have "good_world E w' \<and> done_or_failed q (world_view b w) ?v (world_view b w')"
    by (rule remote_effect_const [OF assms(1) q(1) act_history(3)])
       (cases "buckets (sh w) b"; simp add: act_put_def world_view_def objects_def assms(2))
  then show ?thesis by (cases q) (simp_all add: q(2))
qed

lemma s3_Delete_step:
  assumes "good_world E w" and "s3_Delete (world_store b) k w = (r, w')"
  shows "good_world E w' \<and> done_or_failed r (world_view b w)
    ((world_view b w)\<lparr>vObj := (vObj (world_view b w))(k := None)\<rparr>) (world_view b w')"
proof -
  obtain q where q: "remote (act_remove b k) w = (q, w')"
    using assms(2) by (auto simp: s3_Delete_def split: prod.splits sum.splits if_splits)
  let ?v = "(world_view b w)\<lparr>vObj := (vObj (world_view b w))(k := None)\<rparr>"
  have eff: "good_world E w' \<and> done_or_failed q (world_view b w) ?v (world_view b w')"
    by (rule remote_effect_const [OF assms(1) q act_history(5)])
       (cases "buckets (sh w) b"; simp add: act_remove_def world_view_def objects_def no_bucket_def)
  moreover have "r = Inl (Wrapf (''delete '' @ k) e)" if "q = Inl e" for e
  proof -
    have "e = no_bucket \<or> (\<exists>n. e = Net n)"
      using q that by (auto simp: remote_def act_remove_def split: prod.splits outcome.splits option.splits)
    with q that assms(2) show ?thesis
      by (auto simp: s3_Delete_def isNoSuchKey_def no_bucket_def)
  qed
  ultimately show ?thesis
    using assms(2) q by (cases q) (auto simp: s3_Delete_def)
qed

text \<open>
  A Delete does not tell the two kinds of service apart: where the client reports a missing
  key, the method does not.
\<close>

lemma act_remove_reporting:
  "act_remove_reporting b k now s =
    (if \<exists>m. buckets s b = Some m \<and> m k = None then (Inl (S3Response ''NoSuchKey''), s) else act_remove b k now s)"
  "\<exists>m. buckets s b = Some m \<and> m k = None \<Longrightarrow> act_remove b k now s = (Inr (), s)"
  by (auto simp: act_remove_reporting_def act_remove_def fun_upd_idem split: option.splits)

lemma s3_Delete_reporting: "s3_Delete (reporting_store b) k w = s3_Delete (world_store b) k w"
proof -
  obtain out w1 where t: "take_turn w = (out, w1)" by fastforce
  show ?thesis
  proof (cases "\<exists>m. buckets (sh w1) b = Some m \<and> m k = None")
    case True
    then have "act_remove_reporting b k now (sh w1) = (Inl (S3Response ''NoSuchKey''), sh w1)" for now
      by (simp only: act_remove_reporting(1) if_True)
    then show ?thesis
      using t act_remove_reporting(2) [OF True]
      by (cases out) (simp_all add: s3_Delete_def reporting_store_def remote_def isNoSuchKey_def)
  next
    case False
    then have "act_remove_reporting b k now (sh w1) = act_remove b k now (sh w1)" for now
      by (simp only: act_remove_reporting(1) if_False)
    then show ?thesis
      using t by (cases out) (simp_all add: s3_Delete_def reporting_store_def remote_def)
  qed
qed

text \<open>Reading: nothing changes, and an answer is about the object as it is stored.\<close>

lemma world_read_step:
  assumes "good_world E w" and "remote (act_read b k) w = (q, w')"
  shows "good_world E w' \<and> world_view b w' = world_view b w \<and>
    (case q of
       Inr d \<Rightarrow> \<exists>x. objects b (sh w) k = Some x \<and> d = oData x
     | Inl e \<Rightarrow> e = no_bucket \<or> (\<exists>n. e = Net n) \<or>
         e = S3Response ''NoSuchKey'' \<and> objects b (sh w) k = None)"
  by (rule good_read [OF assms act_read_only(2), of b])
     (auto simp: act_read_def objects_def split: option.splits sum.splits)

lemma s3_Get_read:
  assumes "s3_Get (world_store b) k w = (r, w')"
  obtains q where "remote (act_read b k) w = (q, w')"
    and "r = (case q of Inr _ \<Rightarrow> Inr (oRead (world_object b k))
      | Inl e \<Rightarrow> if isNoSuchKey e then Inl ErrNotFound else Inl (Wrapf (''stat '' @ k) e))"
  using assms by (auto simp: s3_Get_def world_object_def split: prod.splits sum.splits if_splits)

interpretation store: object_store "good_world E" "world_view b" "s3_Put (world_store b)"
  "s3_Get (world_store b)" for E b
proof unfold_locales
  fix w n d k ct r w'
  assume "good_world E w" "n = int (length d)" "s3_Put (world_store b) k ct d n w = (r, w')"
  then show "good_world E w' \<and> done_or_failed r (world_view b w)
      ((world_view b w)\<lparr>vObj := (vObj (world_view b w))(k \<mapsto> \<lparr>oType = ct, oData = d\<rparr>)\<rparr>) (world_view b w')"
    by (rule s3_Put_step)
next
  fix w k rg w'
  assume good: "good_world E w" and get: "s3_Get (world_store b) k w = (rg, w')"
  obtain q where "remote (act_read b k) w = (q, w')"
    using s3_Get_read [OF get] by blast
  from world_read_step [OF good this]
  show "good_world E w' \<and> world_view b w' = world_view b w" by simp
next
  fix w k rd w'
  assume good: "good_world E w" and get: "s3_Get (world_store b) k w = (Inr rd, w')"
  obtain q d where "remote (act_read b k) w = (q, w')" "q = Inr d"
    by (rule s3_Get_read [OF get]) (auto split: sum.splits if_splits)
  with world_read_step [OF good, of b k q w'] show "vObj (world_view b w) k \<noteq> None" by auto
next
  fix w k e w'
  assume good: "good_world E w" and get: "s3_Get (world_store b) k w = (Inl e, w')"
    and nf: "errors_is e ErrNotFound"
  obtain q e' where q: "remote (act_read b k) w = (q, w')" "q = Inl e'"
    "e = (if isNoSuchKey e' then ErrNotFound else Wrapf (''stat '' @ k) e')"
    by (rule s3_Get_read [OF get]) (auto split: sum.splits if_splits)
  with world_read_step [OF good q(1)] nf show "vObj (world_view b w) k = None"
    by (auto simp: isNoSuchKey_def no_bucket_def split: if_splits)
next
  fix w k e w'
  assume good: "good_world E w" and get: "s3_Get (world_store b) k w = (Inl e, w')"
  obtain q e' where q: "remote (act_read b k) w = (q, w')" "q = Inl e'"
    "e = (if isNoSuchKey e' then ErrNotFound else Wrapf (''stat '' @ k) e')"
    by (rule s3_Get_read [OF get]) (auto split: sum.splits if_splits)
  with world_read_step [OF good q(1)] show "\<not> errors_is e ErrNotOwner"
    by (auto simp: isNoSuchKey_def no_bucket_def split: if_splits)
next
  fix w k rd w1 w2 d err w3
  assume "good_world E w" and get: "s3_Get (world_store b) k w = (Inr rd, w1)"
    and good2: "good_world E w2" and read: "rd w2 = ((d, err), w3)"
  have "rd = oRead (world_object b k)"
    by (rule s3_Get_read [OF get]) (auto split: sum.splits if_splits)
  with read obtain q where q: "remote (act_read b k) w2 = (q, w3)"
    "(d, err) = (case q of Inl e \<Rightarrow> ([], Some e) | Inr d \<Rightarrow> (d, None))"
    by (auto simp: world_object_def split: prod.splits sum.splits)
  with world_read_step [OF good2 q(1)]
  show "good_world E w3 \<and> world_view b w3 = world_view b w2 \<and>
      (err = None \<longrightarrow> (\<exists>x. vObj (world_view b w2) k = Some x \<and> d = oData x))"
    by (auto split: sum.splits)
qed

subsection \<open>Properties\<close>

text \<open>
  EnsureBucket is sound under any faults and any concurrent changes: when it returns
  no error the bucket exists in the state its last call saw, also when another process
  made the bucket between the check and the make, and whatever the answers in between.
\<close>

theorem ensure_bucket_sound:
  assumes "s3_EnsureBucket (world_store b) w = (Inr (), w')"
  shows "buckets (sh w') b \<noteq> None"
proof -
  have there: "buckets (sh v') b \<noteq> None" if "remote (act_exists b) v = (Inr True, v')" for v v'
    by (rule remote_answer [OF that]) (simp add: act_exists_def)
  have made: "buckets (sh v') b \<noteq> None" if "remote (act_make b) v = (Inr u, v')" for u v v'
    by (rule remote_answer [OF that])
       (auto simp: act_make_def split: option.splits dest: arg_cong [of _ _ buckets] sym)
  from assms have "(\<exists>v. remote (act_exists b) v = (Inr True, w')) \<or>
      (\<exists>v u. remote (act_make b) v = (Inr u, w'))"
    by (auto simp: s3_EnsureBucket_def split: prod.splits sum.splits bool.splits)
  with there made show ?thesis by blast
qed

text \<open>
  Get reports ErrNotFound exactly when the Stat of the opened object answers with the
  S3 code NoSuchKey; every other failure, of the open or of the Stat, is reported under
  its own cause, and a reader is handed out only after a successful Stat.
\<close>

theorem s3_get_error_mapping:
  "s3_Get s k w = (r, w') \<longleftrightarrow>
     (\<exists>e. mGetObject (s3client s) (s3bucket s) k w = (Inl e, w') \<and> r = Inl (Wrapf (''get '' @ k) e)) \<or>
     (\<exists>obj w1 e. mGetObject (s3client s) (s3bucket s) k w = (Inr obj, w1) \<and>
        oStat obj w1 = (Inl e, w') \<and> errors_as_s3 e = Some ''NoSuchKey'' \<and> r = Inl ErrNotFound) \<or>
     (\<exists>obj w1 e. mGetObject (s3client s) (s3bucket s) k w = (Inr obj, w1) \<and>
        oStat obj w1 = (Inl e, w') \<and> errors_as_s3 e \<noteq> Some ''NoSuchKey'' \<and>
        r = Inl (Wrapf (''stat '' @ k) e)) \<or>
     (\<exists>obj w1. mGetObject (s3client s) (s3bucket s) k w = (Inr obj, w1) \<and>
        oStat obj w1 = (Inr (), w') \<and> r = Inr (oRead obj))"
  by (cases "mGetObject (s3client s) (s3bucket s) k w"; cases "fst (mGetObject (s3client s) (s3bucket s) k w)")
     (auto simp: s3_Get_def isNoSuchKey_def split: prod.splits sum.splits if_splits)

text \<open>
  Delete is idempotent. In an undisturbed world a Delete that returned no error leaves
  the bucket without the key and every other object as it was; deleting the key again,
  with whatever result, changes nothing.
\<close>

theorem s3_delete_idempotent:
  assumes "good_world E w" and "s3_Delete (world_store b) k w = (Inr (), w1)"
    and "s3_Delete (world_store b) k w1 = (r, w2)"
  shows "objects b (sh w1) = (objects b (sh w))(k := None) \<and> objects b (sh w2) = objects b (sh w1)"
proof -
  have 1: "good_world E w1" "world_view b w1 = (world_view b w)\<lparr>vObj := (objects b (sh w))(k := None)\<rparr>"
    using s3_Delete_step [OF assms(1,2)] by auto
  have "done_or_failed r (world_view b w1) ((world_view b w1)\<lparr>vObj := (objects b (sh w1))(k := None)\<rparr>)
      (world_view b w2)"
    using s3_Delete_step [OF 1(1) assms(3)] by simp
  then have "world_view b w2 = world_view b w1 \<or>
      world_view b w2 = (world_view b w1)\<lparr>vObj := (objects b (sh w1))(k := None)\<rparr>"
    by (auto simp: done_or_failed_def)
  then show ?thesis
    using world_viewD(2) [OF 1(2)] world_viewD(2) [of b w2] by fastforce
qed

subsection \<open>Concrete runs\<close>

theorem ensure_bucket_sound_witness:
  "\<exists>w'. s3_EnsureBucket (world_store ''b2'')
      (sample_world [] Map.empty [(\<lambda>s. s, 1, Answered),
        (\<lambda>s. s\<lparr>buckets := (buckets s)(''b2'' \<mapsto> Map.empty)\<rparr>, 2, Answered), (\<lambda>s. s, 3, Answered)]) = (Inr (), w') \<and>
     buckets (sh w') ''b2'' \<noteq> None"
proof -
  obtain w' where run: "s3_EnsureBucket (world_store ''b2'')
      (sample_world [] Map.empty [(\<lambda>s. s, 1, Answered),
        (\<lambda>s. s\<lparr>buckets := (buckets s)(''b2'' \<mapsto> Map.empty)\<rparr>, 2, Answered), (\<lambda>s. s, 3, Answered)]) = (Inr (), w')"
    by (simp add: s3_EnsureBucket_def remote_def take_turn_def sample_world_def act_exists_def act_make_def)
  with ensure_bucket_sound [OF run] show ?thesis by blast
qed

theorem s3_delete_idempotent_witness:
  "\<exists>w1 w2. s3_Delete (world_store ''b'') ''k'' (sample_world sample_rows [''k'' \<mapsto> \<lparr>oType = [], oData = ''x''\<rparr>] []) = (Inr (), w1) \<and>
     s3_Delete (world_store ''b'') ''k'' w1 = (Inr (), w2) \<and>
     objects ''b'' (sh w1) ''k'' = None \<and> objects ''b'' (sh w2) = objects ''b'' (sh w1)"
proof -
  let ?w = "sample_world sample_rows [''k'' \<mapsto> \<lparr>oType = [], oData = ''x''\<rparr>] []"
  obtain w1 w2 where run: "s3_Delete (world_store ''b'') ''k'' ?w = (Inr (), w1)"
    "s3_Delete (world_store ''b'') ''k'' w1 = (Inr (), w2)"
    by (simp add: s3_Delete_def remote_answered act_remove_def)
  with s3_delete_idempotent [OF good_sample_world [OF table_ok_sample_rows] run] show ?thesis
    by (intro exI [of _ w1] exI [of _ w2]) simp
qed

end
