(* ===== verification/Topology.thy ===== *)
theory Topology
  imports Environment
begin

section \<open>The broker topology (internal/broker/topology.go)\<close>

text \<open>
  \<^verbatim>\<open>Declare\<close> over a channel, a record of the AMQP methods the source calls (library code,
  a parameter), and the direct-exchange broker of AMQP 0-9-1 those methods act on:
  declaring what exists with the same attributes succeeds and changes nothing, with other
  attributes it is refused; a binding needs its queue and its exchange; a direct exchange
  delivers to the queues bound with the message's routing key.
\<close>

abbreviation Exchange :: string where "Exchange \<equiv> ''avatars''"
abbreviation DLXExchange :: string where "DLXExchange \<equiv> ''avatars.dlx''"
abbreviation QueueUpload :: string where "QueueUpload \<equiv> ''avatar.upload''"
abbreviation QueueDelete :: string where "QueueDelete \<equiv> ''avatar.delete''"
abbreviation QueueDead :: string where "QueueDead \<equiv> ''avatar.dead''"

subsection \<open>Declare\<close>

record attributes =
  durable :: bool
  autoDelete :: bool
  internal_or_exclusive :: bool
  args :: amqp_table

record 'w amqp_Channel =
  chExchangeDeclare :: "string \<Rightarrow> string \<Rightarrow> attributes \<Rightarrow> ('w, unit) io"
  chQueueDeclare :: "string \<Rightarrow> attributes \<Rightarrow> ('w, unit) io"
  chQueueBind :: "string \<Rightarrow> string \<Rightarrow> string \<Rightarrow> ('w, unit) io"
  chPublish :: "message \<Rightarrow> ('w, unit) io"
  chQos :: "int \<Rightarrow> ('w, unit) io"
  chConsume :: "string \<Rightarrow> ('w, unit) io"

definition plain :: attributes where
  "plain = \<lparr>durable = True, autoDelete = False, internal_or_exclusive = False, args = []\<rparr>"

definition workArgs :: attributes where
  "workArgs = plain\<lparr>args := [(''x-dead-letter-exchange'', TStr DLXExchange)]\<rparr>"

fun declare_work :: "'w amqp_Channel \<Rightarrow> string list \<Rightarrow> ('w, unit) io" where
  "declare_work ch [] w = (Inr (), w)"
| "declare_work ch (queue # queues) w =
     (case chQueueDeclare ch queue workArgs w of
        (Inl e, w1) \<Rightarrow> (Inl (Wrapf (''declare queue '' @ queue) e), w1)
      | (Inr _, w1) \<Rightarrow>
          (case chQueueBind ch queue queue Exchange w1 of
             (Inl e, w2) \<Rightarrow> (Inl (Wrapf (''bind queue '' @ queue) e), w2)
           | (Inr _, w2) \<Rightarrow> declare_work ch queues w2))"

fun bind_dead :: "'w amqp_Channel \<Rightarrow> string list \<Rightarrow> ('w, unit) io" where
  "bind_dead ch [] w = (Inr (), w)"
| "bind_dead ch (key # keys) w =
     (case chQueueBind ch QueueDead key DLXExchange w of
        (Inl e, w1) \<Rightarrow> (Inl (Wrapf ''bind dead queue'' e), w1)
      | (Inr _, w1) \<Rightarrow> bind_dead ch keys w1)"

definition Declare :: "'w amqp_Channel \<Rightarrow> ('w, unit) io" where
  "Declare ch w = (case chExchangeDeclare ch Exchange ''direct'' plain w of
     (Inl e, w1) \<Rightarrow> (Inl (Wrapf ''declare exchange'' e), w1)
   | (Inr _, w1) \<Rightarrow>
       (case chExchangeDeclare ch DLXExchange ''direct'' plain w1 of
          (Inl e, w2) \<Rightarrow> (Inl (Wrapf ''declare dlx exchange'' e), w2)
        | (Inr _, w2) \<Rightarrow>
            (case declare_work ch [QueueUpload, QueueDelete] w2 of
               (Inl e, w3) \<Rightarrow> (Inl e, w3)
             | (Inr _, w3) \<Rightarrow>
                 (case chQueueDeclare ch QueueDead plain w3 of
                    (Inl e, w4) \<Rightarrow> (Inl (Wrapf ''declare dead queue'' e), w4)
                  | (Inr _, w4) \<Rightarrow> bind_dead ch [QueueUpload, QueueDelete] w4))))"

subsection \<open>A direct-exchange broker\<close>

record broker =
  exchanges :: "string \<rightharpoonup> string \<times> attributes"
  queues :: "string \<rightharpoonup> attributes"
  bindings :: "(string \<times> string \<times> string) list"
  contents :: "(string \<times> message) list"

definition precondition_failed :: go_error where
  "precondition_failed = NewError ''PRECONDITION_FAILED''"

definition not_found :: go_error where
  "not_found = NewError ''NOT_FOUND''"

definition route :: "broker \<Rightarrow> string \<Rightarrow> string \<Rightarrow> string list" where
  "route br x k = map fst (filter (\<lambda>(q, k', x'). k' = k \<and> x' = x) (bindings br))"

definition broker_channel :: "broker amqp_Channel" where
  "broker_channel = \<lparr>
     chExchangeDeclare = (\<lambda>x kind at br. case exchanges br x of
        None \<Rightarrow> (Inr (), br\<lparr>exchanges := (exchanges br)(x \<mapsto> (kind, at))\<rparr>)
      | Some old \<Rightarrow> if old = (kind, at) then (Inr (), br) else (Inl precondition_failed, br)),
     chQueueDeclare = (\<lambda>q at br. case queues br q of
        None \<Rightarrow> (Inr (), br\<lparr>queues := (queues br)(q \<mapsto> at)\<rparr>)
      | Some old \<Rightarrow> if old = at then (Inr (), br) else (Inl precondition_failed, br)),
     chQueueBind = (\<lambda>q k x br.
        if queues br q = None \<or> exchanges br x = None then (Inl not_found, br)
        else if (q, k, x) \<in> set (bindings br) then (Inr (), br)
        else (Inr (), br\<lparr>bindings := bindings br @ [(q, k, x)]\<rparr>)),
     chPublish = (\<lambda>m br.
        if exchanges br (mExchange m) = None then (Inl not_found, br)
        else (Inr (), br\<lparr>contents := contents br @ map (\<lambda>q. (q, m)) (route br (mExchange m) (mKey m))\<rparr>)),
     chQos = (\<lambda>n br. (Inr (), br)),
     chConsume = (\<lambda>q br. (if queues br q = None then Inl not_found else Inr (), br))\<rparr>"

definition no_broker :: broker where
  "no_broker = \<lparr>exchanges = Map.empty, queues = Map.empty, bindings = [], contents = []\<rparr>"

text \<open>Where a message goes that a consumer of the queue rejects without requeueing.\<close>

definition dead_letter :: "broker \<Rightarrow> string \<Rightarrow> string \<Rightarrow> string list" where
  "dead_letter br q k = (case queues br q of
     None \<Rightarrow> []
   | Some at \<Rightarrow> (case map_of (args at) ''x-dead-letter-exchange'' of
        Some (TStr x) \<Rightarrow> route br x k
      | _ \<Rightarrow> []))"

subsection \<open>Properties\<close>

definition topology_bindings :: "(string \<times> string \<times> string) list" where
  "topology_bindings = [(QueueUpload, QueueUpload, Exchange), (QueueDelete, QueueDelete, Exchange),
     (QueueDead, QueueUpload, DLXExchange), (QueueDead, QueueDelete, DLXExchange)]"

definition has_topology :: "broker \<Rightarrow> bool" where
  "has_topology br \<longleftrightarrow>
     exchanges br Exchange = Some (''direct'', plain) \<and>
     exchanges br DLXExchange = Some (''direct'', plain) \<and>
     queues br QueueUpload = Some workArgs \<and> queues br QueueDelete = Some workArgs \<and>
     queues br QueueDead = Some plain \<and> set topology_bindings \<subseteq> set (bindings br)"

lemma broker_step:
  "chExchangeDeclare broker_channel x kind at br = (Inr u, br') \<Longrightarrow>
     exchanges br' = (exchanges br)(x \<mapsto> (kind, at)) \<and> queues br' = queues br \<and>
     bindings br' = bindings br \<and> contents br' = contents br"
  "chQueueDeclare broker_channel q at br = (Inr u, br') \<Longrightarrow>
     exchanges br' = exchanges br \<and> queues br' = (queues br)(q \<mapsto> at) \<and>
     bindings br' = bindings br \<and> contents br' = contents br"
  "chQueueBind broker_channel q k x br = (Inr u, br') \<Longrightarrow>
     exchanges br' = exchanges br \<and> queues br' = queues br \<and>
     set (bindings br') = insert (q, k, x) (set (bindings br)) \<and> contents br' = contents br"
  by (auto simp: broker_channel_def split: option.splits if_splits)

lemma broker_known:
  "exchanges br x = Some (kind, at) \<Longrightarrow> chExchangeDeclare broker_channel x kind at br = (Inr (), br)"
  "queues br q = Some at \<Longrightarrow> chQueueDeclare broker_channel q at br = (Inr (), br)"
  "queues br q = Some at \<Longrightarrow> exchanges br x = Some e \<Longrightarrow> (q, k, x) \<in> set (bindings br) \<Longrightarrow>
     chQueueBind broker_channel q k x br = (Inr (), br)"
  by (simp_all add: broker_channel_def)

lemma broker_new:
  "exchanges br x = None \<Longrightarrow> chExchangeDeclare broker_channel x kind at br =
     (Inr (), br\<lparr>exchanges := (exchanges br)(x \<mapsto> (kind, at))\<rparr>)"
  "queues br q = None \<Longrightarrow> chQueueDeclare broker_channel q at br =
     (Inr (), br\<lparr>queues := (queues br)(q \<mapsto> at)\<rparr>)"
  "queues br q = Some at \<Longrightarrow> exchanges br x = Some e \<Longrightarrow> (q, k, x) \<notin> set (bindings br) \<Longrightarrow>
     chQueueBind broker_channel q k x br = (Inr (), br\<lparr>bindings := bindings br @ [(q, k, x)]\<rparr>)"
  by (simp_all add: broker_channel_def)

lemma Declare_topology:
  assumes "has_topology br"
  shows "Declare broker_channel br = (Inr (), br)"
proof -
  note h = assms [unfolded has_topology_def topology_bindings_def, simplified]
  show ?thesis
    using h by (simp add: Declare_def broker_known)
qed

lemma Declare_establishes:
  assumes "Declare broker_channel br = (Inr (), br')"
  shows "has_topology br' \<and> set (bindings br') = set (bindings br) \<union> set topology_bindings \<and>
    contents br' = contents br"
proof -
  obtain b1 b2 b3 b4 b5 b6 b7 b8 where run:
    "chExchangeDeclare broker_channel Exchange ''direct'' plain br = (Inr (), b1)"
    "chExchangeDeclare broker_channel DLXExchange ''direct'' plain b1 = (Inr (), b2)"
    "chQueueDeclare broker_channel QueueUpload workArgs b2 = (Inr (), b3)"
    "chQueueBind broker_channel QueueUpload QueueUpload Exchange b3 = (Inr (), b4)"
    "chQueueDeclare broker_channel QueueDelete workArgs b4 = (Inr (), b5)"
    "chQueueBind broker_channel QueueDelete QueueDelete Exchange b5 = (Inr (), b6)"
    "chQueueDeclare broker_channel QueueDead plain b6 = (Inr (), b7)"
    "chQueueBind broker_channel QueueDead QueueUpload DLXExchange b7 = (Inr (), b8)"
    "chQueueBind broker_channel QueueDead QueueDelete DLXExchange b8 = (Inr (), br')"
    using assms by (auto simp: Declare_def split: prod.splits sum.splits)
  note step = run(1,2) [THEN broker_step(1)] run(3,5,7) [THEN broker_step(2)]
    run(4,6,8,9) [THEN broker_step(3)]
  show ?thesis
    using step by (simp add: has_topology_def topology_bindings_def) blast
qed

lemma set_route: "set (route br x k) = {q. (q, k, x) \<in> set (bindings br)}"
  by (force simp: route_def)

text \<open>
  Declare can be run by either binary first and any number of times. On any broker
  where it succeeds, running it again succeeds and changes nothing; it adds exactly the
  four routes of the design to those that were there and touches no message; and a
  message rejected from a work queue goes to the dead queue under its own routing key.
\<close>

theorem declare_idempotent_routes:
  assumes "Declare broker_channel br = (Inr (), br')"
  shows "Declare broker_channel br' = (Inr (), br') \<and>
    set (route br' x k) = set (route br x k) \<union> {q. (q, k, x) \<in> set topology_bindings} \<and>
    contents br' = contents br \<and>
    (q \<in> {QueueUpload, QueueDelete} \<longrightarrow> QueueDead \<in> set (dead_letter br' q q)) \<and>
    dead_letter br' QueueDead k = []"
proof -
  note est = Declare_establishes [OF assms]
  have "QueueDead \<in> set (dead_letter br' q q)" if "q \<in> {QueueUpload, QueueDelete}"
    using est that by (auto simp: dead_letter_def has_topology_def workArgs_def set_route topology_bindings_def)
  moreover have "dead_letter br' QueueDead k = []"
    using est by (simp add: dead_letter_def has_topology_def plain_def)
  ultimately show ?thesis
    using est Declare_topology by (auto simp: set_route)
qed

text \<open>
  on a fresh broker, after both binaries have declared the topology, an event reaches
  exactly the queue named by its routing key, once, and a rejected event exactly the dead
  queue; nothing leaves the dead queue.
\<close>

theorem fresh_broker_routing:
  "\<exists>br. Declare broker_channel no_broker = (Inr (), br) \<and> Declare broker_channel br = (Inr (), br) \<and>
     (\<forall>m. mExchange m = Exchange \<and> (mKey m = QueueUpload \<or> mKey m = QueueDelete) \<longrightarrow>
        (\<exists>br'. chPublish broker_channel m br = (Inr (), br') \<and> contents br' = [(mKey m, m)]) \<and>
        dead_letter br (mKey m) (mKey m) = [QueueDead])"
proof -
  obtain br where br: "Declare broker_channel no_broker = (Inr (), br)"
    and b: "bindings br = topology_bindings" and c: "contents br = []"
    by (simp add: Declare_def broker_new no_broker_def topology_bindings_def)
  note est = Declare_establishes [OF br]
  then have top: "exchanges br Exchange = Some (''direct'', plain)" "queues br QueueUpload = Some workArgs"
    "queues br QueueDelete = Some workArgs"
    by (simp_all add: has_topology_def)
  have routed: "chPublish broker_channel m br = (Inr (), br\<lparr>contents := [(mKey m, m)]\<rparr>) \<and>
      dead_letter br (mKey m) (mKey m) = [QueueDead]"
    if "mExchange m = Exchange" "mKey m = QueueUpload \<or> mKey m = QueueDelete" for m
    by (insert top that b c, elim disjE)
       (simp_all add: broker_channel_def route_def topology_bindings_def dead_letter_def workArgs_def)
  show ?thesis
    using br Declare_topology est routed by (intro exI [of _ br]) auto
qed

theorem fresh_broker_routing_witness:
  "\<exists>br br'. Declare broker_channel no_broker = (Inr (), br) \<and>
     chPublish broker_channel \<lparr>mExchange = Exchange, mKey = QueueUpload, mType = [], mHeaders = [], mId = ''a1'',
       mPersistent = True, mBody = JNull\<rparr> br = (Inr (), br') \<and> map fst (contents br') = [QueueUpload]"
  using fresh_broker_routing
  by (elim exE conjE, erule_tac x = "\<lparr>mExchange = Exchange, mKey = QueueUpload, mType = [], mHeaders = [],
    mId = ''a1'', mPersistent = True, mBody = JNull\<rparr>" in allE) auto

theorem declare_idempotent_routes_witness:
  "\<exists>br. Declare broker_channel no_broker = (Inr (), br) \<and> Declare broker_channel br = (Inr (), br) \<and>
     set (route br DLXExchange QueueDelete) = {QueueDead}"
proof -
  obtain br where br: "Declare broker_channel no_broker = (Inr (), br)"
    by (simp add: Declare_def broker_new no_broker_def)
  have "Declare broker_channel br = (Inr (), br)"
    "set (route br DLXExchange QueueDelete) = {QueueDead}"
    using declare_idempotent_routes [OF br, of DLXExchange QueueDelete]
    by (simp_all add: route_def no_broker_def topology_bindings_def)
  with br show ?thesis by blast
qed

end
