(* ===== verification/Publisher.thy ===== *)
theory Publisher
  imports Topology History "HOL-Library.AList"
begin

section \<open>Publishing events (internal/broker/publisher.go, propagation.go)\<close>

text \<open>
  The header carrier that takes the trace context across the broker, and the publisher:
  dialing with its clean-up on failure, one persistent message per event on the exchange
  \<^verbatim>\<open>avatars\<close>, the routing key being the queue's name and the message id the avatar's id.
  The connection and the channel are library code, records of their methods; what the
  trace propagator sets in the carrier is the parameter \<open>pbInject\<close>. \<^verbatim>\<open>json.Marshal\<close> does not
  fail on the two events, structs of strings, so its error branch has no counterpart.
\<close>

subsection \<open>The header carrier\<close>

definition hc_Get :: "amqp_table \<Rightarrow> string \<Rightarrow> string" where
  "hc_Get c key = (case map_of c key of Some (TStr s) \<Rightarrow> s | _ \<Rightarrow> [])"

definition hc_Set :: "amqp_table \<Rightarrow> string \<Rightarrow> string \<Rightarrow> amqp_table" where
  "hc_Set c key v = AList.update key (TStr v) c"

definition hc_Keys :: "amqp_table \<Rightarrow> string list" where
  "hc_Keys c = map fst c"

definition hc_inject :: "(string \<times> string) list \<Rightarrow> amqp_table" where
  "hc_inject kvs = foldl (\<lambda>c (k, v). hc_Set c k v) [] kvs"

lemma hc_Get_Set [simp]: "hc_Get (hc_Set c k v) k' = (if k' = k then v else hc_Get c k')"
  by (simp add: hc_Get_def hc_Set_def update_conv')

lemma hc_Get_Nil: "hc_Get [] k = []"
  by (simp add: hc_Get_def)

lemma hc_Get_foldl:
  "hc_Get (foldl (\<lambda>c (k, v). hc_Set c k v) c kvs) key =
     (case map_of (rev kvs) key of None \<Rightarrow> hc_Get c key | Some v \<Rightarrow> v)"
  by (induction kvs arbitrary: c) (auto simp: map_add_def split: option.splits)

lemma hc_Keys_foldl:
  "distinct_keys c \<Longrightarrow> distinct_keys (foldl (\<lambda>c (k, v). hc_Set c k v) c kvs) \<and>
     set (hc_Keys (foldl (\<lambda>c (k, v). hc_Set c k v) c kvs)) = set (hc_Keys c) \<union> fst ` set kvs"
proof (induction kvs arbitrary: c)
  case (Cons kv kvs)
  obtain k v where kv: "kv = (k, v)" by fastforce
  have "distinct_keys (hc_Set c k v)"
    using Cons.prems by (simp add: hc_Set_def distinct_update)
  moreover have "set (hc_Keys (hc_Set c k v)) = insert k (set (hc_Keys c))"
    by (simp add: hc_Set_def hc_Keys_def dom_update)
  ultimately show ?case
    using Cons.IH [of "hc_Set c k v"] by (auto simp: kv)
qed simp

text \<open>
  the trace context crosses the broker: what the consuming side reads from the headers
  under a key is the last value the propagator set for it, the empty string where it set
  none; the keys offered are exactly those it set, each once.
\<close>

theorem header_carrier_roundtrip:
  "hc_Get (hc_inject kvs) k = (case map_of (rev kvs) k of None \<Rightarrow> [] | Some v \<Rightarrow> v) \<and>
   distinct (hc_Keys (hc_inject kvs)) \<and> set (hc_Keys (hc_inject kvs)) = fst ` set kvs"
  using hc_Get_foldl [of "[]" kvs k] hc_Keys_foldl [of "[]" kvs]
  by (simp add: hc_inject_def hc_Keys_def hc_Get_Nil cong: option.case_cong)

subsection \<open>The publisher\<close>

record 'w amqp_Connection =
  cnChannel :: "('w, 'w amqp_Channel) io"
  cnClose :: "('w, unit) io"
  cnIsClosed :: "'w \<Rightarrow> bool"

record 'w broker_Publisher =
  pbConn :: "'w amqp_Connection"
  pbCh :: "'w amqp_Channel"
  pbInject :: "(string \<times> string) list"

definition NewPublisher ::
  "(string \<Rightarrow> ('w, 'w amqp_Connection) io) \<Rightarrow> (string \<times> string) list \<Rightarrow> string \<Rightarrow>
   ('w, 'w broker_Publisher) io" where
  "NewPublisher Dial inject url w =
     (if url = [] then (Inl (NewError ''broker: url is required''), w)
      else case Dial url w of
        (Inl e, w1) \<Rightarrow> (Inl (Wrapf ''dial rabbitmq'' e), w1)
      | (Inr conn, w1) \<Rightarrow>
          (case cnChannel conn w1 of
             (Inl e, w2) \<Rightarrow> (Inl (Wrapf ''open channel'' e), snd (cnClose conn w2))
           | (Inr ch, w2) \<Rightarrow>
               (case Declare ch w2 of
                  (Inl e, w3) \<Rightarrow> (Inl e, snd (cnClose conn w3))
                | (Inr _, w3) \<Rightarrow> (Inr \<lparr>pbConn = conn, pbCh = ch, pbInject = inject\<rparr>, w3))))"

definition pb_publish :: "'w broker_Publisher \<Rightarrow> string \<Rightarrow> string \<Rightarrow> json \<Rightarrow> ('w, unit) io" where
  "pb_publish p key messageID data w =
     (case chPublish (pbCh p)
        \<lparr>mExchange = Exchange, mKey = key, mType = ''application/json'',
         mHeaders = hc_inject (pbInject p), mId = messageID, mPersistent = True, mBody = data\<rparr> w of
        (Inl e, w1) \<Rightarrow> (Inl (Wrapf (''publish '' @ key) e), w1)
      | (Inr _, w1) \<Rightarrow> (Inr (), w1))"

definition pb_PublishUpload :: "'w broker_Publisher \<Rightarrow> UploadEvent \<Rightarrow> ('w, unit) io" where
  "pb_PublishUpload p ev = pb_publish p QueueUpload (upAvatarID ev) (marshal_upload ev)"

definition pb_PublishDelete :: "'w broker_Publisher \<Rightarrow> DeleteEvent \<Rightarrow> ('w, unit) io" where
  "pb_PublishDelete p ev = pb_publish p QueueDelete (delAvatarID ev) (marshal_delete ev)"

definition pb_Ping :: "'w broker_Publisher \<Rightarrow> ('w, unit) io" where
  "pb_Ping p w = (if cnIsClosed (pbConn p) w
     then (Inl (NewError ''rabbitmq connection is closed''), w) else (Inr (), w))"

definition pb_Close :: "'w broker_Publisher \<Rightarrow> ('w, unit) io" where
  "pb_Close p = cnClose (pbConn p)"

subsection \<open>Publishing in the world\<close>

definition act_publish :: "message \<Rightarrow> int \<Rightarrow> shared \<Rightarrow> unit res \<times> shared" where
  "act_publish m now s = (Inr (), s\<lparr>sent := sent s @ [m]\<rparr>)"

definition world_channel :: "world amqp_Channel" where
  "world_channel = \<lparr>chExchangeDeclare = (\<lambda>_ _ _ w. (Inr (), w)), chQueueDeclare = (\<lambda>_ _ w. (Inr (), w)),
     chQueueBind = (\<lambda>_ _ _ w. (Inr (), w)), chPublish = (\<lambda>m. remote (act_publish m)),
     chQos = (\<lambda>_ w. (Inr (), w)), chConsume = (\<lambda>_ w. (Inr (), w))\<rparr>"

definition world_publisher :: "env \<Rightarrow> world broker_Publisher" where
  "world_publisher E = \<lparr>pbConn = \<lparr>cnChannel = (\<lambda>w. (Inr world_channel, w)),
       cnClose = (\<lambda>w. (Inr (), w)), cnIsClosed = (\<lambda>_. False)\<rparr>,
     pbCh = world_channel, pbInject = trace_context E\<rparr>"

definition upload_message :: "env \<Rightarrow> UploadEvent \<Rightarrow> message" where
  "upload_message E ev = \<lparr>mExchange = Exchange, mKey = QueueUpload, mType = ''application/json'',
     mHeaders = hc_inject (trace_context E), mId = upAvatarID ev, mPersistent = True,
     mBody = marshal_upload ev\<rparr>"

definition delete_message :: "env \<Rightarrow> DeleteEvent \<Rightarrow> message" where
  "delete_message E ev = \<lparr>mExchange = Exchange, mKey = QueueDelete, mType = ''application/json'',
     mHeaders = hc_inject (trace_context E), mId = delAvatarID ev, mPersistent = True,
     mBody = marshal_delete ev\<rparr>"

lemma act_publish_history [simp]: "history E s (snd (act_publish m now s))"
  by (simp add: act_publish_def history_def)

lemma pb_publish_remote:
  "pb_PublishUpload (world_publisher E) ev w =
     (case remote (act_publish (upload_message E ev)) w of (q, w1) \<Rightarrow>
        (wrap_err (''publish '' @ QueueUpload) q, w1))"
  "pb_PublishDelete (world_publisher E) dv w =
     (case remote (act_publish (delete_message E dv)) w of (q, w1) \<Rightarrow>
        (wrap_err (''publish '' @ QueueDelete) q, w1))"
  by (auto simp: pb_PublishUpload_def pb_PublishDelete_def pb_publish_def world_publisher_def
      world_channel_def upload_message_def delete_message_def split: prod.splits sum.splits)

lemma pb_keeps_history:
  "keeps (upheld (history E)) (pb_PublishUpload (world_publisher E) ev)"
  "keeps (upheld (history E)) (pb_PublishDelete (world_publisher E) dv)"
  unfolding pb_publish_remote [abs_def]
  by (intro keeps_map_result hist.keeps_remote act_publish_history)+

lemma publish_effect:
  assumes "good_world E w" and "remote (act_publish m) w = (q, w')"
  shows "good_world E w' \<and> done_or_failed q (world_view b w)
    ((world_view b w)\<lparr>vMsgs := vMsgs (world_view b w) @ [m]\<rparr>) (world_view b w')"
  by (rule remote_effect_const [OF assms act_publish_history])
     (simp add: act_publish_def world_view_def objects_def)

lemma pb_step:
  assumes "good_world E w"
  shows "pb_PublishUpload (world_publisher E) ev w = (r, w') \<Longrightarrow> good_world E w' \<and>
      done_or_failed r (world_view b w)
        ((world_view b w)\<lparr>vMsgs := vMsgs (world_view b w) @ [upload_message E ev]\<rparr>) (world_view b w')"
    and "pb_PublishDelete (world_publisher E) dv w = (r, w') \<Longrightarrow> good_world E w' \<and>
      done_or_failed r (world_view b w)
        ((world_view b w)\<lparr>vMsgs := vMsgs (world_view b w) @ [delete_message E dv]\<rparr>) (world_view b w')"
  using publish_effect [OF assms, of _ _ w' b]
  by (auto simp: pb_publish_remote done_or_failed_def split: prod.splits sum.splits; fastforce)+

end
