(* ===== verification/Service.thy ===== *)
theory Service
  imports Postgres S3_Store Publisher
begin

section \<open>The avatar use cases (internal/server/service)\<close>

text \<open>
  \<^verbatim>\<open>service.go\<close>: upload, reads and deletion on top of the three interfaces the package
  declares, each a record of operations, and of the library functions it calls (a fresh
  UUID, the probing of image dimensions, the sniffing of the MIME type). The contracts the
  use cases rely on are the locale \<open>service_deps\<close>; the lemmas about Upload and Delete are
  proved in it for any implementation, and it is interpreted on the model's repository,
  store and publisher. Logging and spans have no effect on results and are left out.
\<close>

subsection \<open>Interfaces\<close>

record 'w Repository =
  rCreate :: "new_avatar \<Rightarrow> ('w, avatar) io"
  rGetByID :: "string \<Rightarrow> ('w, avatar) io"
  rLatestByUser :: "string \<Rightarrow> ('w, avatar) io"
  rListByUser :: "string \<Rightarrow> ('w, avatar list) io"
  rSetUploadStatus :: "string \<Rightarrow> string \<Rightarrow> ('w, unit) io"
  rSoftDelete :: "string \<Rightarrow> ('w, unit) io"

record 'w FileStore =
  fPut :: "string \<Rightarrow> string \<Rightarrow> bytes \<Rightarrow> int \<Rightarrow> ('w, unit) io"
  fGet :: "string \<Rightarrow> ('w, 'w reader) io"

record 'w Publisher =
  pPublishUpload :: "UploadEvent \<Rightarrow> ('w, unit) io"
  pPublishDelete :: "DeleteEvent \<Rightarrow> ('w, unit) io"

record 'w service_libs =
  NewString :: "'w \<Rightarrow> string \<times> 'w"
  DecodeConfig :: "bytes \<Rightarrow> (int \<times> int) option"
  DetectContentType :: "bytes \<Rightarrow> string"

record 'w Service =
  repo :: "'w Repository"
  files :: "'w FileStore"
  pub :: "'w Publisher"
  libs :: "'w service_libs"

record 'w File =
  Body :: "'w reader"
  fileContentType :: string
  fileSize :: int

definition maxFileNameLen :: nat where
  "maxFileNameLen = 255"

subsection \<open>Use cases\<close>

definition truncate_name :: "string \<Rightarrow> string" where
  "truncate_name fileName = (let rs = runes fileName in
     if maxFileNameLen < length rs then string_of_runes (take maxFileNameLen rs) else fileName)"

text \<open>The \<^verbatim>\<open>avatar.New\<close> literal of Upload, with the best-effort dimensions.\<close>

definition upload_record :: "'w Service \<Rightarrow> string \<Rightarrow> string \<Rightarrow> bytes \<Rightarrow> string \<Rightarrow> new_avatar" where
  "upload_record s userID fileName data i =
     (case (case DecodeConfig (libs s) data of Some wh \<Rightarrow> wh | None \<Rightarrow> (0, 0)) of (width, height) \<Rightarrow>
        \<lparr>newID = i, newUserID = userID, newFileName = truncate_name fileName,
         newMimeType = DetectContentType (libs s) data, newSizeBytes = int (length data),
         newWidth = width, newHeight = height, newS3Key = OriginalKey i\<rparr>)"

definition svc_Upload :: "'w Service \<Rightarrow> string \<Rightarrow> string \<Rightarrow> bytes \<Rightarrow> ('w, avatar) io" where
  "svc_Upload s userID fileName data w =
     (case NewString (libs s) w of (i, w0) \<Rightarrow>
       (case rCreate (repo s) (upload_record s userID fileName data i) w0 of
          (Inl e, w1) \<Rightarrow> (Inl (Wrapf ''create avatar record'' e), w1)
        | (Inr a, w1) \<Rightarrow>
            (case fPut (files s) (S3Key a) (MimeType a) data (SizeBytes a) w1 of
               (Inl e, w2) \<Rightarrow>
                 (case rSetUploadStatus (repo s) (ID a) UploadStatusFailed w2 of
                    (markErr, w3) \<Rightarrow> (Inl (Wrapf ''store avatar file'' e), w3))
             | (Inr _, w2) \<Rightarrow>
                 (case rSetUploadStatus (repo s) (ID a) UploadStatusUploaded w2 of
                    (Inl e, w3) \<Rightarrow> (Inl (Wrapf ''finish avatar upload'' e), w3)
                  | (Inr _, w3) \<Rightarrow>
                      (case pPublishUpload (pub s)
                         \<lparr>upAvatarID = ID a, upUserID = UserID a, upS3Key = S3Key a\<rparr> w3 of
                         (err, w4) \<Rightarrow> (Inr (a\<lparr>UploadStatus := UploadStatusUploaded\<rparr>), w4))))))"

definition svc_Metadata :: "'w Service \<Rightarrow> string \<Rightarrow> ('w, avatar) io" where
  "svc_Metadata s i = rGetByID (repo s) i"

definition svc_List :: "'w Service \<Rightarrow> string \<Rightarrow> ('w, avatar list) io" where
  "svc_List s userID = rListByUser (repo s) userID"

definition openOriginal :: "'w Service \<Rightarrow> avatar \<Rightarrow> ('w, 'w File) io" where
  "openOriginal s a w = (case fGet (files s) (S3Key a) w of
     (Inl e, w1) \<Rightarrow> if errors_is e ErrNotFound then (Inl ErrNotFound, w1) else (Inl e, w1)
   | (Inr body, w1) \<Rightarrow>
       (Inr \<lparr>Body = body, fileContentType = MimeType a, fileSize = SizeBytes a\<rparr>, w1))"

definition svc_GetFile :: "'w Service \<Rightarrow> string \<Rightarrow> ('w, 'w File) io" where
  "svc_GetFile s i w = (case rGetByID (repo s) i w of
     (Inl e, w1) \<Rightarrow> (Inl e, w1)
   | (Inr a, w1) \<Rightarrow> openOriginal s a w1)"

definition svc_LatestFile :: "'w Service \<Rightarrow> string \<Rightarrow> ('w, 'w File) io" where
  "svc_LatestFile s userID w = (case rLatestByUser (repo s) userID w of
     (Inl e, w1) \<Rightarrow> (Inl e, w1)
   | (Inr a, w1) \<Rightarrow> openOriginal s a w1)"

definition svc_ThumbnailFile :: "'w Service \<Rightarrow> string \<Rightarrow> string \<Rightarrow> ('w, 'w File) io" where
  "svc_ThumbnailFile s i sz w = (case rGetByID (repo s) i w of
     (Inl e, w1) \<Rightarrow> (Inl e, w1)
   | (Inr a, w1) \<Rightarrow>
       (case map_of (Thumbnails a) sz of
          None \<Rightarrow> (Inl ErrNotFound, w1)
        | Some key \<Rightarrow>
            (case fGet (files s) key w1 of
               (Inl e, w2) \<Rightarrow> (Inl e, w2)
             | (Inr body, w2) \<Rightarrow>
                 (Inr \<lparr>Body = body, fileContentType = ''image/jpeg'', fileSize = 0\<rparr>, w2))))"

definition deleteAvatar :: "'w Service \<Rightarrow> avatar \<Rightarrow> ('w, unit) io" where
  "deleteAvatar s a w = (let keys = S3Key a # map snd (Thumbnails a) in
     (case rSoftDelete (repo s) (ID a) w of
        (Inl e, w1) \<Rightarrow> (Inl e, w1)
      | (Inr _, w1) \<Rightarrow>
          (case pPublishDelete (pub s) \<lparr>delAvatarID = ID a, delS3Keys = keys\<rparr> w1 of
             (err, w2) \<Rightarrow> (Inr (), w2))))"

definition svc_Delete :: "'w Service \<Rightarrow> string \<Rightarrow> string \<Rightarrow> ('w, unit) io" where
  "svc_Delete s i requesterID w = (case rGetByID (repo s) i w of
     (Inl e, w1) \<Rightarrow> (Inl e, w1)
   | (Inr a, w1) \<Rightarrow>
       if UserID a \<noteq> requesterID then (Inl ErrNotOwner, w1) else deleteAvatar s a w1)"

definition svc_DeleteLatest :: "'w Service \<Rightarrow> string \<Rightarrow> string \<Rightarrow> ('w, unit) io" where
  "svc_DeleteLatest s userID requesterID w =
     (if userID \<noteq> requesterID then (Inl ErrNotOwner, w)
      else case rLatestByUser (repo s) userID w of
        (Inl e, w1) \<Rightarrow> (Inl e, w1)
      | (Inr a, w1) \<Rightarrow> deleteAvatar s a w1)"

subsection \<open>File names\<close>

text \<open>
  a stored file name never has more than 255 characters (code points), so it fits the
  column whatever the client sent; a name that fits is stored byte for byte; a truncated
  name is valid UTF-8 and consists of the first 255 characters of the original.
\<close>

theorem file_name_fits:
  "length (runes (truncate_name name)) \<le> 255 \<and>
   (length (runes name) \<le> 255 \<longrightarrow> truncate_name name = name) \<and>
   (255 < length (runes name) \<longrightarrow> valid_utf8 (truncate_name name) \<and>
      runes (truncate_name name) = take 255 (runes name))"
proof (cases "255 < length (runes name)")
  case True
  have "list_all valid_rune (take 255 (runes name))"
    using runes_valid [of name] by (auto simp: list_all_iff dest: in_set_takeD)
  with True show ?thesis
    by (simp add: truncate_name_def maxFileNameLen_def Let_def runes_string_of_runes
        valid_utf8_string_of_runes)
qed (simp add: truncate_name_def maxFileNameLen_def Let_def)

subsection \<open>The contracts the use cases rely on\<close>

definition deleted_at :: "int \<Rightarrow> avatar \<Rightarrow> avatar" where
  "deleted_at now a = a\<lparr>DeletedAt := Some now, UpdatedAt := now\<rparr>"

definition delete_event :: "avatar \<Rightarrow> DeleteEvent" where
  "delete_event a = \<lparr>delAvatarID = ID a, delS3Keys = S3Key a # map snd (Thumbnails a)\<rparr>"

locale service_deps =
  object_store good view "fPut (files s)" "fGet (files s)" + row_reader good view "rGetByID (repo s)"
  for good :: "'w \<Rightarrow> bool" and view :: "'w \<Rightarrow> view" and s :: "'w Service" +
  fixes accepted :: "new_avatar \<Rightarrow> avatar \<Rightarrow> bool"
    and up_msg :: "UploadEvent \<Rightarrow> message" and del_msg :: "DeleteEvent \<Rightarrow> message"
  assumes fresh_law: "good w \<Longrightarrow> NewString (libs s) w = (i, w') \<Longrightarrow> good w' \<and> view w' = view w"
    and create_law: "good w \<Longrightarrow> rCreate (repo s) n w = (rc, w') \<Longrightarrow>
      good w' \<and> ((\<exists>e. rc = Inl e) \<and> view w' = view w \<or>
        (\<exists>a. accepted n a \<and> vRow (view w) (ID a) = None \<and> (\<forall>a'. rc = Inr a' \<longrightarrow> a' = a) \<and>
          done_or_failed rc (view w) ((view w)\<lparr>vRow := (vRow (view w))(ID a \<mapsto> a)\<rparr>) (view w')))"
    and accepted_law: "accepted n a \<Longrightarrow> live a \<and> UploadStatus a = UploadStatusUploading \<and>
      ProcessingStatus a = ProcessingStatusPending \<and> Thumbnails a = [] \<and> SizeBytes a = newSizeBytes n"
    and status_law: "good w \<Longrightarrow> vRow (view w) j = Some x \<Longrightarrow>
      st \<in> {UploadStatusUploaded, UploadStatusFailed} \<Longrightarrow> rSetUploadStatus (repo s) j st w = (ru, w') \<Longrightarrow>
      good w' \<and> (\<exists>now. done_or_failed ru (view w)
        ((view w)\<lparr>vRow := (vRow (view w))(j \<mapsto> x\<lparr>UploadStatus := st, UpdatedAt := now\<rparr>)\<rparr>) (view w'))"
    and soft_delete_law: "good w \<Longrightarrow> vRow (view w) j = Some x \<Longrightarrow> live x \<Longrightarrow>
      rSoftDelete (repo s) j w = (ru, w') \<Longrightarrow>
      good w' \<and> (\<forall>e. ru = Inl e \<longrightarrow> \<not> errors_is e ErrNotOwner) \<and>
      (\<exists>now. done_or_failed ru (view w)
        ((view w)\<lparr>vRow := (vRow (view w))(j \<mapsto> deleted_at now x)\<rparr>) (view w'))"
    and latest_law: "good w \<Longrightarrow> rLatestByUser (repo s) uid w = (rl, w') \<Longrightarrow>
      good w' \<and> view w' = view w \<and>
      (\<forall>a. rl = Inr a \<longrightarrow> vRow (view w) (ID a) = Some a \<and> live a \<and> UserID a = uid) \<and>
      (\<forall>e. rl = Inl e \<longrightarrow> \<not> errors_is e ErrNotOwner)"
    and publish_upload_law: "good w \<Longrightarrow> pPublishUpload (pub s) ev w = (ru, w') \<Longrightarrow>
      good w' \<and> done_or_failed ru (view w) ((view w)\<lparr>vMsgs := vMsgs (view w) @ [up_msg ev]\<rparr>) (view w')"
    and publish_delete_law: "good w \<Longrightarrow> pPublishDelete (pub s) dv w = (ru, w') \<Longrightarrow>
      good w' \<and> done_or_failed ru (view w) ((view w)\<lparr>vMsgs := vMsgs (view w) @ [del_msg dv]\<rparr>) (view w')"
begin

text \<open>The run of Upload, step by step, faults included.\<close>

lemma Upload_run:
  assumes "good w" and "svc_Upload s uid name data w = (r, w')"
  obtains (not_created) e where "good w'" "view w' = view w" "r = Inl (Wrapf ''create avatar record'' e)"
  | (lost) a i e where "good w'" "accepted (upload_record s uid name data i) a"
      "vRow (view w) (ID a) = None" "view w' = (view w)\<lparr>vRow := (vRow (view w))(ID a \<mapsto> a)\<rparr>"
      "r = Inl (Wrapf ''create avatar record'' e)"
  | (created) a i w1 where "good w1" "accepted (upload_record s uid name data i) a"
      "vRow (view w) (ID a) = None" "view w1 = (view w)\<lparr>vRow := (vRow (view w))(ID a \<mapsto> a)\<rparr>"
      "(case fPut (files s) (S3Key a) (MimeType a) data (SizeBytes a) w1 of
          (Inl e, w2) \<Rightarrow>
            (case rSetUploadStatus (repo s) (ID a) UploadStatusFailed w2 of
               (markErr, w3) \<Rightarrow> (Inl (Wrapf ''store avatar file'' e), w3))
        | (Inr _, w2) \<Rightarrow>
            (case rSetUploadStatus (repo s) (ID a) UploadStatusUploaded w2 of
               (Inl e, w3) \<Rightarrow> (Inl (Wrapf ''finish avatar upload'' e), w3)
             | (Inr _, w3) \<Rightarrow>
                 (case pPublishUpload (pub s)
                    \<lparr>upAvatarID = ID a, upUserID = UserID a, upS3Key = S3Key a\<rparr> w3 of
                    (err, w4) \<Rightarrow> (Inr (a\<lparr>UploadStatus := UploadStatusUploaded\<rparr>), w4)))) = (r, w')"
proof -
  obtain i w0 where f: "NewString (libs s) w = (i, w0)" by fastforce
  obtain rc w1 where c: "rCreate (repo s) (upload_record s uid name data i) w0 = (rc, w1)" by fastforce
  note g = fresh_law [OF assms(1) f]
  show ?thesis
  proof (cases rc)
    case (Inl e)
    then have "r = Inl (Wrapf ''create avatar record'' e)" "w' = w1"
      using assms(2) f c by (simp_all add: svc_Upload_def)
    with create_law [OF _ c] g Inl not_created lost show ?thesis
      by (auto simp: done_or_failed_def)
  next
    case (Inr a)
    with create_law [OF _ c] g have "good w1" "accepted (upload_record s uid name data i) a"
      "vRow (view w) (ID a) = None" "view w1 = (view w)\<lparr>vRow := (vRow (view w))(ID a \<mapsto> a)\<rparr>"
      by auto
    with created show ?thesis
      using assms(2) f c Inr by (simp add: svc_Upload_def)
  qed
qed

lemma same_status: "\<exists>st now. a = (a :: avatar)\<lparr>UploadStatus := st, UpdatedAt := now\<rparr>"
  by (intro exI [of _ "UploadStatus a"] exI [of _ "UpdatedAt a"]) simp

text \<open>The object Upload stores, and what each of the three later calls leaves.\<close>

lemma Upload_put:
  assumes "good w1" and acc: "accepted (upload_record s uid name data i) a"
    and "fPut (files s) (S3Key a) (MimeType a) data (SizeBytes a) w1 = (rp, w2)"
  shows "good w2 \<and> done_or_failed rp (view w1)
    ((view w1)\<lparr>vObj := (vObj (view w1))(S3Key a \<mapsto> \<lparr>oType = MimeType a, oData = data\<rparr>)\<rparr>) (view w2)"
proof -
  have "SizeBytes a = int (length data)"
    using accepted_law [OF acc] by (simp add: upload_record_def split: prod.splits)
  with put_law [OF assms(1) _ assms(3)] show ?thesis by simp
qed

lemma Upload_ok:
  assumes "good w" and "svc_Upload s uid name data w = (Inr a', w')"
  shows "good w' \<and> (\<exists>a i now. accepted (upload_record s uid name data i) a \<and>
    a' = a\<lparr>UploadStatus := UploadStatusUploaded\<rparr> \<and> vRow (view w) (ID a) = None \<and>
    (\<exists>msgs \<in> {[], [up_msg \<lparr>upAvatarID = ID a, upUserID = UserID a, upS3Key = S3Key a\<rparr>]}.
       view w' = (view w)\<lparr>
         vRow := (vRow (view w))(ID a \<mapsto> a\<lparr>UploadStatus := UploadStatusUploaded, UpdatedAt := now\<rparr>),
         vObj := (vObj (view w))(S3Key a \<mapsto> \<lparr>oType = MimeType a, oData = data\<rparr>),
         vMsgs := vMsgs (view w) @ msgs\<rparr>))"
  using assms
proof (cases rule: Upload_run)
  case (created a i w1)
  let ?ev = "\<lparr>upAvatarID = ID a, upUserID = UserID a, upS3Key = S3Key a\<rparr>"
  obtain u2 w2 where p: "fPut (files s) (S3Key a) (MimeType a) data (SizeBytes a) w1 = (Inr u2, w2)"
    using created(5) by (auto split: prod.splits sum.splits)
  obtain u3 w3 where u: "rSetUploadStatus (repo s) (ID a) UploadStatusUploaded w2 = (Inr u3, w3)"
    using created(5) p by (auto split: prod.splits sum.splits)
  obtain rm where m: "pPublishUpload (pub s) ?ev w3 = (rm, w')" and a': "a' = a\<lparr>UploadStatus := UploadStatusUploaded\<rparr>"
    using created(5) p u by (auto split: prod.splits)
  note 2 = Upload_put [OF created(1,2) p]
  have row2: "vRow (view w2) (ID a) = Some a" using 2 created(4) by simp
  obtain now where 3: "good w3" "view w3 = (view w2)\<lparr>vRow := (vRow (view w2))
      (ID a \<mapsto> a\<lparr>UploadStatus := UploadStatusUploaded, UpdatedAt := now\<rparr>)\<rparr>"
    using status_law [OF _ row2 _ u] 2 by auto
  from publish_upload_law [OF 3(1) m] have "good w'"
    and "\<exists>msgs \<in> {[], [up_msg ?ev]}. view w' = (view w3)\<lparr>vMsgs := vMsgs (view w3) @ msgs\<rparr>"
    by (auto simp: done_or_failed_def)
  with 2 3(2) created(2-4) a' show ?thesis
    by (intro conjI exI [of _ a] exI [of _ i] exI [of _ now]) auto
qed simp_all

lemma Upload_failed:
  assumes "good w" and "svc_Upload s uid name data w = (Inl e, w')"
  shows "good w' \<and> (view w' = view w \<or> (\<exists>a i y objs. accepted (upload_record s uid name data i) a \<and>
    vRow (view w) (ID a) = None \<and>
    view w' = (view w)\<lparr>vRow := (vRow (view w))(ID a \<mapsto> y), vObj := objs\<rparr> \<and>
    (\<exists>st now. y = a\<lparr>UploadStatus := st, UpdatedAt := now\<rparr>) \<and>
    (objs = vObj (view w) \<and> UploadStatus y \<noteq> UploadStatusUploaded \<or>
     objs = (vObj (view w))(S3Key a \<mapsto> \<lparr>oType = MimeType a, oData = data\<rparr>))))"
  using assms
proof (cases rule: Upload_run)
  case (lost a i e0)
  have "view w' = (view w)\<lparr>vRow := (vRow (view w))(ID a \<mapsto> a), vObj := vObj (view w)\<rparr>"
    using lost(4) by simp
  moreover have "UploadStatus a \<noteq> UploadStatusUploaded" using accepted_law [OF lost(2)] by simp
  ultimately show ?thesis using lost(1-3) same_status [of a] by blast
next
  case (created a i w1)
  let ?objs = "(vObj (view w))(S3Key a \<mapsto> \<lparr>oType = MimeType a, oData = data\<rparr>)"
  obtain rp w2 where p: "fPut (files s) (S3Key a) (MimeType a) data (SizeBytes a) w1 = (rp, w2)"
    by fastforce
  define st where "st = (case rp of Inl _ \<Rightarrow> UploadStatusFailed | Inr _ \<Rightarrow> UploadStatusUploaded)"
  have st: "st \<in> {UploadStatusUploaded, UploadStatusFailed}" by (simp add: st_def split: sum.splits)
  obtain ru w3 where u: "rSetUploadStatus (repo s) (ID a) st w2 = (ru, w3)" by fastforce
  have end': "w' = w3 \<and> ((\<exists>e. rp = Inl e) \<or> (\<exists>e. ru = Inl e))"
    using created(5) p u by (cases rp; cases ru) (auto simp: st_def split: prod.splits)
  note 2 = Upload_put [OF created(1,2) p]
  have row2: "vRow (view w2) (ID a) = Some a" using 2 created(4) by (auto simp: done_or_failed_def)
  obtain now where 3: "good w3" "done_or_failed ru (view w2) ((view w2)\<lparr>vRow := (vRow (view w2))
      (ID a \<mapsto> a\<lparr>UploadStatus := st, UpdatedAt := now\<rparr>)\<rparr>) (view w3)"
    using status_law [OF conjunct1 [OF 2] row2 st u] by blast
  have new: "UploadStatus a \<noteq> UploadStatusUploaded" using accepted_law [OF created(2)] by simp
  obtain objs where objs: "view w2 = (view w1)\<lparr>vObj := objs\<rparr>" "objs = ?objs \<or> objs = vObj (view w) \<and> st = UploadStatusFailed"
  proof -
    have "view w1 = (view w1)\<lparr>vObj := vObj (view w)\<rparr>" using created(4) by simp
    moreover have "view w2 = (view w1)\<lparr>vObj := ?objs\<rparr> \<or> view w2 = view w1 \<and> st = UploadStatusFailed"
      using 2 created(4) by (cases rp) (auto simp: st_def)
    ultimately show thesis using that by metis
  qed
  have "\<exists>y. view w3 = (view w2)\<lparr>vRow := (vRow (view w2))(ID a \<mapsto> y)\<rparr> \<and>
      (\<exists>st now. y = a\<lparr>UploadStatus := st, UpdatedAt := now\<rparr>) \<and> (UploadStatus y = st \<or> y = a)"
  proof (rule disjE [OF 3(2) [unfolded done_or_failed_def]])
    assume "(\<exists>e. ru = Inl e) \<and> view w3 = view w2"
    then show ?thesis using row2 same_status [of a] by (intro exI [of _ a]) simp
  next
    assume w3: "view w3 = (view w2)\<lparr>vRow := (vRow (view w2))
      (ID a \<mapsto> a\<lparr>UploadStatus := st, UpdatedAt := now\<rparr>)\<rparr>"
    show ?thesis
      by (intro exI [of _ "a\<lparr>UploadStatus := st, UpdatedAt := now\<rparr>"] conjI w3) auto
  qed
  then obtain y where y: "view w3 = (view w2)\<lparr>vRow := (vRow (view w2))(ID a \<mapsto> y)\<rparr>"
    "\<exists>st now. y = a\<lparr>UploadStatus := st, UpdatedAt := now\<rparr>" "UploadStatus y = st \<or> y = a"
    by blast
  have "view w' = (view w)\<lparr>vRow := (vRow (view w))(ID a \<mapsto> y), vObj := objs\<rparr>"
    using end' y(1) objs(1) created(4) by simp
  moreover have "objs = vObj (view w) \<and> UploadStatus y \<noteq> UploadStatusUploaded \<or> objs = ?objs"
    using objs(2) y(3) new by auto
  ultimately show ?thesis
    using end' 3(1) created(2,3) y(2) by blast
qed simp_all

text \<open>Deletion of a row that was found live.\<close>

lemma deleteAvatar_run:
  assumes "good w" and row: "vRow (view w) (ID a) = Some a" "live a" and run: "deleteAvatar s a w = (r, w')"
  shows "good w' \<and> (\<forall>e. r = Inl e \<longrightarrow> \<not> errors_is e ErrNotOwner) \<and>
    (r = Inr () \<longrightarrow> (\<exists>now. \<exists>msgs \<in> {[], [del_msg (delete_event a)]}.
       view w' = (view w)\<lparr>vRow := (vRow (view w))(ID a \<mapsto> deleted_at now a),
         vMsgs := vMsgs (view w) @ msgs\<rparr>)) \<and>
    (\<forall>e. r = Inl e \<longrightarrow> view w' = view w \<or>
       (\<exists>now. view w' = (view w)\<lparr>vRow := (vRow (view w))(ID a \<mapsto> deleted_at now a)\<rparr>))"
proof -
  obtain ru w1 where d: "rSoftDelete (repo s) (ID a) w = (ru, w1)" by fastforce
  from soft_delete_law [OF assms(1) row d] obtain now where 1: "good w1"
    "\<forall>e. ru = Inl e \<longrightarrow> \<not> errors_is e ErrNotOwner"
    "done_or_failed ru (view w) ((view w)\<lparr>vRow := (vRow (view w))(ID a \<mapsto> deleted_at now a)\<rparr>) (view w1)"
    by blast
  show ?thesis
  proof (cases ru)
    case (Inl e)
    then have "r = Inl e" "w' = w1" using run d by (auto simp: deleteAvatar_def Let_def)
    with 1 Inl show ?thesis by auto
  next
    case (Inr u)
    obtain rm where m: "pPublishDelete (pub s) (delete_event a) w1 = (rm, w')" and r: "r = Inr ()"
      using run d Inr by (auto simp: deleteAvatar_def delete_event_def Let_def split: prod.splits)
    have "\<exists>msgs \<in> {[], [del_msg (delete_event a)]}. view w' = (view w1)\<lparr>vMsgs := vMsgs (view w1) @ msgs\<rparr>"
      and "good w'"
      using publish_delete_law [OF 1(1) m] by (auto simp: done_or_failed_def)
    with 1(3) Inr r show ?thesis by (intro conjI impI exI [of _ now]) auto
  qed
qed

lemma Delete_run:
  assumes "good w" and "svc_Delete s i req w = (r, w')"
  shows "good w' \<and>
    (r = Inr () \<longrightarrow> (\<exists>a now. vRow (view w) (ID a) = Some a \<and> live a \<and> UserID a = req \<and>
       (\<exists>msgs \<in> {[], [del_msg (delete_event a)]}.
          view w' = (view w)\<lparr>vRow := (vRow (view w))(ID a \<mapsto> deleted_at now a),
            vMsgs := vMsgs (view w) @ msgs\<rparr>))) \<and>
    (\<forall>e. r = Inl e \<longrightarrow> view w' = view w \<or>
       (\<exists>a now. vRow (view w) (ID a) = Some a \<and> live a \<and> UserID a = req \<and> \<not> errors_is e ErrNotOwner \<and>
          view w' = (view w)\<lparr>vRow := (vRow (view w))(ID a \<mapsto> deleted_at now a)\<rparr>)) \<and>
    (\<forall>e. r = Inl e \<longrightarrow> errors_is e ErrNotOwner \<longrightarrow>
       (\<exists>a. vRow (view w) (ID a) = Some a \<and> live a \<and> UserID a \<noteq> req))"
proof -
  obtain rg w1 where g: "rGetByID (repo s) i w = (rg, w1)" by fastforce
  note 1 = row_law [OF assms(1) g]
  show ?thesis
  proof (cases rg)
    case (Inl e)
    then have "r = Inl e" "w' = w1" using assms(2) g by (simp_all add: svc_Delete_def)
    with 1 row_not_owner [OF assms(1)] g Inl show ?thesis by auto
  next
    case (Inr a)
    note found = row_found [OF assms(1) g [unfolded Inr]]
    show ?thesis
    proof (cases "UserID a = req")
      case False
      then have "r = Inl ErrNotOwner" "w' = w1" using assms(2) g Inr by (simp_all add: svc_Delete_def)
      with 1 found False show ?thesis by auto
    next
      case True
      then have run: "deleteAvatar s a w1 = (r, w')" using assms(2) g Inr by (simp add: svc_Delete_def)
      show ?thesis
        using deleteAvatar_run [OF _ _ _ run] found 1 True by (cases r) (auto; blast)+
    qed
  qed
qed

lemma GetFile_run:
  assumes "good w" and "svc_GetFile s i w = (r, w')"
  shows "good w' \<and> view w' = view w \<and>
    (\<forall>f. r = Inr f \<longrightarrow> (\<exists>a. vRow (view w) (ID a) = Some a \<and> live a \<and>
       (\<forall>x. vRow (view w) i = Some x \<longrightarrow> ID a = i) \<and> vObj (view w) (S3Key a) \<noteq> None \<and>
       fileContentType f = MimeType a \<and> fileSize f = SizeBytes a \<and>
       (\<forall>w2 d w3. good w2 \<longrightarrow> Body f w2 = ((d, None), w3) \<longrightarrow>
          (\<exists>x. vObj (view w2) (S3Key a) = Some x \<and> d = oData x)))) \<and>
    (\<forall>e x. r = Inl e \<longrightarrow> errors_is e ErrNotFound \<longrightarrow> vRow (view w) i = Some x \<longrightarrow> live x \<longrightarrow>
       vObj (view w) (S3Key x) = None)"
proof -
  obtain rg w1 where g: "rGetByID (repo s) i w = (rg, w1)" by fastforce
  note 1 = row_law [OF assms(1) g]
  show ?thesis
  proof (cases rg)
    case (Inl e)
    then have "r = Inl e" "w' = w1" using assms(2) g by (simp_all add: svc_GetFile_def)
    with 1 row_missing [OF assms(1) g [unfolded Inl]] show ?thesis by auto
  next
    case (Inr a)
    note found = row_found [OF assms(1) g [unfolded Inr]] and asked = row_asked [OF assms(1) g [unfolded Inr]]
    obtain ro where o': "fGet (files s) (S3Key a) w1 = (ro, w')"
      using assms(2) g Inr by (auto simp: svc_GetFile_def openOriginal_def split: prod.splits sum.splits if_splits)
    note 2 = get_law [OF conjunct1 [OF 1] o']
    show ?thesis
    proof (cases ro)
      case (Inl e)
      then have "r = Inl e \<or> r = Inl ErrNotFound \<and> errors_is e ErrNotFound"
        using assms(2) g Inr o' by (simp add: svc_GetFile_def openOriginal_def split: if_splits)
      with Inl 1 2 get_missing [OF conjunct1 [OF 1] o' [unfolded Inl]] asked found show ?thesis
        by (fastforce split: if_splits)
    next
      case (Inr body)
      then have r: "r = Inr \<lparr>Body = body, fileContentType = MimeType a, fileSize = SizeBytes a\<rparr>"
        using assms(2) g \<open>rg = Inr a\<close> o' by (simp add: svc_GetFile_def openOriginal_def)
      have "\<exists>x. vObj (view w2) (S3Key a) = Some x \<and> d = oData x"
        if "good w2" "body w2 = ((d, None), w3)" for w2 d w3
        using read_law [OF conjunct1 [OF 1] o' [unfolded Inr] that] by simp
      with r 1 2 found asked get_exists [OF conjunct1 [OF 1] o' [unfolded Inr]] show ?thesis
        by (intro conjI allI impI exI [of _ a]) auto
    qed
  qed
qed

lemma ThumbnailFile_run:
  assumes "good w" and "svc_ThumbnailFile s i sz w = (r, w')"
  shows "good w' \<and> view w' = view w \<and>
    (\<forall>f. r = Inr f \<longrightarrow> (\<exists>a key. vRow (view w) (ID a) = Some a \<and> live a \<and>
       (\<forall>x. vRow (view w) i = Some x \<longrightarrow> ID a = i) \<and> map_of (Thumbnails a) sz = Some key \<and>
       vObj (view w) key \<noteq> None \<and> fileContentType f = ''image/jpeg'' \<and>
       (\<forall>w2 d w3. good w2 \<longrightarrow> Body f w2 = ((d, None), w3) \<longrightarrow>
          (\<exists>x. vObj (view w2) key = Some x \<and> d = oData x)))) \<and>
    (\<forall>e x. r = Inl e \<longrightarrow> errors_is e ErrNotFound \<longrightarrow> vRow (view w) i = Some x \<longrightarrow> live x \<longrightarrow>
       (\<forall>key. map_of (Thumbnails x) sz = Some key \<longrightarrow> vObj (view w) key = None))"
proof -
  obtain rg w1 where g: "rGetByID (repo s) i w = (rg, w1)" by fastforce
  note 1 = row_law [OF assms(1) g]
  show ?thesis
  proof (cases rg)
    case (Inl e)
    then have "r = Inl e" "w' = w1" using assms(2) g by (simp_all add: svc_ThumbnailFile_def)
    with 1 row_missing [OF assms(1) g [unfolded Inl]] show ?thesis by auto
  next
    case (Inr a)
    note found = row_found [OF assms(1) g [unfolded Inr]] and asked = row_asked [OF assms(1) g [unfolded Inr]]
    show ?thesis
    proof (cases "map_of (Thumbnails a) sz")
      case None
      then have "r = Inl ErrNotFound" "w' = w1" using assms(2) g Inr by (simp_all add: svc_ThumbnailFile_def)
      with 1 found asked None show ?thesis by fastforce
    next
      case (Some key)
      obtain ro where o': "fGet (files s) key w1 = (ro, w')" and
        r: "r = (case ro of Inl e \<Rightarrow> Inl e
          | Inr body \<Rightarrow> Inr \<lparr>Body = body, fileContentType = ''image/jpeg'', fileSize = 0\<rparr>)"
        using assms(2) g Inr Some by (auto simp: svc_ThumbnailFile_def split: prod.splits sum.splits)
      note 2 = get_law [OF conjunct1 [OF 1] o']
      show ?thesis
      proof (cases ro)
        case (Inl e)
        with r 1 2 get_missing [OF conjunct1 [OF 1] o' [unfolded Inl]] asked found Some show ?thesis
          by fastforce
      next
        case (Inr body)
        have "\<exists>x. vObj (view w2) key = Some x \<and> d = oData x"
          if "good w2" "body w2 = ((d, None), w3)" for w2 d w3
          using read_law [OF conjunct1 [OF 1] o' [unfolded Inr] that] by simp
        with r Inr 1 2 found asked Some get_exists [OF conjunct1 [OF 1] o' [unfolded Inr]] show ?thesis
          by (intro conjI allI impI exI [of _ a] exI [of _ key]) auto
      qed
    qed
  qed
qed

end

subsection \<open>The service of the world\<close>

definition world_service :: "env \<Rightarrow> string \<Rightarrow> world Service" where
  "world_service E b = \<lparr>
     repo = \<lparr>rCreate = pg_Create E, rGetByID = pg_GetByID E, rLatestByUser = pg_LatestByUser E,
       rListByUser = pg_ListByUser E, rSetUploadStatus = pg_SetUploadStatus E,
       rSoftDelete = pg_SoftDelete E\<rparr>,
     files = \<lparr>fPut = s3_Put (world_store b), fGet = s3_Get (world_store b)\<rparr>,
     pub = \<lparr>pPublishUpload = pb_PublishUpload (world_publisher E),
       pPublishDelete = pb_PublishDelete (world_publisher E)\<rparr>,
     libs = \<lparr>NewString = (\<lambda>w. (uuid_gen E (next_id w), w\<lparr>next_id := Suc (next_id w)\<rparr>)),
       DecodeConfig = decode_config E, DetectContentType = detect_content_type E\<rparr>\<rparr>"

lemma world_service_sel [simp]:
  "rCreate (repo (world_service E b)) = pg_Create E"
  "rGetByID (repo (world_service E b)) = pg_GetByID E"
  "rLatestByUser (repo (world_service E b)) = pg_LatestByUser E"
  "rListByUser (repo (world_service E b)) = pg_ListByUser E"
  "rSetUploadStatus (repo (world_service E b)) = pg_SetUploadStatus E"
  "rSoftDelete (repo (world_service E b)) = pg_SoftDelete E"
  "fPut (files (world_service E b)) = s3_Put (world_store b)"
  "fGet (files (world_service E b)) = s3_Get (world_store b)"
  "pPublishUpload (pub (world_service E b)) = pb_PublishUpload (world_publisher E)"
  "pPublishDelete (pub (world_service E b)) = pb_PublishDelete (world_publisher E)"
  "NewString (libs (world_service E b)) w = (uuid_gen E (next_id w), w\<lparr>next_id := Suc (next_id w)\<rparr>)"
  "DecodeConfig (libs (world_service E b)) = decode_config E"
  "DetectContentType (libs (world_service E b)) = detect_content_type E"
  by (simp_all add: world_service_def)

interpretation svc: service_deps "good_world E" "world_view b" "world_service E b"
  "\<lambda>n a. \<exists>now. new_row E now n = Some a" "upload_message E" "delete_message E" for E b
proof (intro service_deps.intro service_deps_axioms.intro, unfold world_service_sel)
  show "object_store (good_world E) (world_view b) (s3_Put (world_store b)) (s3_Get (world_store b))"
    by (rule store.object_store_axioms)
  show "row_reader (good_world E) (world_view b) (pg_GetByID E)"
    by (rule pgrow.row_reader_axioms)
next
  fix w i w'
  assume "good_world E w" "(uuid_gen E (next_id w), w\<lparr>next_id := Suc (next_id w)\<rparr>) = (i, w')"
  then show "good_world E w' \<and> world_view b w' = world_view b w"
    by (auto simp: good_world_def quiet_def world_view_def)
next
  fix n a
  assume "\<exists>now. new_row E now n = Some a"
  then show "live a \<and> UploadStatus a = UploadStatusUploading \<and>
      ProcessingStatus a = ProcessingStatusPending \<and> Thumbnails a = [] \<and> SizeBytes a = newSizeBytes n"
    by (auto dest: new_row_fields)
next
  fix w j x st ru w'
  assume "good_world E w" "vRow (world_view b w) j = Some x"
    "st \<in> {UploadStatusUploaded, UploadStatusFailed}" "pg_SetUploadStatus E j st w = (ru, w')"
  moreover from this have "st \<in> set upload_status_enum" by (auto simp: upload_status_enum_def)
  ultimately show "good_world E w' \<and> (\<exists>now. done_or_failed ru (world_view b w)
      ((world_view b w)\<lparr>vRow := (vRow (world_view b w))
        (j \<mapsto> x\<lparr>UploadStatus := st, UpdatedAt := now\<rparr>)\<rparr>) (world_view b w'))"
    using pg_update_step [of E w j x "st \<in> set upload_status_enum" "\<lambda>_. True"
        "\<lambda>now a. a\<lparr>UploadStatus := st, UpdatedAt := now\<rparr>" ru w' b]
    by (simp add: pg_SetUploadStatus_def same_record_def)
next
  fix w j x ru w'
  assume "good_world E w" "vRow (world_view b w) j = Some x" "live x" "pg_SoftDelete E j w = (ru, w')"
  then show "good_world E w' \<and> (\<forall>e. ru = Inl e \<longrightarrow> \<not> errors_is e ErrNotOwner) \<and>
      (\<exists>now. done_or_failed ru (world_view b w)
        ((world_view b w)\<lparr>vRow := (vRow (world_view b w))(j \<mapsto> deleted_at now x)\<rparr>) (world_view b w'))"
    using pg_SoftDelete_step [of E w j x ru w' b] pg_exec_update_error
    by (auto simp: deleted_at_def pg_SoftDelete_def)
qed (rule pg_Create_step pg_LatestByUser_step pb_step; assumption)+

subsection \<open>Properties\<close>

lemma Upload_facts:
  assumes "good_world E w" and "svc_Upload (world_service E b) uid name data w = (Inr a, w')"
  shows "good_world E w' \<and> live a \<and> UploadStatus a = UploadStatusUploaded \<and>
    ProcessingStatus a = ProcessingStatusPending \<and> SizeBytes a = int (length data) \<and>
    varchar_in E 255 uid = Some (UserID a) \<and> varchar_in E 255 (truncate_name name) = Some (FileName a) \<and>
    row_of (rows (sh w)) (ID a) = None \<and>
    (\<exists>now. row_of (rows (sh w')) = (row_of (rows (sh w)))(ID a \<mapsto> a\<lparr>UpdatedAt := now\<rparr>)) \<and>
    objects b (sh w') = (objects b (sh w))(S3Key a \<mapsto> \<lparr>oType = MimeType a, oData = data\<rparr>) \<and>
    (sent (sh w') = sent (sh w) \<or> sent (sh w') = sent (sh w) @
      [upload_message E \<lparr>upAvatarID = ID a, upUserID = UserID a, upS3Key = S3Key a\<rparr>])"
proof -
  obtain x i now t msgs where good: "good_world E w'" and
    acc: "new_row E t (upload_record (world_service E b) uid name data i) = Some x" and
    a: "a = x\<lparr>UploadStatus := UploadStatusUploaded\<rparr>" and none: "vRow (world_view b w) (ID x) = None" and
    msgs: "msgs = [] \<or> msgs = [upload_message E \<lparr>upAvatarID = ID x, upUserID = UserID x, upS3Key = S3Key x\<rparr>]" and
    v: "world_view b w' = (world_view b w)\<lparr>
      vRow := (vRow (world_view b w))(ID x \<mapsto> x\<lparr>UploadStatus := UploadStatusUploaded, UpdatedAt := now\<rparr>),
      vObj := (vObj (world_view b w))(S3Key x \<mapsto> \<lparr>oType = MimeType x, oData = data\<rparr>),
      vMsgs := vMsgs (world_view b w) @ msgs\<rparr>"
    using svc.Upload_ok [OF assms] by blast
  note f = new_row_fields [OF acc]
  show ?thesis
    using world_viewD [OF v] good f a none msgs
    by (auto simp: live_def upload_record_def split: prod.splits)
qed

text \<open>
  C9: a successful Upload, whatever faults the calls met on the way, has added exactly one
  row, live, under an id the table did not have, with the status the answer shows; has
  stored exactly the client's bytes under the row's key with the detected content type;
  has changed no other row and no other object; and has handed the broker either nothing
  or exactly the one event for this row (a failed publish does not fail the upload).
\<close>

theorem upload_success:
  assumes "good_world E w" and "svc_Upload (world_service E b) uid name data w = (Inr a, w')"
  shows "good_world E w' \<and> live a \<and> UploadStatus a = UploadStatusUploaded \<and>
    ProcessingStatus a = ProcessingStatusPending \<and> SizeBytes a = int (length data) \<and>
    varchar_in E 255 uid = Some (UserID a) \<and> varchar_in E 255 (truncate_name name) = Some (FileName a) \<and>
    row_of (rows (sh w)) (ID a) = None \<and>
    (\<exists>now. row_of (rows (sh w')) = (row_of (rows (sh w)))(ID a \<mapsto> a\<lparr>UpdatedAt := now\<rparr>)) \<and>
    objects b (sh w') = (objects b (sh w))(S3Key a \<mapsto> \<lparr>oType = MimeType a, oData = data\<rparr>) \<and>
    (sent (sh w') = sent (sh w) \<or> sent (sh w') = sent (sh w) @
      [upload_message E \<lparr>upAvatarID = ID a, upUserID = UserID a, upS3Key = S3Key a\<rparr>])"
  by (rule Upload_facts [OF assms])

text \<open>
  C11: only the owner deletes. Delete changes no object, and no row but one that was live
  and belongs to the requester; a success has soft-deleted that row and handed the broker
  either nothing or the one event with the row's original key and all its thumbnail keys;
  a failure sends nothing; and the answer ErrNotOwner is given only about a live avatar of
  somebody else, without any change.
\<close>

theorem delete_owner_only:
  assumes "good_world E w" and "svc_Delete (world_service E b) i req w = (r, w')"
  shows "good_world E w' \<and> objects b (sh w') = objects b (sh w) \<and>
    (r = Inr () \<longrightarrow> (\<exists>a now. row_of (rows (sh w)) (ID a) = Some a \<and> live a \<and> UserID a = req \<and>
       row_of (rows (sh w')) = (row_of (rows (sh w)))(ID a \<mapsto> deleted_at now a) \<and>
       (sent (sh w') = sent (sh w) \<or>
        sent (sh w') = sent (sh w) @ [delete_message E (delete_event a)]))) \<and>
    (\<forall>e. r = Inl e \<longrightarrow> sent (sh w') = sent (sh w) \<and>
       (row_of (rows (sh w')) = row_of (rows (sh w)) \<or>
        \<not> errors_is e ErrNotOwner \<and> (\<exists>a now. row_of (rows (sh w)) (ID a) = Some a \<and> live a \<and>
          UserID a = req \<and> row_of (rows (sh w')) = (row_of (rows (sh w)))(ID a \<mapsto> deleted_at now a)))) \<and>
    (r = Inl ErrNotOwner \<longrightarrow> (\<exists>a. row_of (rows (sh w)) (ID a) = Some a \<and> live a \<and> UserID a \<noteq> req))"
proof -
  note run = svc.Delete_run [OF assms]
  show ?thesis
  proof (cases r)
    case (Inr u)
    then have r: "r = Inr ()" by simp
    with run obtain a now msgs where "good_world E w'" "vRow (world_view b w) (ID a) = Some a" "live a"
      "UserID a = req" "msgs \<in> {[], [delete_message E (delete_event a)]}" and
      v: "world_view b w' = (world_view b w)\<lparr>vRow := (vRow (world_view b w))(ID a \<mapsto> deleted_at now a),
         vMsgs := vMsgs (world_view b w) @ msgs\<rparr>"
      by blast
    with r world_viewD [OF v] show ?thesis by auto
  next
    case (Inl e)
    have owner: "e = ErrNotOwner \<Longrightarrow> \<exists>a. row_of (rows (sh w)) (ID a) = Some a \<and> live a \<and> UserID a \<noteq> req"
      using run Inl by auto
    from run Inl consider "world_view b w' = world_view b w" |
      (gone) a now where "row_of (rows (sh w)) (ID a) = Some a" "live a" "UserID a = req" "\<not> errors_is e ErrNotOwner"
        "world_view b w' = (world_view b w)\<lparr>vRow := (vRow (world_view b w))(ID a \<mapsto> deleted_at now a)\<rparr>"
      by auto
    then show ?thesis
    proof cases
      case 1
      with world_viewD [OF 1] Inl run owner show ?thesis by auto
    next
      case gone
      with world_viewD [OF gone(5)] Inl run owner show ?thesis by auto
    qed
  qed
qed

text \<open>
  GetFile serves the avatar asked for and changes nothing. A file it opens belongs to
  a live row, the one with the requested id where the table has that id, carries the
  stored MIME type and size, and when it has been read to the end without an error the
  bytes are those of the object under the row's key; ErrNotFound for a stored live avatar
  means its object is gone.
\<close>

theorem get_file_faithful:
  assumes "good_world E w" and "svc_GetFile (world_service E b) i w = (r, w')"
  shows "good_world E w' \<and> world_view b w' = world_view b w \<and>
    (\<forall>f. r = Inr f \<longrightarrow> (\<exists>a. row_of (rows (sh w)) (ID a) = Some a \<and> live a \<and>
       (row_of (rows (sh w)) i \<noteq> None \<longrightarrow> ID a = i) \<and> objects b (sh w) (S3Key a) \<noteq> None \<and>
       fileContentType f = MimeType a \<and> fileSize f = SizeBytes a \<and>
       (\<forall>w2 d w3. good_world E w2 \<longrightarrow> Body f w2 = ((d, None), w3) \<longrightarrow>
          (\<exists>x. objects b (sh w2) (S3Key a) = Some x \<and> d = oData x)))) \<and>
    (\<forall>e x. r = Inl e \<longrightarrow> errors_is e ErrNotFound \<longrightarrow> row_of (rows (sh w)) i = Some x \<longrightarrow> live x \<longrightarrow>
       objects b (sh w) (S3Key x) = None)"
  using svc.GetFile_run [OF assms] by auto

text \<open>
  ThumbnailFile serves thumbnails only through the row: a file it opens is the object
  under the key the live row lists for the requested size, always as image/jpeg; for a
  stored live avatar ErrNotFound means that the row lists no such size (the worker has not
  finished) or that the object is gone; nothing changes.
\<close>

theorem thumbnail_file_faithful:
  assumes "good_world E w" and "svc_ThumbnailFile (world_service E b) i sz w = (r, w')"
  shows "world_view b w' = world_view b w \<and>
    (\<forall>f. r = Inr f \<longrightarrow> (\<exists>a key. row_of (rows (sh w)) (ID a) = Some a \<and> live a \<and>
       (row_of (rows (sh w)) i \<noteq> None \<longrightarrow> ID a = i) \<and> map_of (Thumbnails a) sz = Some key \<and>
       objects b (sh w) key \<noteq> None \<and> fileContentType f = ''image/jpeg'' \<and>
       (\<forall>w2 d w3. good_world E w2 \<longrightarrow> Body f w2 = ((d, None), w3) \<longrightarrow>
          (\<exists>x. objects b (sh w2) key = Some x \<and> d = oData x)))) \<and>
    (\<forall>e x. r = Inl e \<longrightarrow> errors_is e ErrNotFound \<longrightarrow> row_of (rows (sh w)) i = Some x \<longrightarrow> live x \<longrightarrow>
       (\<forall>key. map_of (Thumbnails x) sz = Some key \<longrightarrow> objects b (sh w) key = None))"
  using svc.ThumbnailFile_run [OF assms] by auto

lemma world_Put_answered:
  assumes "script w = []" and "buckets (sh w) b = Some m" and "n = int (length d)"
  shows "s3_Put (world_store b) k ct d n w = (Inr (), w\<lparr>sh := (sh w)\<lparr>buckets := (buckets (sh w))
    (b \<mapsto> m(k \<mapsto> \<lparr>oType = ct, oData = d\<rparr>))\<rparr>\<rparr>)"
  using assms by (simp add: s3_Put_def remote_answered act_put_def)

lemma Upload_answered:
  assumes "env_ok E" and "script w = []" and "buckets (sh w) b \<noteq> None"
    and "new_row E (clock w) (upload_record (world_service E b) uid name data (uuid_gen E (next_id w))) = Some a"
    and "ID a \<notin> set (map ID (rows (sh w)))"
  shows "\<exists>w'. svc_Upload (world_service E b) uid name data w = (Inr (a\<lparr>UploadStatus := UploadStatusUploaded\<rparr>), w') \<and>
    sent (sh w') = sent (sh w) @ [upload_message E \<lparr>upAvatarID = ID a, upUserID = UserID a, upS3Key = S3Key a\<rparr>] \<and> script w' = []"
proof -
  obtain m where m: "buckets (sh w) b = Some m" using assms(3) by blast
  have size: "SizeBytes a = int (length data)" and uuid: "uuid_in E (ID a) = Some (ID a)"
    using new_row_fields [OF assms(4)] env_ok_uuid [OF assms(1)]
    by (auto simp: upload_record_def split: prod.splits)
  have "ID a \<notin> ID ` set (rows (sh w))" using assms(5) by simp
  with m size uuid assms(2,4) show ?thesis
    by (simp add: svc_Upload_def pg_Create_def remote_answered sql_insert_def scanAvatar_def
        world_Put_answered pg_SetUploadStatus_def pg_exec_def sql_update_def upload_status_enum_def Let_def
        pb_publish_remote act_publish_def)
qed

text \<open>
  Upload succeeds when every call is answered. If the values fit the columns, the id
  is new and the bucket exists, the answer is the stored row marked uploaded and exactly
  one upload event has been accepted by the broker.
\<close>

theorem upload_succeeds:
  assumes "env_ok E" and "script w = []" and "buckets (sh w) b \<noteq> None"
    and "new_row E (clock w) (upload_record (world_service E b) uid name data (uuid_gen E (next_id w))) = Some a"
    and "ID a \<notin> set (map ID (rows (sh w)))"
  shows "\<exists>w'. svc_Upload (world_service E b) uid name data w = (Inr (a\<lparr>UploadStatus := UploadStatusUploaded\<rparr>), w') \<and>
    sent (sh w') = sent (sh w) @ [upload_message E \<lparr>upAvatarID = ID a, upUserID = UserID a, upS3Key = S3Key a\<rparr>]"
  using Upload_answered [OF assms] by blast

subsection \<open>Guarantees under interference\<close>

lemma deleteAvatar_keeps_history:
  "keeps (upheld (history E)) (deleteAvatar (world_service E b) a)"
  unfolding keeps_def deleteAvatar_def Let_def world_service_sel
  by (intro allI hist.upheld_rel.keeps_rules hist.upheld_rel.I_refl pg_keeps_history pb_keeps_history)

lemma svc_keeps_history:
  "keeps (upheld (history E)) (svc_Upload (world_service E b) uid name data)"
  "keeps (upheld (history E)) (svc_Delete (world_service E b) i req)"
  "keeps (upheld (history E)) (svc_DeleteLatest (world_service E b) uid req)"
proof -
  have fresh: "keeps (upheld (history E)) (NewString (libs (world_service E b)))"
    by (simp add: keeps_def upheld_def history_refl others_keep_def)
  show "keeps (upheld (history E)) (svc_Upload (world_service E b) uid name data)"
    using fresh unfolding keeps_def [of _ "svc_Upload _ _ _ _"] svc_Upload_def
    by (intro allI hist.upheld_rel.keeps_rules hist.upheld_rel.I_refl;
        (simp add: pg_keeps_history pb_keeps_history s3_keeps_history; fail)?)
  show "keeps (upheld (history E)) (svc_Delete (world_service E b) i req)"
    unfolding keeps_def svc_Delete_def world_service_sel
    by (intro allI hist.upheld_rel.keeps_rules hist.upheld_rel.I_refl pg_keeps_history
        hist.upheld_rel.keeps_tail [OF deleteAvatar_keeps_history])
  show "keeps (upheld (history E)) (svc_DeleteLatest (world_service E b) uid req)"
    unfolding keeps_def svc_DeleteLatest_def world_service_sel
    by (intro allI hist.upheld_rel.keeps_rules hist.upheld_rel.I_refl pg_keeps_history
        hist.upheld_rel.keeps_tail [OF deleteAvatar_keeps_history])
qed

subsection \<open>Concrete runs\<close>

lemma sample_name: "truncate_name ''n'' = ''n''"
  by code_simp

lemma dec_7: "dec 7 = ''7''"
  by code_simp

lemma sample_new_row:
  "new_row sample_env 50 (upload_record (world_service sample_env ''b'') ''ann'' ''n'' ''abcd'' ''id-7'') =
   Some \<lparr>ID = ''id-7'', UserID = ''ann'', FileName = ''n'', MimeType = ''image/png'', SizeBytes = 4,
     Width = 2, Height = 2, S3Key = OriginalKey ''id-7'', Thumbnails = [], UploadStatus = ''uploading'',
     ProcessingStatus = ''pending'', CreatedAt = 50, UpdatedAt = 50, DeletedAt = None\<rparr>"
  by (simp add: new_row_def upload_record_def sample_env_def sample_name OriginalKey_def int8_ok_def int4_ok_def)

lemma sample_fresh_id: "uuid_gen sample_env (next_id (sample_world rs objs ts)) = ''id-7''"
  by (simp add: sample_env_def dec_7)

theorem file_name_fits_witness:
  "length (runes (truncate_name ''n'')) \<le> 255 \<and> truncate_name ''n'' = ''n''"
proof -
  have "length (runes ''n'') \<le> 255" by code_simp
  with file_name_fits [of "''n''"] show ?thesis by blast
qed

theorem upload_succeeds_witness:
  "\<exists>a w'. svc_Upload (world_service sample_env ''b'') ''ann'' ''n'' ''abcd''
       (sample_world sample_rows Map.empty []) = (Inr a, w') \<and>
     ID a = ''id-7'' \<and> length (sent (sh w')) = 1"
proof -
  let ?w = "sample_world sample_rows Map.empty []"
  obtain a where a: "new_row sample_env (clock ?w) (upload_record (world_service sample_env ''b'') ''ann'' ''n''
      ''abcd'' (uuid_gen sample_env (next_id ?w))) = Some a" "ID a = ''id-7''"
    by (simp add: sample_fresh_id sample_new_row del: sample_world_sel(6) One_nat_def)
  have "ID a \<notin> set (map ID (rows (sh ?w)))" using a(2) by (simp add: sample_rows_def)
  from upload_succeeds [OF sample_env_ok _ _ a(1) this] a(2) show ?thesis by fastforce
qed

theorem upload_success_witness:
  "\<exists>a w'. svc_Upload (world_service sample_env ''b'') ''ann'' ''n'' ''abcd''
       (sample_world sample_rows Map.empty []) = (Inr a, w') \<and>
     objects ''b'' (sh w') (S3Key a) = Some \<lparr>oType = MimeType a, oData = ''abcd''\<rparr> \<and> SizeBytes a = 4"
proof -
  let ?w = "sample_world sample_rows Map.empty []"
  obtain a where a: "new_row sample_env (clock ?w) (upload_record (world_service sample_env ''b'') ''ann'' ''n''
      ''abcd'' (uuid_gen sample_env (next_id ?w))) = Some a" "ID a = ''id-7''"
    by (simp add: sample_fresh_id sample_new_row del: sample_world_sel(6) One_nat_def)
  have "ID a \<notin> set (map ID (rows (sh ?w)))" using a(2) by (simp add: sample_rows_def)
  from Upload_answered [OF sample_env_ok _ _ a(1) this] obtain x w' where
    run: "svc_Upload (world_service sample_env ''b'') ''ann'' ''n'' ''abcd'' ?w = (Inr x, w')" by fastforce
  from upload_success [OF good_sample_world [OF table_ok_sample_rows] run] run show ?thesis by fastforce
qed

theorem delete_owner_only_witness:
  "\<exists>w'. svc_Delete (world_service sample_env ''b'') ''a1'' ''bob'' (sample_world sample_rows Map.empty []) =
       (Inl ErrNotOwner, w') \<and> row_of (rows (sh w')) = row_of sample_rows"
proof -
  let ?w = "sample_world sample_rows Map.empty []"
  obtain w' where run: "svc_Delete (world_service sample_env ''b'') ''a1'' ''bob'' ?w = (Inl ErrNotOwner, w')"
    by (simp add: svc_Delete_def pg_GetByID_def remote_answered sql_select_by_id_def sample_env_def
        sample_rows_def scanAvatar_def)
  from delete_owner_only [OF good_sample_world [OF table_ok_sample_rows] run] run show ?thesis by auto
qed

theorem get_file_faithful_witness:
  "\<exists>f w'. svc_GetFile (world_service sample_env ''b'') ''a1''
       (sample_world sample_rows [OriginalKey ''a1'' \<mapsto> \<lparr>oType = ''image/png'', oData = ''abcd''\<rparr>] []) = (Inr f, w') \<and>
     fileContentType f = ''image/png''"
proof -
  let ?w = "sample_world sample_rows [OriginalKey ''a1'' \<mapsto> \<lparr>oType = ''image/png'', oData = ''abcd''\<rparr>] []"
  have key: "S3Key (sample_row i t del) = OriginalKey i" and mt: "MimeType (sample_row i t del) = ''image/png''"
    for i t del by (simp_all add: sample_row_def)
  obtain f w' where run: "svc_GetFile (world_service sample_env ''b'') ''a1'' ?w = (Inr f, w')"
    by (simp add: svc_GetFile_def openOriginal_def pg_GetByID_def remote_answered sql_select_by_id_def
        sample_env_def sample_rows_def scanAvatar_def s3_Get_def world_object_def act_read_def key)
  have row: "row_of (rows (sh ?w)) ''a1'' = Some (sample_row ''a1'' 3 None)"
    by (simp add: row_of_def sample_rows_def)
  from get_file_faithful [OF good_sample_world [OF table_ok_sample_rows] run] run row show ?thesis
    by (intro exI [of _ f] exI [of _ w']) (auto simp: mt)
qed

theorem thumbnail_file_faithful_witness:
  "\<exists>f w'. svc_ThumbnailFile (world_service sample_env ''b'') ''a1'' ''100x100''
       (sample_world [(sample_row ''a1'' 3 None)\<lparr>Thumbnails := [(''100x100'', ''t'')]\<rparr>]
         [''t'' \<mapsto> \<lparr>oType = ''image/jpeg'', oData = ''j''\<rparr>] []) = (Inr f, w') \<and>
     fileContentType f = ''image/jpeg''"
proof -
  let ?r = "(sample_row ''a1'' 3 None)\<lparr>Thumbnails := [(''100x100'', ''t'')]\<rparr>"
  let ?w = "sample_world [?r] [''t'' \<mapsto> \<lparr>oType = ''image/jpeg'', oData = ''j''\<rparr>] []"
  have "row_ok sample_env ?r"
    using sample_row_ok [of "''a1''" 3 None] by (simp add: row_ok_def)
  then have good: "good_world sample_env ?w"
    by (intro good_sample_world) (simp add: table_ok_def)
  have liv: "live ?r" by (simp add: live_def)
  obtain f w' where run: "svc_ThumbnailFile (world_service sample_env ''b'') ''a1'' ''100x100'' ?w = (Inr f, w')"
    using liv by (simp add: svc_ThumbnailFile_def pg_GetByID_def remote_answered sql_select_by_id_def
        sample_env_def scanAvatar_def s3_Get_def world_object_def act_read_def)
  from thumbnail_file_faithful [OF good run] run show ?thesis
    by (intro exI [of _ f] exI [of _ w']) auto
qed

end
