(* ===== verification/Processor.thy ===== *)
theory Processor
  imports Postgres S3_Store "HOL-Library.AList"
begin

section \<open>The asynchronous jobs (internal/worker)\<close>

text \<open>
  \<^verbatim>\<open>thumbnail.go\<close> and \<^verbatim>\<open>processor.go\<close>: the thumbnails of an uploaded avatar and the clean-up
  of a deleted one, on top of the interfaces the package declares. The imaging library is
  the parameter record \<open>imaging\<close>. The deferred call of the observer runs on every return
  path: each handler is a body that returns its result and the status label, followed by
  the observation. Elapsed times, logging and spans are left out.
\<close>

subsection \<open>Thumbnails (internal/worker/thumbnail)\<close>

record 'i imaging =
  imDecode :: "bytes \<Rightarrow> 'i res"
  imFill :: "'i \<Rightarrow> int \<Rightarrow> int \<Rightarrow> 'i"
  imEncodeJPEG :: "'i \<Rightarrow> int \<Rightarrow> bytes res"

definition jpegQuality :: int where
  "jpegQuality = 85"

definition Generate :: "'i imaging \<Rightarrow> bytes \<Rightarrow> int \<Rightarrow> bytes res" where
  "Generate im src px = (case imDecode im src of
     Inl e \<Rightarrow> Inl (Wrapf ''decode image'' e)
   | Inr img \<Rightarrow>
       (case imEncodeJPEG im (imFill im img px px) jpegQuality of
          Inl e \<Rightarrow> Inl (Wrapf ''encode thumbnail'' e)
        | Inr buf \<Rightarrow> Inr buf))"

subsection \<open>Interfaces (internal/worker/processor)\<close>

record 'w ProcRepository =
  pGetByID :: "string \<Rightarrow> ('w, avatar) io"
  pSetProcessingStatus :: "string \<Rightarrow> string \<Rightarrow> ('w, unit) io"
  pSetThumbnails :: "string \<Rightarrow> (string \<times> string) list \<Rightarrow> ('w, unit) io"

record 'w ProcFileStore =
  pGet :: "string \<Rightarrow> ('w, 'w reader) io"
  pPut :: "string \<Rightarrow> string \<Rightarrow> bytes \<Rightarrow> int \<Rightarrow> ('w, unit) io"
  pDelete :: "string \<Rightarrow> ('w, unit) io"

record ('w, 'i) Processor =
  prepo :: "'w ProcRepository"
  pfiles :: "'w ProcFileStore"
  ObserveProcessed :: "string \<Rightarrow> string \<Rightarrow> 'w \<Rightarrow> 'w"
  pimaging :: "'i imaging"

abbreviation statusOK :: string where "statusOK \<equiv> ''ok''"
abbreviation statusError :: string where "statusError \<equiv> ''error''"
abbreviation statusSkipped :: string where "statusSkipped \<equiv> ''skipped''"

subsection \<open>Handlers\<close>

text \<open>
  The loop over the sizes: \<open>Inl keys\<close> when it has run to its end, \<open>Inr r\<close> when the handler
  returns \<open>r\<close> from inside it. A map assignment replaces the entry of its key.
\<close>

fun thumb_loop :: "('w, 'i) Processor \<Rightarrow> UploadEvent \<Rightarrow> bytes \<Rightarrow> (string \<times> string) list \<Rightarrow> int list \<Rightarrow>
    'w \<Rightarrow> ((string \<times> string) list + unit res) \<times> 'w" where
  "thumb_loop p ev src keys [] w = (Inl keys, w)"
| "thumb_loop p ev src keys (px # pxs) w =
     (case Generate (pimaging p) src px of
        Inl err \<Rightarrow>
          (case pSetProcessingStatus (prepo p) (upAvatarID ev) ProcessingStatusFailed w of
             (r, w1) \<Rightarrow> (Inr r, w1))
      | Inr thumb \<Rightarrow>
          (let key = ThumbnailKey (upAvatarID ev) px in
            (case pPut (pfiles p) key ''image/jpeg'' thumb (int (length thumb)) w of
               (Inl err, w1) \<Rightarrow> (Inr (Inl (Wrapf (''store thumbnail '' @ key) err)), w1)
             | (Inr _, w1) \<Rightarrow>
                 thumb_loop p ev src (AList.update (SizeName px) key keys) pxs w1)))"

definition make_thumbs :: "('w, 'i) Processor \<Rightarrow> UploadEvent \<Rightarrow> bytes \<Rightarrow> 'w \<Rightarrow> (unit res \<times> string) \<times> 'w" where
  "make_thumbs p ev src w = (case thumb_loop p ev src [] ThumbnailSizes w of
     (Inr r, w1) \<Rightarrow> ((r, statusError), w1)
   | (Inl keys, w1) \<Rightarrow>
       (case pSetThumbnails (prepo p) (upAvatarID ev) keys w1 of
          (Inl err, w2) \<Rightarrow> ((Inl err, statusError), w2)
        | (Inr _, w2) \<Rightarrow> ((Inr (), statusOK), w2)))"

definition process_avatar :: "('w, 'i) Processor \<Rightarrow> UploadEvent \<Rightarrow> 'w \<Rightarrow> (unit res \<times> string) \<times> 'w" where
  "process_avatar p ev w = (case pSetProcessingStatus (prepo p) (upAvatarID ev) ProcessingStatusProcessing w of
     (Inl err, w1) \<Rightarrow> ((Inl err, statusError), w1)
   | (Inr _, w1) \<Rightarrow>
       (case pGet (pfiles p) (upS3Key ev) w1 of
          (Inl err, w2) \<Rightarrow> ((Inl (Wrapf ''download original'' err), statusError), w2)
        | (Inr body, w2) \<Rightarrow>
            (case body w2 of
               ((src, Some err), w3) \<Rightarrow> ((Inl (Wrapf ''read original'' err), statusError), w3)
             | ((src, None), w3) \<Rightarrow> make_thumbs p ev src w3)))"

definition upload_body :: "('w, 'i) Processor \<Rightarrow> UploadEvent \<Rightarrow> 'w \<Rightarrow> (unit res \<times> string) \<times> 'w" where
  "upload_body p ev w = (case pGetByID (prepo p) (upAvatarID ev) w of
     (Inl err, w1) \<Rightarrow>
       if errors_is err ErrNotFound then ((Inr (), statusSkipped), w1)
       else ((Inl err, statusError), w1)
   | (Inr a, w1) \<Rightarrow>
       if ProcessingStatus a = ProcessingStatusCompleted \<or> ProcessingStatus a = ProcessingStatusDeleted
       then ((Inr (), statusSkipped), w1)
       else process_avatar p ev w1)"

definition HandleUpload :: "('w, 'i) Processor \<Rightarrow> UploadEvent \<Rightarrow> ('w, unit) io" where
  "HandleUpload p ev w = (case upload_body p ev w of
     ((r, status), w1) \<Rightarrow> (r, ObserveProcessed p ''upload'' status w1))"

fun delete_loop :: "('w, 'i) Processor \<Rightarrow> string list \<Rightarrow> ('w, unit) io" where
  "delete_loop p [] w = (Inr (), w)"
| "delete_loop p (key # keys) w = (case pDelete (pfiles p) key w of
     (Inl err, w1) \<Rightarrow> (Inl (Wrapf (''delete object '' @ key) err), w1)
   | (Inr _, w1) \<Rightarrow> delete_loop p keys w1)"

definition delete_body :: "('w, 'i) Processor \<Rightarrow> DeleteEvent \<Rightarrow> 'w \<Rightarrow> (unit res \<times> string) \<times> 'w" where
  "delete_body p ev w = (case delete_loop p (delS3Keys ev) w of
     (Inl err, w1) \<Rightarrow> ((Inl err, statusError), w1)
   | (Inr _, w1) \<Rightarrow>
       (case pSetProcessingStatus (prepo p) (delAvatarID ev) ProcessingStatusDeleted w1 of
          (Inl err, w2) \<Rightarrow>
            if \<not> errors_is err ErrNotFound then ((Inl err, statusError), w2)
            else ((Inr (), statusOK), w2)
        | (Inr _, w2) \<Rightarrow> ((Inr (), statusOK), w2)))"

definition HandleDelete :: "('w, 'i) Processor \<Rightarrow> DeleteEvent \<Rightarrow> ('w, unit) io" where
  "HandleDelete p ev w = (case delete_body p ev w of
     ((r, status), w1) \<Rightarrow> (r, ObserveProcessed p ''delete'' status w1))"

definition UploadFailed :: "('w, 'i) Processor \<Rightarrow> UploadEvent \<Rightarrow> 'w \<Rightarrow> 'w" where
  "UploadFailed p ev w =
     snd (pSetProcessingStatus (prepo p) (upAvatarID ev) ProcessingStatusFailed w)"

subsection \<open>The contracts the handlers rely on\<close>

lemma obj_same: "(v :: view)\<lparr>vRow := f, vObj := vObj v\<rparr> = v\<lparr>vRow := f\<rparr>"
  by (cases v) simp

lemma view_same: "vRow v i = Some x \<Longrightarrow> (v :: view)\<lparr>vRow := (vRow v)(i \<mapsto> x), vObj := vObj v\<rparr> = v"
  by (cases v) (simp add: fun_upd_idem)

lemma view_row_obj:
  "vRow v i = Some x \<Longrightarrow> (v :: view)\<lparr>vRow := (vRow v)(i \<mapsto> x), vObj := g\<rparr> = v\<lparr>vObj := g\<rparr>"
  by (cases v) (simp add: fun_upd_idem)

lemma without_insert: "- A \<inter> - {k} = - insert k A"
  by auto

text \<open>The objects once the thumbnails of the given sizes are stored, and their entries.\<close>

fun with_thumbs :: "'i imaging \<Rightarrow> string \<Rightarrow> bytes \<Rightarrow> int list \<Rightarrow> (string \<rightharpoonup> object) \<Rightarrow> (string \<rightharpoonup> object)" where
  "with_thumbs im i src [] m = m"
| "with_thumbs im i src (px # pxs) m = with_thumbs im i src pxs (case Generate im src px of
     Inl _ \<Rightarrow> m
   | Inr t \<Rightarrow> m(ThumbnailKey i px \<mapsto> \<lparr>oType = ''image/jpeg'', oData = t\<rparr>))"

definition thumb_keys :: "string \<Rightarrow> int list \<Rightarrow> (string \<times> string) list" where
  "thumb_keys i pxs = map (\<lambda>px. (SizeName px, ThumbnailKey i px)) pxs"

text \<open>
  What a handler may have done to the row it works on, the row \<open>i\<close>: its status and update
  time, and its thumbnails, but for nothing else than the full set of the avatar's own.
\<close>

definition processed_row :: "string \<Rightarrow> avatar \<Rightarrow> avatar \<Rightarrow> bool" where
  "processed_row i x y \<longleftrightarrow>
     (\<exists>ths st now. y = x\<lparr>Thumbnails := ths, ProcessingStatus := st, UpdatedAt := now\<rparr> \<and>
        ths \<in> {Thumbnails x, thumb_keys i ThumbnailSizes})"

lemma processed_row_intros [intro]:
  "processed_row i x x"
  "processed_row i x (x\<lparr>ProcessingStatus := st, UpdatedAt := now\<rparr>)"
  "processed_row i x (x\<lparr>Thumbnails := thumb_keys i ThumbnailSizes, ProcessingStatus := st, UpdatedAt := now\<rparr>)"
  unfolding processed_row_def
  by (intro exI [of _ "Thumbnails x"] exI [of _ "ProcessingStatus x"] exI [of _ "UpdatedAt x"], simp)
     (intro exI [of _ "Thumbnails x"] exI [of _ st] exI [of _ now], simp,
      intro exI [of _ "thumb_keys i ThumbnailSizes"] exI [of _ st] exI [of _ now], simp)

lemma processed_row_trans:
  assumes "processed_row i x y" and "processed_row i y z"
  shows "processed_row i x z"
proof -
  obtain ths st now where y: "y = x\<lparr>Thumbnails := ths, ProcessingStatus := st, UpdatedAt := now\<rparr>"
    "ths \<in> {Thumbnails x, thumb_keys i ThumbnailSizes}"
    using assms(1) by (auto simp only: processed_row_def)
  obtain ths' st' now' where z: "z = y\<lparr>Thumbnails := ths', ProcessingStatus := st', UpdatedAt := now'\<rparr>"
    "ths' \<in> {Thumbnails y, thumb_keys i ThumbnailSizes}"
    using assms(2) by (auto simp only: processed_row_def)
  have "z = x\<lparr>Thumbnails := ths', ProcessingStatus := st', UpdatedAt := now'\<rparr>" using y(1) z(1) by simp
  moreover have "ths' \<in> {Thumbnails x, thumb_keys i ThumbnailSizes}" using y z(2) by auto
  ultimately show ?thesis unfolding processed_row_def by blast
qed

text \<open>
  The processing status is honest: an attempt that does anything starts from a row that is
  neither completed nor deleted, and leaves it completed only when both thumbnails are made,
  stored and listed. This holds of attempts that fail, too.
\<close>

definition thumbs_made :: "'i imaging \<Rightarrow> UploadEvent \<Rightarrow> avatar \<Rightarrow> nat \<Rightarrow> bytes \<Rightarrow> bool" where
  "thumbs_made im ev y n src \<longleftrightarrow> n = length ThumbnailSizes \<and>
     (\<forall>px \<in> set ThumbnailSizes. \<exists>t. Generate im src px = Inr t) \<and>
     Thumbnails y = thumb_keys (upAvatarID ev) ThumbnailSizes"

definition honest_status :: "'i imaging \<Rightarrow> UploadEvent \<Rightarrow> avatar \<Rightarrow> avatar \<Rightarrow> nat \<Rightarrow> bytes \<Rightarrow> bool" where
  "honest_status im ev x y n src \<longleftrightarrow> y = x \<and> n = 0 \<or>
     ProcessingStatus x \<noteq> ProcessingStatusCompleted \<and> ProcessingStatus x \<noteq> ProcessingStatusDeleted \<and>
     ProcessingStatus y \<noteq> ProcessingStatusDeleted \<and>
     (ProcessingStatus y = ProcessingStatusCompleted \<longrightarrow> thumbs_made im ev y n src)"

text \<open>
  The outcome of one attempt at an upload event: the row \<open>y\<close> that was \<open>x\<close>, the number of
  thumbnails stored, the bytes they were made from, the status label and the result.
\<close>

definition upload_attempt :: "'i imaging \<Rightarrow> UploadEvent \<Rightarrow> avatar \<Rightarrow> (string \<rightharpoonup> object) \<Rightarrow>
    avatar \<Rightarrow> nat \<Rightarrow> bytes \<Rightarrow> string \<Rightarrow> unit res \<Rightarrow> bool" where
  "upload_attempt im ev x objs y n src st r \<longleftrightarrow>
     processed_row (upAvatarID ev) x y \<and> honest_status im ev x y n src \<and>
     (n = 0 \<or> (\<exists>ob. objs (upS3Key ev) = Some ob \<and> src = oData ob)) \<and>
     (st = statusOK \<and> r = Inr () \<and> live x \<and> ProcessingStatus x \<noteq> ProcessingStatusCompleted \<and>
        n = length ThumbnailSizes \<and> (\<forall>px \<in> set ThumbnailSizes. \<exists>t. Generate im src px = Inr t) \<and>
        Thumbnails y = thumb_keys (upAvatarID ev) ThumbnailSizes \<and>
        ProcessingStatus y = ProcessingStatusCompleted \<or>
      st = statusSkipped \<and> r = Inr () \<and> n = 0 \<and> y = x \<and> (live x \<longrightarrow>
        ProcessingStatus x = ProcessingStatusCompleted \<or> ProcessingStatus x = ProcessingStatusDeleted) \<or>
      st = statusError \<and>
        (live x \<and> ProcessingStatus x \<noteq> ProcessingStatusCompleted \<and>
           ProcessingStatus x \<noteq> ProcessingStatusDeleted \<or> y = x \<and> n = 0 \<and> r \<noteq> Inr ()) \<and>
        (r = Inr () \<longrightarrow> live x \<and> Thumbnails y = Thumbnails x \<and>
        ProcessingStatus y = ProcessingStatusFailed \<and> (\<exists>ob. objs (upS3Key ev) = Some ob \<and>
          (\<exists>px \<in> set ThumbnailSizes. \<exists>e. Generate im (oData ob) px = Inl e))))"

text \<open>The state an attempt leaves: the row, and the thumbnails stored so far.\<close>

definition attempt_view :: "'i imaging \<Rightarrow> UploadEvent \<Rightarrow> view \<Rightarrow> avatar \<Rightarrow> nat \<Rightarrow> bytes \<Rightarrow> view" where
  "attempt_view im ev v y n src = v\<lparr>vRow := (vRow v)(upAvatarID ev \<mapsto> y),
     vObj := with_thumbs im (upAvatarID ev) src (take n ThumbnailSizes) (vObj v)\<rparr>"

lemma attempt_view_0: "attempt_view im ev v y 0 src = v\<lparr>vRow := (vRow v)(upAvatarID ev \<mapsto> y)\<rparr>"
  by (simp only: attempt_view_def take_0 with_thumbs.simps obj_same)

lemma attempt_view_same: "vRow v (upAvatarID ev) = Some x \<Longrightarrow> attempt_view im ev v x 0 src = v"
  by (rule trans [OF attempt_view_0 view_row_same])

lemma attempt_view_row:
  "attempt_view im ev (v\<lparr>vRow := (vRow v)(upAvatarID ev \<mapsto> z)\<rparr>) y n src = attempt_view im ev v y n src"
  "(attempt_view im ev v z n src)\<lparr>vRow := (vRow (attempt_view im ev v z n src))(upAvatarID ev \<mapsto> y)\<rparr> =
     attempt_view im ev v y n src"
  "vRow (attempt_view im ev v z n src) (upAvatarID ev) = Some z"
  by (simp_all add: attempt_view_def)

locale processor_deps =
  object_store good view "pPut (pfiles p)" "pGet (pfiles p)" + row_reader good view "pGetByID (prepo p)"
  for good :: "'w \<Rightarrow> bool" and view :: "'w \<Rightarrow> view" and p :: "('w, 'i) Processor" +
  fixes known :: "string \<Rightarrow> bool"
  assumes status_law: "good w \<Longrightarrow> vRow (view w) j = Some x \<Longrightarrow> st \<in> set processing_status_enum \<Longrightarrow>
      pSetProcessingStatus (prepo p) j st w = (ru, w') \<Longrightarrow>
      good w' \<and> (\<forall>e. ru = Inl e \<longrightarrow> \<not> errors_is e ErrNotFound) \<and> (\<exists>now. done_or_failed ru (view w)
        ((view w)\<lparr>vRow := (vRow (view w))(j \<mapsto> x\<lparr>ProcessingStatus := st, UpdatedAt := now\<rparr>)\<rparr>) (view w'))"
    and status_unknown_law: "good w \<Longrightarrow> known j \<Longrightarrow> vRow (view w) j = None \<Longrightarrow>
      st \<in> set processing_status_enum \<Longrightarrow> pSetProcessingStatus (prepo p) j st w = (ru, w') \<Longrightarrow>
      good w' \<and> view w' = view w \<and> (\<exists>e. ru = Inl e)"
    and thumbnails_law: "good w \<Longrightarrow> vRow (view w) j = Some x \<Longrightarrow>
      pSetThumbnails (prepo p) j keys w = (ru, w') \<Longrightarrow>
      good w' \<and> (\<exists>now. done_or_failed ru (view w) ((view w)\<lparr>vRow := (vRow (view w))
        (j \<mapsto> x\<lparr>Thumbnails := keys, ProcessingStatus := ProcessingStatusCompleted, UpdatedAt := now\<rparr>)\<rparr>) (view w'))"
    and remove_law: "good w \<Longrightarrow> pDelete (pfiles p) k w = (ru, w') \<Longrightarrow>
      good w' \<and> done_or_failed ru (view w) ((view w)\<lparr>vObj := (vObj (view w))(k := None)\<rparr>) (view w')"
    and observe_law: "good w \<Longrightarrow> good (ObserveProcessed p ev st w) \<and>
      view (ObserveProcessed p ev st w) = (view w)\<lparr>vObs := vObs (view w) @ [(ev, st)]\<rparr>"
begin

lemma delete_loop_run:
  assumes "good w" and "delete_loop p ks w = (r, w')"
  shows "good w' \<and> (\<exists>gone. set gone \<subseteq> set ks \<and> (r = Inr () \<longrightarrow> gone = ks) \<and>
    view w' = (view w)\<lparr>vObj := (vObj (view w)) |` (- set gone)\<rparr>)"
  using assms
proof (induction ks arbitrary: w)
  case Nil
  then show ?case by (intro conjI exI [of _ "[]"]) simp_all
next
  case (Cons k ks)
  obtain ru w1 where d: "pDelete (pfiles p) k w = (ru, w1)" by fastforce
  note 1 = remove_law [OF Cons.prems(1) d]
  have drop: "(vObj v)(k := None) = (vObj v) |` (- set [k])" for v :: view
    by (auto simp: fun_eq_iff restrict_map_def)
  show ?case
  proof (cases ru)
    case (Inl e)
    then have r: "r = Inl (Wrapf (''delete object '' @ k) e)" "w' = w1" using Cons.prems(2) d by simp_all
    from 1 Inl consider "view w1 = view w" | "view w1 = (view w)\<lparr>vObj := (vObj (view w)) |` (- set [k])\<rparr>"
      by (auto simp: drop)
    then show ?thesis
    proof cases
      case 1
      with r \<open>good w1 \<and> _\<close> show ?thesis by (intro conjI exI [of _ "[]"]) simp_all
    next
      case 2
      with r \<open>good w1 \<and> _\<close> show ?thesis by (intro conjI exI [of _ "[k]"]) simp_all
    qed
  next
    case (Inr u)
    then have v1: "view w1 = (view w)\<lparr>vObj := (vObj (view w)) |` (- set [k])\<rparr>" using 1 by (simp add: drop)
    have "delete_loop p ks w1 = (r, w')" using Cons.prems(2) d Inr by simp
    from Cons.IH [OF conjunct1 [OF 1] this] obtain gone where "good w'" "set gone \<subseteq> set ks" "r = Inr () \<longrightarrow> gone = ks"
      "view w' = (view w1)\<lparr>vObj := (vObj (view w1)) |` (- set gone)\<rparr>" by blast
    with v1 show ?thesis
      by (intro conjI exI [of _ "k # gone"]) (auto simp: without_insert Int_commute [of "- {k}"])
  qed
qed

lemma HandleDelete_run:
  assumes "good w" and row: "vRow (view w) (delAvatarID ev) = Some x" and "HandleDelete p ev w = (r, w')"
  shows "good w' \<and> (\<exists>st gone y.
    view w' = (view w)\<lparr>vRow := (vRow (view w))(delAvatarID ev \<mapsto> y), vObj := (vObj (view w)) |` (- set gone),
      vObs := vObs (view w) @ [(''delete'', st)]\<rparr> \<and> set gone \<subseteq> set (delS3Keys ev) \<and>
    (y = x \<or> (\<exists>now. y = x\<lparr>ProcessingStatus := ProcessingStatusDeleted, UpdatedAt := now\<rparr>)) \<and>
    (r = Inr () \<longrightarrow> st = statusOK \<and> gone = delS3Keys ev \<and> ProcessingStatus y = ProcessingStatusDeleted) \<and>
    ((\<exists>e. r = Inl e) \<longrightarrow> st = statusError))"
proof -
  obtain rd st w1 where b: "delete_body p ev w = ((rd, st), w1)" by (metis prod.exhaust)
  then have r: "r = rd" "w' = ObserveProcessed p ''delete'' st w1"
    using assms(3) by (simp_all add: HandleDelete_def)
  obtain rl w0 where l: "delete_loop p (delS3Keys ev) w = (rl, w0)" by fastforce
  obtain gone where 0: "good w0" "set gone \<subseteq> set (delS3Keys ev)" "rl = Inr () \<longrightarrow> gone = delS3Keys ev"
    "view w0 = (view w)\<lparr>vObj := (vObj (view w)) |` (- set gone)\<rparr>"
    using delete_loop_run [OF assms(1) l] by blast
  show ?thesis
  proof (cases rl)
    case (Inl e)
    then have "rd = Inl e" "st = statusError" "w1 = w0" using b l by (simp_all add: delete_body_def)
    with 0 r observe_law [OF 0(1), of "''delete''" st] row show ?thesis
      by (intro conjI exI [of _ st] exI [of _ gone] exI [of _ x]) (simp_all add: fun_upd_idem)
  next
    case (Inr u)
    have row0: "vRow (view w0) (delAvatarID ev) = Some x" using 0(4) row by simp
    obtain ru where s: "pSetProcessingStatus (prepo p) (delAvatarID ev) ProcessingStatusDeleted w0 = (ru, w1)"
      and rs: "rd = ru" "st = (case ru of Inl _ \<Rightarrow> statusError | Inr _ \<Rightarrow> statusOK)"
    proof -
      obtain ru w2 where s: "pSetProcessingStatus (prepo p) (delAvatarID ev) ProcessingStatusDeleted w0 = (ru, w2)"
        by fastforce
      from status_law [OF 0(1) row0 _ this]
      have "\<forall>e. ru = Inl e \<longrightarrow> \<not> errors_is e ErrNotFound" by (simp add: processing_status_enum_def)
      with s b l Inr that show thesis
        by (cases ru) (auto simp: delete_body_def split: if_splits)
    qed
    obtain now where 1: "good w1" "done_or_failed ru (view w0) ((view w0)\<lparr>vRow := (vRow (view w0))
        (delAvatarID ev \<mapsto> x\<lparr>ProcessingStatus := ProcessingStatusDeleted, UpdatedAt := now\<rparr>)\<rparr>) (view w1)"
      using status_law [OF 0(1) row0 _ s] by (auto simp: processing_status_enum_def)
    obtain y where v1: "view w1 = (view w0)\<lparr>vRow := (vRow (view w0))(delAvatarID ev \<mapsto> y)\<rparr>"
      and y: "y = x\<lparr>ProcessingStatus := ProcessingStatusDeleted, UpdatedAt := now\<rparr> \<or> y = x \<and> (\<exists>e. ru = Inl e)"
      by (rule row_outcome [OF row0 1(2)])
    have v': "view w' = (view w)\<lparr>vRow := (vRow (view w))(delAvatarID ev \<mapsto> y),
        vObj := (vObj (view w)) |` (- set gone), vObs := vObs (view w) @ [(''delete'', st)]\<rparr>"
      using 0(4) v1 r(2) observe_law [OF 1(1), of "''delete''" st] by simp
    have "r = Inr () \<longrightarrow> st = statusOK \<and> gone = delS3Keys ev \<and> ProcessingStatus y = ProcessingStatusDeleted"
      using y rs r(1) 0(3) Inr by auto
    moreover have "(\<exists>e. r = Inl e) \<longrightarrow> st = statusError" using rs r(1) by auto
    moreover have "good w'" using observe_law [OF 1(1)] r(2) by simp
    ultimately show ?thesis using v' y 0(2) by blast
  qed
qed

lemma thumb_loop_run:
  assumes "good w" and "vRow (view w) (upAvatarID ev) = Some x" and "thumb_loop p ev src keys pxs w = (res, w')"
  shows "good w' \<and> (\<exists>n y. view w' = (view w)\<lparr>vRow := (vRow (view w))(upAvatarID ev \<mapsto> y),
      vObj := with_thumbs (pimaging p) (upAvatarID ev) src (take n pxs) (vObj (view w))\<rparr> \<and>
    (\<forall>keys'. res = Inl keys' \<longrightarrow> y = x \<and> take n pxs = pxs \<and> (\<forall>px \<in> set pxs. \<exists>t. Generate (pimaging p) src px = Inr t) \<and>
       keys' = foldl (\<lambda>ks px. AList.update (SizeName px) (ThumbnailKey (upAvatarID ev) px) ks) keys pxs) \<and>
    (res = Inr (Inr ()) \<longrightarrow> (\<exists>px \<in> set pxs. \<exists>e. Generate (pimaging p) src px = Inl e) \<and>
       (\<exists>now. y = x\<lparr>ProcessingStatus := ProcessingStatusFailed, UpdatedAt := now\<rparr>)) \<and>
    (y = x \<or> (\<exists>now. y = x\<lparr>ProcessingStatus := ProcessingStatusFailed, UpdatedAt := now\<rparr>)))"
  using assms
proof (induction pxs arbitrary: w keys)
  case Nil
  then have res: "res = Inl keys" "w' = w" by simp_all
  have "view w' = (view w)\<lparr>vRow := (vRow (view w))(upAvatarID ev \<mapsto> x),
      vObj := with_thumbs (pimaging p) (upAvatarID ev) src (take 0 []) (vObj (view w))\<rparr>"
    by (simp only: take_0 with_thumbs.simps view_same [OF Nil.prems(2)] res)
  with res Nil.prems(1) show ?case by (intro conjI exI [of _ 0] exI [of _ x]) (assumption | simp)+
next
  case (Cons px pxs)
  let ?i = "upAvatarID ev"
  show ?case
  proof (cases "Generate (pimaging p) src px")
    case (Inl e)
    obtain ru where s: "pSetProcessingStatus (prepo p) ?i ProcessingStatusFailed w = (ru, w')" "res = Inr ru"
      using Cons.prems(3) Inl by (auto split: prod.splits)
    obtain now where 1: "good w'" "done_or_failed ru (view w) ((view w)\<lparr>vRow := (vRow (view w))
        (?i \<mapsto> x\<lparr>ProcessingStatus := ProcessingStatusFailed, UpdatedAt := now\<rparr>)\<rparr>) (view w')"
      using status_law [OF Cons.prems(1,2) _ s(1)] by (auto simp: processing_status_enum_def)
    obtain y where v': "view w' = (view w)\<lparr>vRow := (vRow (view w))(?i \<mapsto> y)\<rparr>" and
      y: "y = x\<lparr>ProcessingStatus := ProcessingStatusFailed, UpdatedAt := now\<rparr> \<or> y = x \<and> (\<exists>e. ru = Inl e)"
      by (rule row_outcome [OF Cons.prems(2) 1(2)])
    have "view w' = (view w)\<lparr>vRow := (vRow (view w))(?i \<mapsto> y),
        vObj := with_thumbs (pimaging p) ?i src (take 0 (px # pxs)) (vObj (view w))\<rparr>"
      by (simp only: take_0 with_thumbs.simps obj_same v')
    with 1(1) s(2) Inl y show ?thesis
      by (intro conjI exI [of _ 0] exI [of _ y]) (assumption | auto)+
  next
    case (Inr t)
    let ?key = "ThumbnailKey ?i px"
    obtain ru w1 where u: "pPut (pfiles p) ?key ''image/jpeg'' t (int (length t)) w = (ru, w1)" by fastforce
    note 1 = put_law [OF Cons.prems(1) refl u]
    let ?v = "(view w)\<lparr>vObj := (vObj (view w))(?key \<mapsto> \<lparr>oType = ''image/jpeg'', oData = t\<rparr>)\<rparr>"
    show ?thesis
    proof (cases ru)
      case (Inl e)
      then have res: "res = Inr (Inl (Wrapf (''store thumbnail '' @ ?key) e))" "w' = w1"
        using Cons.prems(3) u Inr by (simp_all add: Let_def)
      from 1 Inl consider "view w1 = view w" | "view w1 = ?v" by auto
      then show ?thesis
      proof cases
        case 1
        have "view w' = (view w)\<lparr>vRow := (vRow (view w))(?i \<mapsto> x),
            vObj := with_thumbs (pimaging p) ?i src (take 0 (px # pxs)) (vObj (view w))\<rparr>"
          by (simp only: take_0 with_thumbs.simps view_same [OF Cons.prems(2)] res 1)
        with res \<open>good w1 \<and> _\<close> show ?thesis
          by (intro conjI exI [of _ 0] exI [of _ x]) (assumption | simp)+
      next
        case 2
        have "view w' = (view w)\<lparr>vRow := (vRow (view w))(?i \<mapsto> x),
            vObj := with_thumbs (pimaging p) ?i src (take (Suc 0) (px # pxs)) (vObj (view w))\<rparr>"
          by (simp only: take_Suc_Cons take_0 with_thumbs.simps Inr sum.case view_row_obj [OF Cons.prems(2)] res 2)
        with res \<open>good w1 \<and> _\<close> show ?thesis
          by (intro conjI exI [of _ "Suc 0"] exI [of _ x]) (assumption | simp)+
      qed
    next
      case ok: (Inr u')
      have run: "thumb_loop p ev src (AList.update (SizeName px) ?key keys) pxs w1 = (res, w')"
        using Cons.prems(3) u Inr ok by (simp add: Let_def)
      have v1: "view w1 = ?v" using 1 ok by simp
      then have "vRow (view w1) ?i = Some x" using Cons.prems(2) by simp
      from Cons.IH [OF conjunct1 [OF 1] this run] obtain n y where ih: "good w'"
        "view w' = (view w1)\<lparr>vRow := (vRow (view w1))(?i \<mapsto> y),
           vObj := with_thumbs (pimaging p) ?i src (take n pxs) (vObj (view w1))\<rparr>"
        "\<forall>keys'. res = Inl keys' \<longrightarrow> y = x \<and> take n pxs = pxs \<and> (\<forall>px \<in> set pxs. \<exists>t. Generate (pimaging p) src px = Inr t) \<and>
           keys' = foldl (\<lambda>ks px. AList.update (SizeName px) (ThumbnailKey ?i px) ks)
             (AList.update (SizeName px) ?key keys) pxs"
        "res = Inr (Inr ()) \<longrightarrow> (\<exists>px \<in> set pxs. \<exists>e. Generate (pimaging p) src px = Inl e) \<and>
           (\<exists>now. y = x\<lparr>ProcessingStatus := ProcessingStatusFailed, UpdatedAt := now\<rparr>)"
        "y = x \<or> (\<exists>now. y = x\<lparr>ProcessingStatus := ProcessingStatusFailed, UpdatedAt := now\<rparr>)"
        by blast
      have "view w' = (view w)\<lparr>vRow := (vRow (view w))(?i \<mapsto> y),
          vObj := with_thumbs (pimaging p) ?i src (take (Suc n) (px # pxs)) (vObj (view w))\<rparr>"
        using ih(2) v1 Inr by simp
      with ih(1,3-5) Inr show ?thesis
        by (intro conjI exI [of _ "Suc n"] exI [of _ y]) (assumption | auto)+
    qed
  qed
qed

lemma make_thumbs_run:
  assumes "good w" and row: "vRow (view w) (upAvatarID ev) = Some x" and "make_thumbs p ev src w = ((r, st), w')"
  shows "good w' \<and> (\<exists>y n. view w' = attempt_view (pimaging p) ev (view w) y n src \<and> processed_row (upAvatarID ev) x y \<and>
    (y = x \<or> ProcessingStatus y = ProcessingStatusFailed \<or>
       ProcessingStatus y = ProcessingStatusCompleted \<and> thumbs_made (pimaging p) ev y n src) \<and>
    (st = statusOK \<and> r = Inr () \<and> n = length ThumbnailSizes \<and>
       (\<forall>px \<in> set ThumbnailSizes. \<exists>t. Generate (pimaging p) src px = Inr t) \<and>
       Thumbnails y = thumb_keys (upAvatarID ev) ThumbnailSizes \<and> ProcessingStatus y = ProcessingStatusCompleted \<or>
     st = statusError \<and> (r = Inr () \<longrightarrow> Thumbnails y = Thumbnails x \<and> ProcessingStatus y = ProcessingStatusFailed \<and>
       (\<exists>px \<in> set ThumbnailSizes. \<exists>e. Generate (pimaging p) src px = Inl e))))"
proof -
  let ?i = "upAvatarID ev"
  obtain res w1 where l: "thumb_loop p ev src [] ThumbnailSizes w = (res, w1)" by fastforce
  from thumb_loop_run [OF assms(1) row l] obtain n y where 1: "good w1"
    "view w1 = attempt_view (pimaging p) ev (view w) y n src"
    "\<forall>keys'. res = Inl keys' \<longrightarrow> y = x \<and> take n ThumbnailSizes = ThumbnailSizes \<and>
       (\<forall>px \<in> set ThumbnailSizes. \<exists>t. Generate (pimaging p) src px = Inr t) \<and>
       keys' = foldl (\<lambda>ks px. AList.update (SizeName px) (ThumbnailKey ?i px) ks) [] ThumbnailSizes"
    "res = Inr (Inr ()) \<longrightarrow> (\<exists>px \<in> set ThumbnailSizes. \<exists>e. Generate (pimaging p) src px = Inl e) \<and>
       (\<exists>now. y = x\<lparr>ProcessingStatus := ProcessingStatusFailed, UpdatedAt := now\<rparr>)"
    "y = x \<or> (\<exists>now. y = x\<lparr>ProcessingStatus := ProcessingStatusFailed, UpdatedAt := now\<rparr>)"
    unfolding attempt_view_def by blast
  show ?thesis
  proof (cases res)
    case (Inr r')
    then have "w' = w1" "r = r'" "st = statusError" using assms(3) l by (auto simp: make_thumbs_def)
    moreover have "processed_row ?i x y" "y = x \<or> ProcessingStatus y = ProcessingStatusFailed" using 1(5) by auto
    moreover have "r = Inr () \<longrightarrow> Thumbnails y = Thumbnails x \<and> ProcessingStatus y = ProcessingStatusFailed \<and>
        (\<exists>px \<in> set ThumbnailSizes. \<exists>e. Generate (pimaging p) src px = Inl e)"
      using 1(4) Inr \<open>r = r'\<close> by auto
    ultimately show ?thesis using 1(1,2) by blast
  next
    case (Inl keys)
    note 2 = 1(3) [rule_format, OF Inl]
    have keys: "keys = thumb_keys ?i ThumbnailSizes"
      using 2 by (simp add: thumb_keys_def ThumbnailSizes_def)
    have v1: "view w1 = attempt_view (pimaging p) ev (view w) x (length ThumbnailSizes) src"
      using 1(2) 2 by (simp add: attempt_view_def)
    obtain ru w2 where s: "pSetThumbnails (prepo p) ?i keys w1 = (ru, w2)" by fastforce
    have row1: "vRow (view w1) ?i = Some x" by (simp add: v1 attempt_view_row)
    obtain now where 3: "good w2" "done_or_failed ru (view w1) ((view w1)\<lparr>vRow := (vRow (view w1))
        (?i \<mapsto> x\<lparr>Thumbnails := keys, ProcessingStatus := ProcessingStatusCompleted, UpdatedAt := now\<rparr>)\<rparr>) (view w2)"
      using thumbnails_law [OF 1(1) row1 s] by auto
    obtain z where z: "view w2 = (view w1)\<lparr>vRow := (vRow (view w1))(?i \<mapsto> z)\<rparr>"
      "z = x\<lparr>Thumbnails := keys, ProcessingStatus := ProcessingStatusCompleted, UpdatedAt := now\<rparr> \<or>
       z = x \<and> (\<exists>e. ru = Inl e)"
      by (rule row_outcome [OF row1 3(2)])
    have "view w2 = attempt_view (pimaging p) ev (view w) z (length ThumbnailSizes) src"
      by (simp only: z(1) v1 attempt_view_row)
    moreover have "w' = w2" "r = ru" "st = (case ru of Inl _ \<Rightarrow> statusError | Inr _ \<Rightarrow> statusOK)"
      using assms(3) l Inl s by (auto simp: make_thumbs_def split: sum.splits)
    moreover have "processed_row ?i x z" using z(2) keys by auto
    moreover have "z = x \<or> ProcessingStatus z = ProcessingStatusCompleted \<and> thumbs_made (pimaging p) ev z (length ThumbnailSizes) src"
      using z(2) keys 2 by (auto simp: thumbs_made_def)
    moreover have "st = statusOK \<and> r = Inr () \<and>
       (\<forall>px \<in> set ThumbnailSizes. \<exists>t. Generate (pimaging p) src px = Inr t) \<and>
       Thumbnails z = thumb_keys ?i ThumbnailSizes \<and> ProcessingStatus z = ProcessingStatusCompleted \<or>
      st = statusError \<and> r \<noteq> Inr ()"
      using calculation(2-4) 2 keys z(2) by (cases ru) auto
    ultimately show ?thesis using 3(1) by blast
  qed
qed

lemma process_avatar_run:
  assumes "good w" and row: "vRow (view w) (upAvatarID ev) = Some x" and "live x"
    and new: "ProcessingStatus x \<noteq> ProcessingStatusCompleted" "ProcessingStatus x \<noteq> ProcessingStatusDeleted"
    and run: "process_avatar p ev w = ((r, st), w')"
  shows "good w' \<and> (\<exists>y n src. view w' = attempt_view (pimaging p) ev (view w) y n src \<and>
    upload_attempt (pimaging p) ev x (vObj (view w)) y n src st r)"
proof -
  let ?i = "upAvatarID ev" and ?att = "upload_attempt (pimaging p) ev x (vObj (view w))"
  obtain ru w1 where s: "pSetProcessingStatus (prepo p) ?i ProcessingStatusProcessing w = (ru, w1)" by fastforce
  obtain now where 1: "good w1" "done_or_failed ru (view w) ((view w)\<lparr>vRow := (vRow (view w))
      (?i \<mapsto> x\<lparr>ProcessingStatus := ProcessingStatusProcessing, UpdatedAt := now\<rparr>)\<rparr>) (view w1)"
    using status_law [OF assms(1) row _ s] by (auto simp: processing_status_enum_def)
  obtain y where v1: "view w1 = (view w)\<lparr>vRow := (vRow (view w))(?i \<mapsto> y)\<rparr>" and
    y: "y = x\<lparr>ProcessingStatus := ProcessingStatusProcessing, UpdatedAt := now\<rparr> \<or> y = x \<and> (\<exists>e. ru = Inl e)"
    by (rule row_outcome [OF row 1(2)])
  have p1: "processed_row ?i x y" and t1: "Thumbnails y = Thumbnails x" using y by auto
  have y0: "honest_status (pimaging p) ev x y 0 []" and
    open_y: "ProcessingStatus y \<notin> {ProcessingStatusCompleted, ProcessingStatusDeleted}"
    using y new by (auto simp: honest_status_def)
  have failed: "?thesis" if "good w'" "view w' = view w1" "r = Inl e" "st = statusError" for e
  proof -
    have "?att y 0 [] st r" using that p1 new assms(3) y0 by (simp add: upload_attempt_def)
    with that(1,2) v1 attempt_view_0 show ?thesis by metis
  qed
  show ?thesis
  proof (cases ru)
    case (Inl e)
    then have "w' = w1" "r = Inl e" "st = statusError" using run s by (simp_all add: process_avatar_def)
    with 1(1) show ?thesis by (intro failed) simp_all
  next
    case ok: (Inr u)
    obtain ro w2 where o': "pGet (pfiles p) (upS3Key ev) w1 = (ro, w2)" by fastforce
    note 2 = get_law [OF 1(1) o']
    show ?thesis
    proof (cases ro)
      case (Inl e)
      then have "w' = w2" "r = Inl (Wrapf ''download original'' e)" "st = statusError"
        using run s ok o' by (simp_all add: process_avatar_def)
      with 2 show ?thesis by (intro failed) simp_all
    next
      case rd: (Inr body)
      obtain src err w3 where b: "body w2 = ((src, err), w3)" by (metis prod.exhaust)
      note 3 = read_law [OF 1(1) o' [unfolded rd] conjunct1 [OF 2] b]
      show ?thesis
      proof (cases err)
        case (Some e)
        then have "w' = w3" "r = Inl (Wrapf ''read original'' e)" "st = statusError"
          using run s ok o' rd b by (simp_all add: process_avatar_def)
        with 2 3 show ?thesis by (intro failed) simp_all
      next
        case None
        then have m: "make_thumbs p ev src w3 = ((r, st), w')"
          using run s ok o' rd b by (simp add: process_avatar_def)
        have v3: "view w3 = (view w)\<lparr>vRow := (vRow (view w))(?i \<mapsto> y)\<rparr>" using 2 3 v1 by simp
        have src: "\<exists>ob. vObj (view w) (upS3Key ev) = Some ob \<and> src = oData ob" using 3 None 2 v1 by auto
        have "vRow (view w3) ?i = Some y" by (simp add: v3)
        note mt = make_thumbs_run [OF conjunct1 [OF 3] this m]
        obtain z n where z: "good w'"
          "view w' = attempt_view (pimaging p) ev (view w) z n src" "processed_row ?i y z"
          "z = y \<or> ProcessingStatus z = ProcessingStatusFailed \<or>
             ProcessingStatus z = ProcessingStatusCompleted \<and> thumbs_made (pimaging p) ev z n src"
          "st = statusOK \<and> r = Inr () \<and> n = length ThumbnailSizes \<and>
             (\<forall>px \<in> set ThumbnailSizes. \<exists>t. Generate (pimaging p) src px = Inr t) \<and>
             Thumbnails z = thumb_keys ?i ThumbnailSizes \<and> ProcessingStatus z = ProcessingStatusCompleted \<or>
           st = statusError \<and> (r = Inr () \<longrightarrow> Thumbnails z = Thumbnails y \<and> ProcessingStatus z = ProcessingStatusFailed \<and>
             (\<exists>px \<in> set ThumbnailSizes. \<exists>e. Generate (pimaging p) src px = Inl e))"
          using mt unfolding v3 attempt_view_row by blast
        have "honest_status (pimaging p) ev x z n src"
          using z(4) open_y new unfolding honest_status_def by (elim disjE conjE) simp_all
        then have "?att z n src st r"
          using z(5) src processed_row_trans [OF p1 z(3)] assms(3) new t1 by (auto simp: upload_attempt_def)
        with z(1,2) show ?thesis by blast
      qed
    qed
  qed
qed

lemma HandleUpload_run:
  assumes "good w" and row: "vRow (view w) (upAvatarID ev) = Some x" and "HandleUpload p ev w = (r, w')"
  shows "good w' \<and> (\<exists>y n src st. view w' = (attempt_view (pimaging p) ev (view w) y n src)\<lparr>vObs := vObs (view w) @ [(''upload'', st)]\<rparr> \<and>
    upload_attempt (pimaging p) ev x (vObj (view w)) y n src st r)"
proof -
  obtain st w1 where b: "upload_body p ev w = ((r, st), w1)" and w': "w' = ObserveProcessed p ''upload'' st w1"
    using assms(3) by (auto simp: HandleUpload_def split: prod.splits)
  obtain rg w0 where g: "pGetByID (prepo p) (upAvatarID ev) w = (rg, w0)" by fastforce
  note 0 = row_law [OF assms(1) g]
  have same: "attempt_view (pimaging p) ev (view w) x 0 [] = view w" by (rule attempt_view_same [OF row])
  have "good w1 \<and> (\<exists>y n src. view w1 = attempt_view (pimaging p) ev (view w) y n src \<and>
      upload_attempt (pimaging p) ev x (vObj (view w)) y n src st r)"
  proof (cases rg)
    case (Inl e)
    then have "upload_attempt (pimaging p) ev x (vObj (view w)) x 0 [] st r \<and> w1 = w0"
      using b g row_missing [OF assms(1) g [unfolded Inl] _ row]
      by (auto simp: upload_body_def upload_attempt_def honest_status_def split: if_splits)
    with 0 same show ?thesis by metis
  next
    case (Inr a)
    then have a: "a = x" "live x"
      using row_found [OF assms(1) g [unfolded Inr]] row_asked [OF assms(1) g [unfolded Inr] row] row by auto
    show ?thesis
    proof (cases "ProcessingStatus x = ProcessingStatusCompleted \<or> ProcessingStatus x = ProcessingStatusDeleted")
      case True
      then have "upload_attempt (pimaging p) ev x (vObj (view w)) x 0 [] st r \<and> w1 = w0"
        using b g Inr a by (auto simp: upload_body_def upload_attempt_def honest_status_def)
      with 0 same show ?thesis by metis
    next
      case False
      then have run: "process_avatar p ev w0 = ((r, st), w1)" using b g Inr a by (simp add: upload_body_def)
      have "vRow (view w0) (upAvatarID ev) = Some x" using 0 row by simp
      from process_avatar_run [OF conjunct1 [OF 0] this a(2) _ _ run] False 0 show ?thesis by auto
    qed
  qed
  then obtain y n src where "good w1" "view w1 = attempt_view (pimaging p) ev (view w) y n src"
    "upload_attempt (pimaging p) ev x (vObj (view w)) y n src st r" by blast
  moreover from this have "vObs (view w1) = vObs (view w)" by (simp add: attempt_view_def)
  ultimately show ?thesis
    using observe_law [of w1 "''upload''" st] w' by metis
qed

end

subsection \<open>The processor of the world\<close>

definition world_processor :: "env \<Rightarrow> string \<Rightarrow> (world, bytes) Processor" where
  "world_processor E b = \<lparr>
     prepo = \<lparr>pGetByID = pg_GetByID E, pSetProcessingStatus = pg_SetProcessingStatus E,
       pSetThumbnails = pg_SetThumbnails E\<rparr>,
     pfiles = \<lparr>pGet = s3_Get (world_store b), pPut = s3_Put (world_store b), pDelete = s3_Delete (world_store b)\<rparr>,
     ObserveProcessed = (\<lambda>ev st w. w\<lparr>observed := observed w @ [(ev, st)]\<rparr>),
     pimaging = \<lparr>imDecode = im_decode E, imFill = im_fill E, imEncodeJPEG = im_encode E\<rparr>\<rparr>"

lemma world_processor_sel [simp]:
  "pGetByID (prepo (world_processor E b)) = pg_GetByID E"
  "pSetProcessingStatus (prepo (world_processor E b)) = pg_SetProcessingStatus E"
  "pSetThumbnails (prepo (world_processor E b)) = pg_SetThumbnails E"
  "pGet (pfiles (world_processor E b)) = s3_Get (world_store b)"
  "pPut (pfiles (world_processor E b)) = s3_Put (world_store b)"
  "pDelete (pfiles (world_processor E b)) = s3_Delete (world_store b)"
  "ObserveProcessed (world_processor E b) ev st w = w\<lparr>observed := observed w @ [(ev, st)]\<rparr>"
  by (simp_all add: world_processor_def)

definition world_imaging :: "env \<Rightarrow> bytes imaging" where
  "world_imaging E = \<lparr>imDecode = im_decode E, imFill = im_fill E, imEncodeJPEG = im_encode E\<rparr>"

lemma pimaging_world [simp]: "pimaging (world_processor E b) = world_imaging E"
  by (simp add: world_processor_def world_imaging_def)

text \<open>
  The same processor over the client that reports missing keys: it is the same function of
  the world, so what holds of one kind of service holds of the other.
\<close>

definition reporting_processor :: "env \<Rightarrow> string \<Rightarrow> (world, bytes) Processor" where
  "reporting_processor E b = (world_processor E b)\<lparr>pfiles :=
     \<lparr>pGet = s3_Get (reporting_store b), pPut = s3_Put (reporting_store b), pDelete = s3_Delete (reporting_store b)\<rparr>\<rparr>"

lemma reporting_processor_same: "reporting_processor E b = world_processor E b"
proof -
  have "s3_Get (reporting_store b) k w = s3_Get (world_store b) k w"
    "s3_Put (reporting_store b) k ct d n w = s3_Put (world_store b) k ct d n w" for k ct d n w
    by (simp_all add: s3_Get_def s3_Put_def reporting_store_def)
  then have "s3_Get (reporting_store b) = s3_Get (world_store b)" "s3_Put (reporting_store b) = s3_Put (world_store b)"
    "s3_Delete (reporting_store b) = s3_Delete (world_store b)"
    by (simp_all add: fun_eq_iff s3_Delete_reporting)
  then show ?thesis by (simp only: reporting_processor_def) (simp add: world_processor_def)
qed

lemma pg_status_error:
  assumes "good_world E w" and row: "row_of (rows (sh w)) j = Some x"
    and "pg_exec (sql_update E j True (\<lambda>_. True) upd) w = (Inl e, w')"
  shows "\<not> errors_is e ErrNotFound"
proof -
  obtain q where q: "remote (sql_update E j True (\<lambda>_. True) upd) w = (q, w')"
    using assms(3) by (auto simp: pg_exec_def split: prod.splits sum.splits if_splits)
  obtain out w1 where t: "take_turn w = (out, w1)" by fastforce
  have "sh w1 = sh w" using take_turn_quiet [OF good_worldD(2) [OF assms(1)] t] by simp
  then have "q = Inr 1 \<or> (\<exists>n. q = Inl (Net n))"
    using q t filter_row_of [OF good_worldD(4) [OF assms(1)] row, of "\<lambda>_. True"] uuid_of_row [OF assms(1) row]
    by (cases out) (auto simp: remote_def sql_update_def Let_def split: prod.splits)
  with q assms(3) show ?thesis by (auto simp: pg_exec_def)
qed

lemma pg_status_unknown:
  assumes "good_world E w" and "uuid_in E j = Some j" and none: "row_of (rows (sh w)) j = None"
    and "pg_exec (sql_update E j True (\<lambda>_. True) upd) w = (ru, w')"
  shows "good_world E w' \<and> world_view b w' = world_view b w \<and> (\<exists>e. ru = Inl e)"
proof -
  obtain q where q: "remote (sql_update E j True (\<lambda>_. True) upd) w = (q, w')"
    using assms(4) by (auto simp: pg_exec_def split: prod.splits sum.splits if_splits)
  obtain out w1 where t: "take_turn w = (out, w1)" by fastforce
  note tq = take_turn_quiet [OF good_worldD(2) [OF assms(1)] t]
  have no: "filter (\<lambda>a. ID a = j) (rows (sh w)) = []"
    using none by (auto simp: row_of_None filter_empty_conv)
  have same: "w1\<lparr>sh := sh w\<rparr> = w1" by (simp add: tq(2) [symmetric])
  have "sh (w1\<lparr>sh := s\<rparr>) = s" "observed (w1\<lparr>sh := s\<rparr>) = observed w" for s using tq by simp_all
  have "w' = w1 \<and> (q = Inr 0 \<or> (\<exists>n. q = Inl (Net n)))"
    using q t no tq(2) assms(2) same update_where_none [OF no]
    by (cases out) (auto simp: remote_def sql_update_def Let_def split: prod.splits)
  moreover have "good_world E w1" "world_view b w1 = world_view b w"
    using tq good_worldD [OF assms(1)] by (simp_all add: good_world_def world_view_def)
  ultimately show ?thesis using q assms(4) by (auto simp: pg_exec_def)
qed

interpretation proc: processor_deps "good_world E" "world_view b" "world_processor E b"
  "\<lambda>j. uuid_in E j = Some j" for E b
proof (intro processor_deps.intro processor_deps_axioms.intro, unfold world_processor_sel)
  show "object_store (good_world E) (world_view b) (s3_Put (world_store b)) (s3_Get (world_store b))"
    by (rule store.object_store_axioms)
  show "row_reader (good_world E) (world_view b) (pg_GetByID E)"
    by (rule pgrow.row_reader_axioms)
next
  fix w j x st ru w'
  assume a: "good_world E w" "vRow (world_view b w) j = Some x" "st \<in> set processing_status_enum"
    "pg_SetProcessingStatus E j st w = (ru, w')"
  then show "good_world E w' \<and> (\<forall>e. ru = Inl e \<longrightarrow> \<not> errors_is e ErrNotFound) \<and>
      (\<exists>now. done_or_failed ru (world_view b w) ((world_view b w)\<lparr>vRow := (vRow (world_view b w))
        (j \<mapsto> x\<lparr>ProcessingStatus := st, UpdatedAt := now\<rparr>)\<rparr>) (world_view b w'))"
    using pg_update_step [of E w j x True "\<lambda>_. True" "\<lambda>now a. a\<lparr>ProcessingStatus := st, UpdatedAt := now\<rparr>" ru w' b]
      pg_status_error
    by (auto simp: pg_SetProcessingStatus_def same_record_def)
next
  fix w j st ru w'
  assume "good_world E w" "uuid_in E j = Some j" "vRow (world_view b w) j = None"
    "st \<in> set processing_status_enum" "pg_SetProcessingStatus E j st w = (ru, w')"
  then show "good_world E w' \<and> world_view b w' = world_view b w \<and> (\<exists>e. ru = Inl e)"
    using pg_status_unknown by (auto simp: pg_SetProcessingStatus_def)
next
  fix w j x keys ru w'
  assume "good_world E w" "vRow (world_view b w) j = Some x" "pg_SetThumbnails E j keys w = (ru, w')"
  then show "good_world E w' \<and> (\<exists>now. done_or_failed ru (world_view b w) ((world_view b w)\<lparr>vRow := (vRow (world_view b w))
      (j \<mapsto> x\<lparr>Thumbnails := keys, ProcessingStatus := ProcessingStatusCompleted, UpdatedAt := now\<rparr>)\<rparr>) (world_view b w'))"
    using pg_update_step [of E w j x True "\<lambda>_. True" "\<lambda>now a. a\<lparr>Thumbnails := keys,
        ProcessingStatus := ProcessingStatusCompleted, UpdatedAt := now\<rparr>" ru w' b]
    by (simp add: pg_SetThumbnails_def same_record_def)
next
  fix w ev st
  assume "good_world E w"
  then show "good_world E (w\<lparr>observed := observed w @ [(ev, st)]\<rparr>) \<and>
      world_view b (w\<lparr>observed := observed w @ [(ev, st)]\<rparr>) =
      (world_view b w)\<lparr>vObs := vObs (world_view b w) @ [(ev, st)]\<rparr>"
    by (simp add: good_world_def quiet_def world_view_def)
qed (rule s3_Delete_step; assumption)

subsection \<open>Properties of the upload job\<close>

lemma with_thumbs_other: "k \<notin> ThumbnailKey i ` set pxs \<Longrightarrow> with_thumbs im i src pxs m k = m k"
  by (induction pxs arbitrary: m) (auto split: sum.splits)

lemma with_thumbs_stored:
  assumes "Generate im src px = Inr t" and "px \<in> set pxs"
  shows "with_thumbs im i src pxs m (ThumbnailKey i px) = Some \<lparr>oType = ''image/jpeg'', oData = t\<rparr>"
  using assms(2)
proof (induction pxs arbitrary: m)
  case (Cons q pxs)
  show ?case
  proof (cases "px \<in> set pxs")
    case True
    with Cons.IH show ?thesis by simp
  next
    case False
    then have "ThumbnailKey i px \<notin> ThumbnailKey i ` set pxs" by auto
    with Cons.prems False assms(1) show ?thesis by (simp add: with_thumbs_other)
  qed
qed simp

definition thumb_keyset :: "string \<Rightarrow> string set" where
  "thumb_keyset i = ThumbnailKey i ` set ThumbnailSizes"

lemma with_thumbs_outside:
  "k \<notin> thumb_keyset i \<Longrightarrow> with_thumbs im i src (take n ThumbnailSizes) m k = m k"
  by (rule with_thumbs_other) (auto simp: thumb_keyset_def dest: in_set_takeD)

lemma processed_row_fields: "processed_row i x y \<Longrightarrow> same_record x y \<and> DeletedAt y = DeletedAt x \<and>
    UploadStatus y = UploadStatus x"
  by (auto simp: processed_row_def same_record_def)

text \<open>One attempt in the world, faults included.\<close>

lemma world_upload_attempt:
  assumes "good_world E w" and "row_of (rows (sh w)) (upAvatarID ev) = Some x"
    and "HandleUpload (world_processor E b) ev w = (r, w')"
  obtains y n src st where "good_world E w'"
    "row_of (rows (sh w')) = (row_of (rows (sh w)))(upAvatarID ev \<mapsto> y)"
    "objects b (sh w') = with_thumbs (world_imaging E) (upAvatarID ev) src (take n ThumbnailSizes) (objects b (sh w))"
    "sent (sh w') = sent (sh w)" "observed w' = observed w @ [(''upload'', st)]"
    "upload_attempt (world_imaging E) ev x (objects b (sh w)) y n src st r"
proof -
  obtain y n src st where "good_world E w'"
    "world_view b w' = (attempt_view (world_imaging E) ev (world_view b w) y n src)
       \<lparr>vObs := vObs (world_view b w) @ [(''upload'', st)]\<rparr>"
    "upload_attempt (world_imaging E) ev x (objects b (sh w)) y n src st r"
    using proc.HandleUpload_run [OF assms(1) _ assms(3), of x] assms(2) by auto
  with world_viewD [OF this(2)] that show thesis by (simp add: attempt_view_def)
qed

text \<open>
  an upload event, processed once or many times and whatever faults occur, is contained.
  An attempt changes no row but the event's and there only the thumbnails, the processing
  status and the update time; it writes no object but the two thumbnails of this avatar;
  it sends nothing; and it records exactly one observation.
\<close>

theorem handle_upload_contained:
  assumes "good_world E w" and "row_of (rows (sh w)) (upAvatarID ev) = Some x"
    and "HandleUpload (world_processor E b) ev w = (r, w')"
  shows "good_world E w' \<and> sent (sh w') = sent (sh w) \<and>
    (\<exists>st \<in> {statusOK, statusSkipped, statusError}. observed w' = observed w @ [(''upload'', st)]) \<and>
    (\<exists>y. row_of (rows (sh w')) = (row_of (rows (sh w)))(upAvatarID ev \<mapsto> y) \<and> processed_row (upAvatarID ev) x y) \<and>
    (\<forall>k. k \<notin> thumb_keyset (upAvatarID ev) \<longrightarrow> objects b (sh w') k = objects b (sh w) k)"
proof (rule world_upload_attempt [OF assms])
  fix y n src st
  assume "good_world E w'" "row_of (rows (sh w')) = (row_of (rows (sh w)))(upAvatarID ev \<mapsto> y)"
    "objects b (sh w') = with_thumbs (world_imaging E) (upAvatarID ev) src (take n ThumbnailSizes) (objects b (sh w))"
    "sent (sh w') = sent (sh w)" "observed w' = observed w @ [(''upload'', st)]"
    "upload_attempt (world_imaging E) ev x (objects b (sh w)) y n src st r"
  then show ?thesis by (auto simp: with_thumbs_outside upload_attempt_def)
qed

lemma HandleUpload_ok:
  assumes "good_world E w" and "row_of (rows (sh w)) (upAvatarID ev) = Some x"
    and "HandleUpload (world_processor E b) ev w = (r, w')" and "observed w' = observed w @ [(''upload'', statusOK)]"
  shows "r = Inr () \<and> live x \<and> ProcessingStatus x \<noteq> ProcessingStatusCompleted \<and>
    (\<exists>y ob. row_of (rows (sh w')) (upAvatarID ev) = Some y \<and> objects b (sh w) (upS3Key ev) = Some ob \<and>
       ProcessingStatus y = ProcessingStatusCompleted \<and>
       Thumbnails y = [(''100x100'', ThumbnailKey (upAvatarID ev) 100), (''300x300'', ThumbnailKey (upAvatarID ev) 300)] \<and>
       (\<forall>px \<in> {100, 300}. \<exists>img t. im_decode E (oData ob) = Inr img \<and>
          im_encode E (im_fill E img px px) 85 = Inr t \<and>
          objects b (sh w') (ThumbnailKey (upAvatarID ev) px) = Some \<lparr>oType = ''image/jpeg'', oData = t\<rparr>))"
proof (rule world_upload_attempt [OF assms(1-3)])
  fix y n src st
  assume w': "row_of (rows (sh w')) = (row_of (rows (sh w)))(upAvatarID ev \<mapsto> y)"
    "objects b (sh w') = with_thumbs (world_imaging E) (upAvatarID ev) src (take n ThumbnailSizes) (objects b (sh w))"
    "observed w' = observed w @ [(''upload'', st)]"
    and att: "upload_attempt (world_imaging E) ev x (objects b (sh w)) y n src st r"
  have "st = statusOK" using w'(3) assms(4) by simp
  with att obtain ob where 1: "r = Inr ()" "live x" "ProcessingStatus x \<noteq> ProcessingStatusCompleted"
    "n = length ThumbnailSizes" "Thumbnails y = thumb_keys (upAvatarID ev) ThumbnailSizes"
    "ProcessingStatus y = ProcessingStatusCompleted" "objects b (sh w) (upS3Key ev) = Some ob" "src = oData ob"
    and gen: "\<forall>px \<in> set ThumbnailSizes. \<exists>t. Generate (world_imaging E) src px = Inr t"
    by (auto simp: upload_attempt_def ThumbnailSizes_def)
  have "\<exists>img t. im_decode E (oData ob) = Inr img \<and> im_encode E (im_fill E img px px) 85 = Inr t \<and>
      objects b (sh w') (ThumbnailKey (upAvatarID ev) px) = Some \<lparr>oType = ''image/jpeg'', oData = t\<rparr>"
    if "px \<in> {100, 300}" for px
  proof -
    have px: "px \<in> set ThumbnailSizes" using that by (auto simp: ThumbnailSizes_def)
    with gen obtain t where t: "Generate (world_imaging E) src px = Inr t" by blast
    then have "objects b (sh w') (ThumbnailKey (upAvatarID ev) px) = Some \<lparr>oType = ''image/jpeg'', oData = t\<rparr>"
      using w'(2) 1(4) px by (simp add: with_thumbs_stored)
    with t 1(8) show ?thesis
      by (auto simp: Generate_def world_imaging_def jpegQuality_def split: sum.splits)
  qed
  moreover have "SizeName 100 = ''100x100''" "SizeName 300 = ''300x300''" by code_simp+
  ultimately show ?thesis
    using 1 w'(1) by (auto simp: thumb_keys_def ThumbnailSizes_def)
qed

text \<open>
  C18: an attempt recorded as ok has done the whole job. The event's row was live and not yet
  completed; the original existed; the row now lists both sizes under their keys and is
  completed; and each key holds the JPEG made from the original at that size, cropped to
  a square and encoded at the fixed quality.
\<close>

theorem handle_upload_ok:
  assumes "good_world E w" and "row_of (rows (sh w)) (upAvatarID ev) = Some x"
    and "HandleUpload (world_processor E b) ev w = (r, w')" and "observed w' = observed w @ [(''upload'', statusOK)]"
  shows "r = Inr () \<and> live x \<and> ProcessingStatus x \<noteq> ProcessingStatusCompleted \<and>
    (\<exists>y ob. row_of (rows (sh w')) (upAvatarID ev) = Some y \<and> objects b (sh w) (upS3Key ev) = Some ob \<and>
       ProcessingStatus y = ProcessingStatusCompleted \<and>
       Thumbnails y = [(''100x100'', ThumbnailKey (upAvatarID ev) 100), (''300x300'', ThumbnailKey (upAvatarID ev) 300)] \<and>
       (\<forall>px \<in> {100, 300}. \<exists>img t. im_decode E (oData ob) = Inr img \<and>
          im_encode E (im_fill E img px px) 85 = Inr t \<and>
          objects b (sh w') (ThumbnailKey (upAvatarID ev) px) = Some \<lparr>oType = ''image/jpeg'', oData = t\<rparr>))"
  by (rule HandleUpload_ok [OF assms])

text \<open>
  C19: a repeated attempt is harmless. After a call of HandleUpload recorded as ok, a further
  call for the same event, whatever faults it meets, leaves every row and every object as it
  is and can only end as skipped, or as an error. What the consumer makes of a series of
  such errors is the subject of theory Drain: it marks the row failed.
\<close>

theorem handle_upload_idempotent:
  assumes "good_world E w" and "row_of (rows (sh w)) (upAvatarID ev) = Some x"
    and "HandleUpload (world_processor E b) ev w = (r, w1)" and "observed w1 = observed w @ [(''upload'', statusOK)]"
    and "HandleUpload (world_processor E b) ev w1 = (r2, w2)"
  shows "row_of (rows (sh w2)) = row_of (rows (sh w1)) \<and> objects b (sh w2) = objects b (sh w1) \<and>
    (observed w2 = observed w1 @ [(''upload'', statusSkipped)] \<and> r2 = Inr () \<or>
     observed w2 = observed w1 @ [(''upload'', statusError)] \<and> (\<exists>e. r2 = Inl e))"
proof (rule world_upload_attempt [OF assms(1-3)])
  fix y n src st
  assume 1: "good_world E w1" "row_of (rows (sh w1)) = (row_of (rows (sh w)))(upAvatarID ev \<mapsto> y)"
    "observed w1 = observed w @ [(''upload'', st)]"
    "upload_attempt (world_imaging E) ev x (objects b (sh w)) y n src st r"
  then have fin: "ProcessingStatus y = ProcessingStatusCompleted"
    using assms(4) by (auto simp: upload_attempt_def)
  have row1: "row_of (rows (sh w1)) (upAvatarID ev) = Some y" using 1(2) by simp
  show ?thesis
  proof (rule world_upload_attempt [OF 1(1) row1 assms(5)])
    fix z m src' st'
    assume "row_of (rows (sh w2)) = (row_of (rows (sh w1)))(upAvatarID ev \<mapsto> z)"
      "objects b (sh w2) = with_thumbs (world_imaging E) (upAvatarID ev) src' (take m ThumbnailSizes) (objects b (sh w1))"
      "observed w2 = observed w1 @ [(''upload'', st')]"
      and att: "upload_attempt (world_imaging E) ev y (objects b (sh w1)) z m src' st' r2"
    moreover have "z = y \<and> m = 0 \<and> (st' = statusSkipped \<and> r2 = Inr () \<or> st' = statusError \<and> (\<exists>e. r2 = Inl e))"
      using att fin by (cases r2) (auto simp: upload_attempt_def)
    ultimately show ?thesis using row1 by (auto simp: fun_upd_idem)
  qed
qed

text \<open>
  an original that does not decode is given up at once. An attempt that returns no error
  without being recorded as ok or skipped has met an original from which one of the
  thumbnails cannot be made, and has marked the row failed; it is recorded as an error
  although the message will be acknowledged.
\<close>

theorem handle_upload_undecodable:
  assumes "good_world E w" and "row_of (rows (sh w)) (upAvatarID ev) = Some x"
    and "HandleUpload (world_processor E b) ev w = (Inr (), w')"
    and "observed w' \<noteq> observed w @ [(''upload'', statusOK)]" and "observed w' \<noteq> observed w @ [(''upload'', statusSkipped)]"
  shows "observed w' = observed w @ [(''upload'', statusError)] \<and>
    (\<exists>y ob px e. row_of (rows (sh w')) (upAvatarID ev) = Some y \<and> ProcessingStatus y = ProcessingStatusFailed \<and>
       Thumbnails y = Thumbnails x \<and> objects b (sh w) (upS3Key ev) = Some ob \<and>
       px \<in> set ThumbnailSizes \<and> Generate (world_imaging E) (oData ob) px = Inl e)"
proof (rule world_upload_attempt [OF assms(1-3)])
  fix y n src st
  assume "row_of (rows (sh w')) = (row_of (rows (sh w)))(upAvatarID ev \<mapsto> y)"
    "observed w' = observed w @ [(''upload'', st)]"
    "upload_attempt (world_imaging E) ev x (objects b (sh w)) y n src st (Inr ())"
  with assms(4,5) show ?thesis by (auto simp: upload_attempt_def)
qed

lemma HandleDelete_effect:
  assumes "good_world E w" and "row_of (rows (sh w)) (delAvatarID ev) = Some x"
    and "HandleDelete (world_processor E b) ev w = (r, w')"
  shows "good_world E w' \<and> sent (sh w') = sent (sh w) \<and>
    (\<forall>k. k \<notin> set (delS3Keys ev) \<longrightarrow> objects b (sh w') k = objects b (sh w) k) \<and>
    (\<exists>y. row_of (rows (sh w')) = (row_of (rows (sh w)))(delAvatarID ev \<mapsto> y) \<and>
       (y = x \<or> (\<exists>now. y = x\<lparr>ProcessingStatus := ProcessingStatusDeleted, UpdatedAt := now\<rparr>)) \<and>
       (r = Inr () \<longrightarrow> ProcessingStatus y = ProcessingStatusDeleted)) \<and>
    (\<forall>k. objects b (sh w) k = None \<longrightarrow> objects b (sh w') k = None) \<and>
    (r = Inr () \<longrightarrow> (\<forall>k \<in> set (delS3Keys ev). objects b (sh w') k = None)) \<and>
    observed w' = observed w @ [(''delete'', case r of Inr _ \<Rightarrow> statusOK | Inl _ \<Rightarrow> statusError)]"
proof -
  obtain st gone y where "good_world E w'" and v: "world_view b w' = (world_view b w)\<lparr>
      vRow := (vRow (world_view b w))(delAvatarID ev \<mapsto> y), vObj := (vObj (world_view b w)) |` (- set gone),
      vObs := vObs (world_view b w) @ [(''delete'', st)]\<rparr>" "set gone \<subseteq> set (delS3Keys ev)"
    "y = x \<or> (\<exists>now. y = x\<lparr>ProcessingStatus := ProcessingStatusDeleted, UpdatedAt := now\<rparr>)"
    "r = Inr () \<longrightarrow> st = statusOK \<and> gone = delS3Keys ev \<and> ProcessingStatus y = ProcessingStatusDeleted"
    "(\<exists>e. r = Inl e) \<longrightarrow> st = statusError"
    using proc.HandleDelete_run [OF assms(1) _ assms(3), of x] assms(2) by auto
  moreover have "st = (case r of Inr _ \<Rightarrow> statusOK | Inl _ \<Rightarrow> statusError)"
    using calculation(5,6) by (cases r) auto
  ultimately show ?thesis
    using world_viewD [OF v(1)] by (auto simp: restrict_map_def)
qed

subsection \<open>Undisturbed runs\<close>

lemma pg_GetByID_answered:
  assumes "good_world E w" and "script w = []" and "row_of (rows (sh w)) i = Some x" and "live x"
  shows "pg_GetByID E i w = (Inr x, w)"
proof -
  note g = good_worldD [OF assms(1)]
  have x: "x \<in> set (rows (sh w))" "ID x = i" using row_of_Some [OF assms(3)] by auto
  have "find (\<lambda>a. ID a = i \<and> live a) (scan_order E ''by id'' (rows (sh w))) \<noteq> None"
    using x assms(4) g(1) by (auto simp: find_None_iff)
  then obtain a where a: "find (\<lambda>a. ID a = i \<and> live a) (scan_order E ''by id'' (rows (sh w))) = Some a" by blast
  then have "a = x"
    using row_of_unique [OF assms(1,3)] g(1) by (auto dest: find_SomeD)
  with a assms(2) show ?thesis
    using uuid_of_row [OF assms(1,3)] by (simp add: pg_GetByID_def remote_answered sql_select_by_id_def scanAvatar_def)
qed

lemma pg_exec_answered:
  assumes "good_world E w" and "script w = []" and "row_of (rows (sh w)) i = Some x"
  shows "pg_exec (sql_update E i True (\<lambda>_. True) upd) w =
    (Inr (), w\<lparr>sh := (sh w)\<lparr>rows := update_where (\<lambda>a. ID a = i) (upd (clock w)) (rows (sh w))\<rparr>\<rparr>)"
  using filter_row_of [OF good_worldD(4) [OF assms(1)] assms(3), of "\<lambda>_. True"] uuid_of_row [OF assms(1,3)] assms(2)
  by (simp add: pg_exec_def remote_answered sql_update_def Let_def)

lemma s3_Get_answered:
  assumes "script w = []" and "objects b (sh w) k = Some ob"
  shows "s3_Get (world_store b) k w = (Inr (oRead (world_object b k)), w)"
    and "oRead (world_object b k) w = ((oData ob, None), w)"
  using assms by (auto simp: s3_Get_def world_object_def remote_answered act_read_def objects_def split: option.splits)

lemma s3_Put_answered:
  assumes "script w = []" and "buckets (sh w) b = Some m" and "n = int (length d)"
  shows "s3_Put (world_store b) k ct d n w = (Inr (), w\<lparr>sh := (sh w)\<lparr>buckets := (buckets (sh w))
    (b \<mapsto> m(k \<mapsto> \<lparr>oType = ct, oData = d\<rparr>))\<rparr>\<rparr>)"
  using assms by (simp add: s3_Put_def remote_answered act_put_def)

lemma make_thumbs_answered:
  assumes "good_world E w" and "script w = []" and "row_of (rows (sh w)) (upAvatarID ev) = Some x"
    and "buckets (sh w) b = Some m"
    and "Generate (world_imaging E) src 100 = Inr t1" "Generate (world_imaging E) src 300 = Inr t2"
  shows "make_thumbs (world_processor E b) ev src w = ((Inr (), statusOK), w\<lparr>sh := (sh w)\<lparr>
    rows := update_where (\<lambda>a. ID a = upAvatarID ev) (\<lambda>a. a\<lparr>Thumbnails := thumb_keys (upAvatarID ev) ThumbnailSizes,
      ProcessingStatus := ProcessingStatusCompleted, UpdatedAt := clock w\<rparr>) (rows (sh w)),
    buckets := (buckets (sh w))(b \<mapsto> m(
      ThumbnailKey (upAvatarID ev) 100 \<mapsto> \<lparr>oType = ''image/jpeg'', oData = t1\<rparr>,
      ThumbnailKey (upAvatarID ev) 300 \<mapsto> \<lparr>oType = ''image/jpeg'', oData = t2\<rparr>))\<rparr>\<rparr>)"
proof -
  let ?i = "upAvatarID ev" and ?key = "ThumbnailKey (upAvatarID ev)"
  define w2 where "w2 = w\<lparr>sh := (sh w)\<lparr>buckets := (buckets (sh w))(b \<mapsto>
    m(?key 100 \<mapsto> \<lparr>oType = ''image/jpeg'', oData = t1\<rparr>, ?key 300 \<mapsto> \<lparr>oType = ''image/jpeg'', oData = t2\<rparr>))\<rparr>\<rparr>"
  have loop: "thumb_loop (world_processor E b) ev src [] ThumbnailSizes w =
      (Inl (thumb_keys ?i ThumbnailSizes), w2)"
    using assms(2,4-6) by (simp add: ThumbnailSizes_def s3_Put_answered w2_def thumb_keys_def Let_def)
  have w2: "good_world E w2" "script w2 = []" "row_of (rows (sh w2)) ?i = Some x"
    using assms(1-3) by (simp_all add: w2_def good_world_def)
  show ?thesis
    using pg_exec_answered [OF w2, of "\<lambda>now a. a\<lparr>Thumbnails := thumb_keys ?i ThumbnailSizes,
      ProcessingStatus := ProcessingStatusCompleted, UpdatedAt := now\<rparr>"] loop
    by (simp add: make_thumbs_def pg_SetThumbnails_def) (simp add: w2_def)
qed

lemma HandleUpload_answered:
  assumes good: "good_world E w" and quiet: "script w = []" and row: "row_of (rows (sh w)) (upAvatarID ev) = Some x"
    and "live x" "ProcessingStatus x \<noteq> ProcessingStatusCompleted" "ProcessingStatus x \<noteq> ProcessingStatusDeleted"
    and ob: "objects b (sh w) (upS3Key ev) = Some ob"
    and gen: "Generate (world_imaging E) (oData ob) 100 = Inr t1" "Generate (world_imaging E) (oData ob) 300 = Inr t2"
  shows "\<exists>w'. HandleUpload (world_processor E b) ev w = (Inr (), w') \<and>
    observed w' = observed w @ [(''upload'', statusOK)] \<and> script w' = []"
proof -
  let ?i = "upAvatarID ev"
  let ?upd = "\<lambda>now a. a\<lparr>ProcessingStatus := ProcessingStatusProcessing, UpdatedAt := now\<rparr>"
  obtain m where m: "buckets (sh w) b = Some m" using ob by (auto simp: objects_def split: option.splits)
  define w1 where "w1 = w\<lparr>sh := (sh w)\<lparr>rows := update_where (\<lambda>a. ID a = ?i) (?upd (clock w)) (rows (sh w))\<rparr>\<rparr>"
  have st: "pg_SetProcessingStatus E ?i ProcessingStatusProcessing w = (Inr (), w1)"
    using pg_exec_answered [OF good quiet row, of ?upd]
    by (simp add: pg_SetProcessingStatus_def w1_def processing_status_enum_def)
  have g1: "good_world E w1"
    using pg_update_step [OF good row _ st [unfolded pg_SetProcessingStatus_def], of "[]"]
    by (simp add: processing_status_enum_def same_record_def)
  have row1: "row_of (rows (sh w1)) ?i = Some (?upd (clock w) x)"
    using row_of_update_where [OF good_worldD(4) [OF good] row, of "?upd (clock w)" "\<lambda>_. True"] by (simp add: w1_def)
  have w1: "script w1 = []" "buckets (sh w1) b = Some m" "objects b (sh w1) (upS3Key ev) = Some ob"
    "observed w1 = observed w"
    using quiet m ob by (simp_all add: w1_def objects_def)
  obtain w3 where "make_thumbs (world_processor E b) ev (oData ob) w1 = ((Inr (), statusOK), w3)"
    and w3: "observed w3 = observed w" "script w3 = []"
    using make_thumbs_answered [OF g1 w1(1) row1 w1(2) gen] w1(1,4) by simp
  then have "process_avatar (world_processor E b) ev w = ((Inr (), statusOK), w3)"
    using st s3_Get_answered [OF w1(1,3)] by (simp add: process_avatar_def)
  then show ?thesis
    using pg_GetByID_answered [OF good quiet row assms(4)] assms(5,6) w3
    by (simp add: HandleUpload_def upload_body_def)
qed

text \<open>
  the upload job completes when every call is answered. For a live row that is neither
  completed nor deleted, an original that is there and decodes at both sizes, HandleUpload
  returns no error and is recorded as ok.
\<close>

theorem handle_upload_completes:
  assumes "good_world E w" and "script w = []" and "row_of (rows (sh w)) (upAvatarID ev) = Some x"
    and "live x" and "ProcessingStatus x \<noteq> ProcessingStatusCompleted" and "ProcessingStatus x \<noteq> ProcessingStatusDeleted"
    and "objects b (sh w) (upS3Key ev) = Some ob"
    and "Generate (world_imaging E) (oData ob) 100 = Inr t1" and "Generate (world_imaging E) (oData ob) 300 = Inr t2"
  shows "\<exists>w'. HandleUpload (world_processor E b) ev w = (Inr (), w') \<and>
    observed w' = observed w @ [(''upload'', statusOK)]"
  using HandleUpload_answered [OF assms] by blast

lemma good_world_table: "good_world E w \<longleftrightarrow> env_ok E \<and> quiet w \<and> table_ok E (rows (sh w))"
  by (auto simp: good_world_def)

lemma delete_loop_answered:
  assumes "script w = []" and "buckets (sh w) b = Some m"
  shows "delete_loop (world_processor E b) keys w =
    (Inr (), w\<lparr>sh := (sh w)\<lparr>buckets := (buckets (sh w))(b \<mapsto> m |` (- set keys))\<rparr>\<rparr>)"
  using assms
proof (induction keys arbitrary: w m)
  case Nil
  then show ?case by (simp add: fun_upd_idem)
next
  case (Cons k ks)
  define w1 where "w1 = w\<lparr>sh := (sh w)\<lparr>buckets := (buckets (sh w))(b \<mapsto> m(k := None))\<rparr>\<rparr>"
  have "s3_Delete (world_store b) k w = (Inr (), w1)"
    using Cons.prems by (simp add: s3_Delete_def remote_answered act_remove_def w1_def)
  then have "delete_loop (world_processor E b) (k # ks) w = delete_loop (world_processor E b) ks w1" by simp
  also have "\<dots> = (Inr (), w1\<lparr>sh := (sh w1)\<lparr>buckets := (buckets (sh w1))(b \<mapsto> (m(k := None)) |` (- set ks))\<rparr>\<rparr>)"
    by (rule Cons.IH) (simp_all add: w1_def Cons.prems fun_upd_def)
  also have "(m(k := None)) |` (- set ks) = m |` (- set (k # ks))"
    by (auto simp: restrict_map_def)
  finally show ?case by (simp add: w1_def cong: if_cong)
qed

definition marked_deleted :: "int \<Rightarrow> avatar \<Rightarrow> avatar" where
  "marked_deleted now a = a\<lparr>ProcessingStatus := ProcessingStatusDeleted, UpdatedAt := now\<rparr>"

lemma HandleDelete_answered:
  assumes "good_world E w" and "script w = []" and "row_of (rows (sh w)) (delAvatarID ev) = Some x"
    and "buckets (sh w) b = Some m"
  shows "HandleDelete (world_processor E b) ev w = (Inr (), w\<lparr>sh := (sh w)\<lparr>
      rows := update_where (\<lambda>a. ID a = delAvatarID ev) (marked_deleted (clock w)) (rows (sh w)),
      buckets := (buckets (sh w))(b \<mapsto> m |` (- set (delS3Keys ev)))\<rparr>,
    observed := observed w @ [(''delete'', statusOK)]\<rparr>)"
proof -
  let ?w = "w\<lparr>sh := (sh w)\<lparr>buckets := (buckets (sh w))(b \<mapsto> m |` (- set (delS3Keys ev)))\<rparr>\<rparr>"
  have "good_world E ?w" using assms(1,2) by (simp add: good_world_table)
  from pg_exec_answered [OF this, of "delAvatarID ev" x "\<lambda>now. marked_deleted now"]
  have "pg_SetProcessingStatus E (delAvatarID ev) ProcessingStatusDeleted ?w = (Inr (), ?w\<lparr>sh := (sh ?w)\<lparr>
      rows := update_where (\<lambda>a. ID a = delAvatarID ev) (marked_deleted (clock w)) (rows (sh w))\<rparr>\<rparr>)"
    using assms(2,3) by (simp add: pg_SetProcessingStatus_def processing_status_enum_def marked_deleted_def [abs_def])
  with delete_loop_answered [OF assms(2,4), of E "delS3Keys ev"] show ?thesis
    by (simp add: HandleDelete_def delete_body_def)
qed

text \<open>
  C20: deletion cleans up, and may be repeated. Over either kind of S3 service, a call of
  HandleDelete for a stored avatar removes no object but those the event names and changes
  no row but the event's, there only the processing status and the update time; when it
  returns no error all the named objects are gone and the row says deleted; it records
  exactly one observation, ok if and only if it returned no error. When its calls are
  answered it returns no error, whichever of the objects are missing; a second call then
  does so too, and one after a success changes no object and leaves the row deleted,
  whatever faults it meets.
\<close>

theorem handle_delete_removes:
  assumes "good_world E w" and "row_of (rows (sh w)) (delAvatarID ev) = Some x"
    and "p \<in> {world_processor E b, reporting_processor E b}" and "HandleDelete p ev w = (r, w')"
  shows "good_world E w' \<and> sent (sh w') = sent (sh w) \<and>
    (\<forall>k. k \<notin> set (delS3Keys ev) \<longrightarrow> objects b (sh w') k = objects b (sh w) k) \<and>
    (\<exists>y. row_of (rows (sh w')) = (row_of (rows (sh w)))(delAvatarID ev \<mapsto> y) \<and>
       (y = x \<or> (\<exists>now. y = x\<lparr>ProcessingStatus := ProcessingStatusDeleted, UpdatedAt := now\<rparr>)) \<and>
       (r = Inr () \<longrightarrow> ProcessingStatus y = ProcessingStatusDeleted)) \<and>
    (r = Inr () \<longrightarrow> (\<forall>k \<in> set (delS3Keys ev). objects b (sh w') k = None)) \<and>
    observed w' = observed w @ [(''delete'', case r of Inr _ \<Rightarrow> statusOK | Inl _ \<Rightarrow> statusError)] \<and>
    (script w = [] \<longrightarrow> buckets (sh w) b \<noteq> None \<longrightarrow> r = Inr ()) \<and>
    (\<forall>r2 w2. HandleDelete p ev w' = (r2, w2) \<longrightarrow>
       (script w' = [] \<longrightarrow> buckets (sh w') b \<noteq> None \<longrightarrow> r2 = Inr ()) \<and>
       (r = Inr () \<longrightarrow> objects b (sh w2) = objects b (sh w') \<and>
         (\<exists>z. row_of (rows (sh w2)) (delAvatarID ev) = Some z \<and> ProcessingStatus z = ProcessingStatusDeleted)))"
proof -
  have p: "p = world_processor E b" using assms(3) by (auto simp: reporting_processor_same)
  note run = assms(4) [unfolded p]
  note first = HandleDelete_effect [OF assms(1,2) run]
  have good': "good_world E w'" using first by blast
  obtain y where y: "row_of (rows (sh w')) (delAvatarID ev) = Some y" "r = Inr () \<longrightarrow> ProcessingStatus y = ProcessingStatusDeleted"
    using first by (elim conjE exE) simp
  have answered: "r = Inr ()" if "script w = []" "buckets (sh w) b \<noteq> None"
    using HandleDelete_answered [OF assms(1) that(1) assms(2)] that(2) run by auto
  have again: "(script w' = [] \<longrightarrow> buckets (sh w') b \<noteq> None \<longrightarrow> r2 = Inr ()) \<and>
       (r = Inr () \<longrightarrow> objects b (sh w2) = objects b (sh w') \<and>
         (\<exists>z. row_of (rows (sh w2)) (delAvatarID ev) = Some z \<and> ProcessingStatus z = ProcessingStatusDeleted))"
    if run2: "HandleDelete p ev w' = (r2, w2)" for r2 w2
  proof (intro conjI impI)
    note second = HandleDelete_effect [OF good' y(1) run2 [unfolded p]]
    show "r2 = Inr ()" if "script w' = []" "buckets (sh w') b \<noteq> None"
      using HandleDelete_answered [OF good' that(1) y(1)] that(2) run2 [unfolded p] by auto
    assume r: "r = Inr ()"
    have gone: "\<forall>k \<in> set (delS3Keys ev). objects b (sh w') k = None" using first r by blast
    show "objects b (sh w2) = objects b (sh w')"
    proof
      fix k
      show "objects b (sh w2) k = objects b (sh w') k"
        using second gone by (cases "k \<in> set (delS3Keys ev)") simp_all
    qed
    show "\<exists>z. row_of (rows (sh w2)) (delAvatarID ev) = Some z \<and> ProcessingStatus z = ProcessingStatusDeleted"
      using second y(2) r by (elim conjE exE) auto
  qed
  from first answered again show ?thesis by blast
qed

subsection \<open>Guarantees under interference\<close>

lemma keeps_observe:
  "keeps I m \<Longrightarrow> (\<And>w0 w ev st. I w0 w \<Longrightarrow> I w0 (w\<lparr>observed := observed w @ [(ev, st)]\<rparr>)) \<Longrightarrow>
   keeps I (\<lambda>w. case m w of ((r, st), w1) \<Rightarrow> (r, w1\<lparr>observed := observed w1 @ [(ev, st)]\<rparr>))"
  by (auto simp: keeps_def split: prod.splits) (metis snd_conv)

lemma upheld_observed: "upheld G w0 w \<Longrightarrow> upheld G w0 (w\<lparr>observed := obs\<rparr>)"
  by (simp add: upheld_def others_keep_def)

lemma thumb_loop_keeps:
  "keeps (upheld (history E)) (thumb_loop (world_processor E b) ev src keys pxs)"
proof (induction pxs arbitrary: keys)
  case Nil
  show ?case by (simp add: keeps_def hist.upheld_refl)
next
  case (Cons px pxs)
  show ?case
    unfolding keeps_def thumb_loop.simps Let_def world_processor_sel
    by (intro allI hist.upheld_rel.keeps_rules hist.upheld_rel.I_refl pg_keeps_history s3_keeps_history
        hist.upheld_rel.keeps_tail [OF Cons.IH])
qed

lemma delete_loop_keeps: "keeps (upheld (history E)) (delete_loop (world_processor E b) ks)"
proof (induction ks)
  case Nil
  show ?case by (simp add: keeps_def hist.upheld_refl)
next
  case (Cons k ks)
  show ?case
    unfolding keeps_def delete_loop.simps world_processor_sel
    by (intro allI hist.upheld_rel.keeps_rules hist.upheld_rel.I_refl s3_keeps_history
        hist.upheld_rel.keeps_tail [OF Cons.IH])
qed

lemma make_thumbs_keeps: "keeps (upheld (history E)) (make_thumbs (world_processor E b) ev src)"
  unfolding keeps_def make_thumbs_def world_processor_sel
  by (intro allI hist.upheld_rel.keeps_rules hist.upheld_rel.I_refl thumb_loop_keeps pg_keeps_history)

lemma reader_keeps:
  "s3_Get (world_store b) k w = (Inr body, w1) \<Longrightarrow> keeps (upheld (history E)) body"
  by (erule s3_Get_read) (auto simp: s3_keeps_history split: sum.splits if_splits)

lemma process_avatar_keeps: "keeps (upheld (history E)) (process_avatar (world_processor E b) ev)"
  unfolding keeps_def
proof
  fix w
  let ?I = "upheld (history E)"
  obtain r1 w1 where 1: "pg_SetProcessingStatus E (upAvatarID ev) ProcessingStatusProcessing w = (r1, w1)" by fastforce
  obtain r2 w2 where 2: "s3_Get (world_store b) (upS3Key ev) w1 = (r2, w2)" by fastforce
  have k1: "?I w w1" using pg_keeps_history(6) 1 by (metis keeps_def snd_conv)
  moreover have "?I w1 w2" using s3_keeps_history(2) 2 by (metis keeps_def snd_conv)
  ultimately have k2: "?I w w2" by (rule hist.upheld_trans)
  show "?I w (snd (process_avatar (world_processor E b) ev w))"
  proof (cases r1; cases r2)
    fix u body
    assume r: "r1 = Inr u" "r2 = Inr body"
    obtain src err w3 where 3: "body w2 = ((src, err), w3)" by (metis prod.exhaust)
    have "?I w2 w3" using reader_keeps [OF 2 [unfolded r]] 3 by (metis keeps_def snd_conv)
    with k2 have k3: "?I w w3" by (rule hist.upheld_trans)
    with 1 2 3 r show ?thesis
      using hist.upheld_rel.keeps_tail [OF make_thumbs_keeps k3]
      by (cases err) (simp_all add: process_avatar_def)
  qed (use 1 2 k1 k2 in \<open>simp_all add: process_avatar_def\<close>)
qed

lemma upload_body_keeps: "keeps (upheld (history E)) (upload_body (world_processor E b) ev)"
  unfolding keeps_def upload_body_def world_processor_sel
  by (intro allI hist.upheld_rel.keeps_rules hist.upheld_rel.I_refl pg_keeps_history
      hist.upheld_rel.keeps_tail [OF process_avatar_keeps])

lemma delete_body_keeps: "keeps (upheld (history E)) (delete_body (world_processor E b) dv)"
  unfolding keeps_def delete_body_def world_processor_sel
  by (intro allI hist.upheld_rel.keeps_rules hist.upheld_rel.I_refl pg_keeps_history delete_loop_keeps)

lemma proc_keeps_history:
  "keeps (upheld (history E)) (HandleUpload (world_processor E b) ev)"
  "keeps (upheld (history E)) (HandleDelete (world_processor E b) dv)"
  unfolding HandleUpload_def [abs_def] HandleDelete_def [abs_def] world_processor_sel
  by (rule keeps_observe [OF upload_body_keeps upheld_observed], assumption)
     (rule keeps_observe [OF delete_body_keeps upheld_observed], assumption)

subsection \<open>Concrete runs\<close>

abbreviation sample_event :: UploadEvent where
  "sample_event \<equiv> \<lparr>upAvatarID = ''a1'', upUserID = ''ann'', upS3Key = OriginalKey ''a1''\<rparr>"

abbreviation sample_stored :: "bytes \<Rightarrow> world" where
  "sample_stored d \<equiv> sample_world sample_rows [OriginalKey ''a1'' \<mapsto> \<lparr>oType = ''image/png'', oData = d\<rparr>] []"

lemma sample_row_a1: "row_of (rows (sh (sample_stored d))) ''a1'' = Some (sample_row ''a1'' 3 None)"
  by (simp add: row_of_def sample_rows_def)

lemma sample_good: "good_world sample_env (sample_stored d)"
  by (rule good_sample_world [OF table_ok_sample_rows])

lemma sample_run: "\<exists>w'. HandleUpload (world_processor sample_env ''b'') sample_event (sample_stored ''abcd'') = (Inr (), w') \<and>
    observed w' = observed (sample_stored ''abcd'') @ [(''upload'', statusOK)] \<and> script w' = []"
  by (rule HandleUpload_answered [OF sample_good _ _ _ _ _, where x = "sample_row ''a1'' 3 None"
        and ob = "\<lparr>oType = ''image/png'', oData = ''abcd''\<rparr>"])
     (simp_all add: sample_row_a1 [simplified] sample_row_def Generate_def world_imaging_def sample_env_def row_of_def
        sample_rows_def live_def)

theorem handle_upload_completes_witness:
  "\<exists>w'. HandleUpload (world_processor sample_env ''b'') sample_event (sample_stored ''abcd'') = (Inr (), w') \<and>
    observed w' = [(''upload'', statusOK)]"
proof -
  have "\<exists>t1 t2. Generate (world_imaging sample_env) ''abcd'' 100 = Inr t1 \<and> Generate (world_imaging sample_env) ''abcd'' 300 = Inr t2"
    by (simp add: Generate_def world_imaging_def sample_env_def)
  then obtain t1 t2 where "Generate (world_imaging sample_env) ''abcd'' 100 = Inr t1"
    "Generate (world_imaging sample_env) ''abcd'' 300 = Inr t2" by blast
  from handle_upload_completes [OF sample_good [of "''abcd''"], of sample_event "sample_row ''a1'' 3 None" "''b''"
      "\<lparr>oType = ''image/png'', oData = ''abcd''\<rparr>" t1 t2] this
  show ?thesis by (simp add: sample_row_def row_of_def sample_rows_def live_def)
qed

theorem handle_upload_contained_witness:
  "\<exists>r w'. HandleUpload (world_processor sample_env ''b'') sample_event (sample_stored ''abcd'') = (r, w') \<and>
    objects ''b'' (sh w') (OriginalKey ''a1'') = Some \<lparr>oType = ''image/png'', oData = ''abcd''\<rparr>"
proof -
  obtain r w' where run: "HandleUpload (world_processor sample_env ''b'') sample_event (sample_stored ''abcd'') = (r, w')"
    by fastforce
  have "OriginalKey ''a1'' \<notin> thumb_keyset ''a1''" by (auto simp: thumb_keyset_def)
  with handle_upload_contained [OF sample_good _ run, of "sample_row ''a1'' 3 None"] run sample_row_a1 show ?thesis
    by (intro exI [of _ r] exI [of _ w']) simp
qed

theorem handle_upload_ok_witness:
  "\<exists>w' y. HandleUpload (world_processor sample_env ''b'') sample_event (sample_stored ''abcd'') = (Inr (), w') \<and>
    row_of (rows (sh w')) ''a1'' = Some y \<and> ProcessingStatus y = ''completed'' \<and> length (Thumbnails y) = 2"
proof -
  obtain w' where run: "HandleUpload (world_processor sample_env ''b'') sample_event (sample_stored ''abcd'') = (Inr (), w')"
    "observed w' = observed (sample_stored ''abcd'') @ [(''upload'', statusOK)]" using sample_run by blast
  from handle_upload_ok [OF sample_good _ run(1) run(2), of "sample_row ''a1'' 3 None"] sample_row_a1 run(1)
  show ?thesis by (intro exI [of _ w']) auto
qed

theorem handle_upload_idempotent_witness:
  "\<exists>w1 r2 w2. HandleUpload (world_processor sample_env ''b'') sample_event (sample_stored ''abcd'') = (Inr (), w1) \<and>
    HandleUpload (world_processor sample_env ''b'') sample_event w1 = (r2, w2) \<and> objects ''b'' (sh w2) = objects ''b'' (sh w1)"
proof -
  obtain w1 where run: "HandleUpload (world_processor sample_env ''b'') sample_event (sample_stored ''abcd'') = (Inr (), w1)"
    "observed w1 = observed (sample_stored ''abcd'') @ [(''upload'', statusOK)]" using sample_run by blast
  obtain r2 w2 where again: "HandleUpload (world_processor sample_env ''b'') sample_event w1 = (r2, w2)" by fastforce
  from handle_upload_idempotent [OF sample_good _ run again, of "sample_row ''a1'' 3 None"] sample_row_a1 run(1) again
  show ?thesis by (intro exI [of _ w1] exI [of _ r2] exI [of _ w2]) auto
qed

lemma sample_update:
  "pg_SetProcessingStatus sample_env ''a1'' ProcessingStatusProcessing (sample_stored d) = (Inr (), w1) \<Longrightarrow>
     w1 = (sample_stored d)\<lparr>sh := (sh (sample_stored d))\<lparr>rows := rows (sh w1)\<rparr>\<rparr> \<and> good_world sample_env w1 \<and>
       row_of (rows (sh w1)) ''a1'' \<noteq> None"
  "\<exists>w1. pg_SetProcessingStatus sample_env ''a1'' ProcessingStatusProcessing (sample_stored d) = (Inr (), w1)"
proof -
  let ?upd = "\<lambda>now a. a\<lparr>ProcessingStatus := ProcessingStatusProcessing, UpdatedAt := now\<rparr>"
  have run: "pg_SetProcessingStatus sample_env ''a1'' ProcessingStatusProcessing (sample_stored d) =
      (Inr (), (sample_stored d)\<lparr>sh := (sh (sample_stored d))\<lparr>rows := update_where (\<lambda>a. ID a = ''a1'') (?upd 50) sample_rows\<rparr>\<rparr>)"
    using pg_exec_answered [OF sample_good _ sample_row_a1, of d ?upd]
    by (simp add: pg_SetProcessingStatus_def processing_status_enum_def)
  then show "\<exists>w1. pg_SetProcessingStatus sample_env ''a1'' ProcessingStatusProcessing (sample_stored d) = (Inr (), w1)" by blast
  assume w1: "pg_SetProcessingStatus sample_env ''a1'' ProcessingStatusProcessing (sample_stored d) = (Inr (), w1)"
  have "good_world sample_env w1"
    using pg_update_step [OF sample_good sample_row_a1 _ w1 [unfolded pg_SetProcessingStatus_def], of "[]"]
    by (simp add: processing_status_enum_def same_record_def)
  with w1 run show "w1 = (sample_stored d)\<lparr>sh := (sh (sample_stored d))\<lparr>rows := rows (sh w1)\<rparr>\<rparr> \<and> good_world sample_env w1 \<and>
       row_of (rows (sh w1)) ''a1'' \<noteq> None"
    by (auto simp: row_of_def sample_rows_def)
qed

theorem handle_upload_undecodable_witness:
  "\<exists>w' y. HandleUpload (world_processor sample_env ''b'') sample_event (sample_stored ''ab'') = (Inr (), w') \<and>
    row_of (rows (sh w')) ''a1'' = Some y \<and> ProcessingStatus y = ''failed''"
proof -
  let ?w = "sample_stored ''ab''"
  obtain w1 where st: "pg_SetProcessingStatus sample_env ''a1'' ProcessingStatusProcessing ?w = (Inr (), w1)"
    using sample_update(2) by blast
  note w1 = sample_update(1) [OF st]
  then obtain z where row1: "row_of (rows (sh w1)) ''a1'' = Some z" by blast
  have q1: "script w1 = []" and o1: "objects ''b'' (sh w1) (OriginalKey ''a1'') = Some \<lparr>oType = ''image/png'', oData = ''ab''\<rparr>"
    and ob1: "observed w1 = []"
    by (subst conjunct1 [OF w1], simp add: objects_def)+
  have gen: "\<exists>e. Generate (world_imaging sample_env) ''ab'' px = Inl e" for px
    by (simp add: Generate_def world_imaging_def sample_env_def)
  obtain w2 where fail: "pg_SetProcessingStatus sample_env ''a1'' ProcessingStatusFailed w1 = (Inr (), w2)" "observed w2 = []"
    using pg_exec_answered [OF conjunct1 [OF conjunct2 [OF w1]] q1 row1] ob1
    by (simp add: pg_SetProcessingStatus_def processing_status_enum_def)
  have "process_avatar (world_processor sample_env ''b'') sample_event ?w = ((Inr (), statusError), w2)"
    using st fail gen [of 100] s3_Get_answered [OF q1 o1]
    by (auto simp: process_avatar_def make_thumbs_def ThumbnailSizes_def)
  then have run: "HandleUpload (world_processor sample_env ''b'') sample_event ?w = (Inr (), w2\<lparr>observed := [(''upload'', statusError)]\<rparr>)"
    using pg_GetByID_answered [OF sample_good _ sample_row_a1, of "''ab''"] fail(2)
    by (simp add: HandleUpload_def upload_body_def) (simp add: sample_row_def live_def)
  from handle_upload_undecodable [OF sample_good _ run, of "sample_row ''a1'' 3 None"] sample_row_a1 run
  show ?thesis by (auto simp: row_of_def)
qed

theorem handle_delete_removes_witness:
  "\<exists>w1 w2. HandleDelete (reporting_processor sample_env ''b'') \<lparr>delAvatarID = ''a1'', delS3Keys = [OriginalKey ''a1'', ''k'']\<rparr>
      (sample_stored ''abcd'') = (Inr (), w1) \<and> objects ''b'' (sh w1) (OriginalKey ''a1'') = None \<and>
     HandleDelete (reporting_processor sample_env ''b'') \<lparr>delAvatarID = ''a1'', delS3Keys = [OriginalKey ''a1'', ''k'']\<rparr> w1 = (Inr (), w2)"
proof -
  let ?ev = "\<lparr>delAvatarID = ''a1'', delS3Keys = [OriginalKey ''a1'', ''k'']\<rparr>" and ?p = "reporting_processor sample_env ''b''"
  obtain r w1 where run: "HandleDelete ?p ?ev (sample_stored ''abcd'') = (r, w1)" by fastforce
  obtain r2 w2 where again: "HandleDelete ?p ?ev w1 = (r2, w2)" by fastforce
  have w1: "script w1 = []" "buckets (sh w1) ''b'' \<noteq> None"
    using run HandleDelete_answered [OF sample_good, of "''abcd''" ?ev "sample_row ''a1'' 3 None" "''b''"] sample_row_a1
    by (auto simp: reporting_processor_same)
  note t = handle_delete_removes [OF sample_good _ insertI2 [OF singletonI] run, of "sample_row ''a1'' 3 None"]
  have "r = Inr () \<and> objects ''b'' (sh w1) (OriginalKey ''a1'') = None \<and> r2 = Inr ()"
    using t sample_row_a1 again w1 by simp
  with run again show ?thesis by blast
qed

end
