(* ===== verification/Consumer.thy ===== *)
theory Consumer
  imports Publisher
begin

section \<open>Consuming events (internal/broker/consumer.go)\<close>

text \<open>
  The retry cycle of one delivery, its settlement, the loop over one queue, and the group
  of goroutines that Run waits for. The context and the timer of the \<^verbatim>\<open>select\<close> statements
  are the parameter record \<open>context\<close>; a delivery carries its own Ack and Nack. The loop is
  a function of the sequence of choices its \<^verbatim>\<open>select\<close> makes, and the goroutines of Run
  are a step relation whose runs are all their interleavings.
\<close>

subsection \<open>Deliveries and handlers\<close>

record 'w goctx =
  ctxErr :: "'w \<Rightarrow> go_error option"
  waitFor :: "int \<Rightarrow> 'w \<Rightarrow> bool \<times> 'w"

record 'w Delivery =
  dBody :: "json option"
  dHeaders :: amqp_table
  dRoutingKey :: string
  dMessageId :: string
  dAck :: "('w, unit) io"
  dNack :: "bool \<Rightarrow> ('w, unit) io"

record 'w Handlers =
  OnUpload :: "UploadEvent \<Rightarrow> ('w, unit) io"
  OnDelete :: "DeleteEvent \<Rightarrow> ('w, unit) io"
  OnUploadDead :: "(UploadEvent \<Rightarrow> 'w \<Rightarrow> 'w) option"

record 'w broker_Consumer =
  cnConn :: "'w amqp_Connection"
  cnCh :: "'w amqp_Channel"
  cnBackoff :: "int list"

definition second :: int where
  "second = 1000000000"

definition defaultBackoff :: "int list" where
  "defaultBackoff = [second, 4 * second, 16 * second]"

definition NewConsumer ::
  "(string \<Rightarrow> ('w, 'w amqp_Connection) io) \<Rightarrow> string \<Rightarrow> int \<Rightarrow> ('w, 'w broker_Consumer) io" where
  "NewConsumer Dial url prefetch w =
     (if url = [] then (Inl (NewError ''broker: url is required''), w)
      else if prefetch < 1 then (Inl (NewError ''broker: prefetch must be at least 1''), w)
      else case Dial url w of
        (Inl e, w1) \<Rightarrow> (Inl (Wrapf ''dial rabbitmq'' e), w1)
      | (Inr conn, w1) \<Rightarrow>
          (case cnChannel conn w1 of
             (Inl e, w2) \<Rightarrow> (Inl (Wrapf ''open channel'' e), snd (cnClose conn w2))
           | (Inr ch, w2) \<Rightarrow>
               (case Declare ch w2 of
                  (Inl e, w3) \<Rightarrow> (Inl e, snd (cnClose conn w3))
                | (Inr _, w3) \<Rightarrow>
                    (case chQos ch prefetch w3 of
                       (Inl e, w4) \<Rightarrow> (Inl (Wrapf ''set qos'' e), snd (cnClose conn w4))
                     | (Inr _, w4) \<Rightarrow>
                         (Inr \<lparr>cnConn = conn, cnCh = ch, cnBackoff = defaultBackoff\<rparr>, w4)))))"

definition SetBackoff :: "'w broker_Consumer \<Rightarrow> int list \<Rightarrow> 'w broker_Consumer" where
  "SetBackoff c bs = c\<lparr>cnBackoff := bs\<rparr>"

definition consumer_Close :: "'w broker_Consumer \<Rightarrow> ('w, unit) io" where
  "consumer_Close c = cnClose (cnConn c)"

subsection \<open>One delivery\<close>

function withRetry :: "'w goctx \<Rightarrow> int list \<Rightarrow> ('w Delivery \<Rightarrow> ('w, unit) io) \<Rightarrow> 'w Delivery \<Rightarrow> nat \<Rightarrow>
    ('w, unit) io" where
  "withRetry ctx backoff handle d attempt w = (case handle d w of
     (Inr _, w1) \<Rightarrow> (Inr (), w1)
   | (Inl err, w1) \<Rightarrow>
       if length backoff \<le> attempt \<or> ctxErr ctx w1 \<noteq> None then (Inl err, w1)
       else (case waitFor ctx (backoff ! attempt) w1 of
          (False, w2) \<Rightarrow> (Inl err, w2)
        | (True, w2) \<Rightarrow> withRetry ctx backoff handle d (Suc attempt) w2))"
  by pat_completeness auto
termination
  by (relation "measure (\<lambda>(ctx, backoff, handle, d, attempt, w). length backoff - attempt)") auto

declare withRetry.simps [simp del]

definition process :: "'w goctx \<Rightarrow> int list \<Rightarrow> ('w Delivery \<Rightarrow> ('w, unit) io) \<Rightarrow>
    ('w Delivery \<Rightarrow> 'w \<Rightarrow> 'w) option \<Rightarrow> 'w Delivery \<Rightarrow> 'w \<Rightarrow> 'w" where
  "process ctx backoff handle dead d w = (case withRetry ctx backoff handle d 0 w of
     (Inr _, w1) \<Rightarrow> snd (dAck d w1)
   | (Inl err, w1) \<Rightarrow>
       if ctxErr ctx w1 \<noteq> None then snd (dNack d True w1)
       else (let w2 = (case dead of None \<Rightarrow> w1 | Some f \<Rightarrow> f d w1) in snd (dNack d False w2)))"

definition handle_upload :: "'w Handlers \<Rightarrow> 'w Delivery \<Rightarrow> ('w, unit) io" where
  "handle_upload h d w = (case unmarshal_upload (dBody d) of
     Inl e \<Rightarrow> (Inl (Wrapf ''decode upload event'' e), w)
   | Inr ev \<Rightarrow> OnUpload h ev w)"

definition handle_delete :: "'w Handlers \<Rightarrow> 'w Delivery \<Rightarrow> ('w, unit) io" where
  "handle_delete h d w = (case unmarshal_delete (dBody d) of
     Inl e \<Rightarrow> (Inl (Wrapf ''decode delete event'' e), w)
   | Inr ev \<Rightarrow> OnDelete h ev w)"

definition dead_upload :: "'w Handlers \<Rightarrow> 'w Delivery \<Rightarrow> 'w \<Rightarrow> 'w" where
  "dead_upload h d w = (case OnUploadDead h of
     None \<Rightarrow> w
   | Some f \<Rightarrow> (case unmarshal_upload (dBody d) of Inl _ \<Rightarrow> w | Inr ev \<Rightarrow> f ev w))"

subsection \<open>The loop over one queue\<close>

datatype 'w loop_event = CtxDone | ChanClosed | Msg "'w Delivery"

definition channel_closed :: go_error where
  "channel_closed = NewError ''delivery channel closed''"

text \<open>\<open>None\<close>: the loop is still running when the given choices are used up.\<close>

fun loop :: "'w goctx \<Rightarrow> ('w Delivery \<Rightarrow> 'w \<Rightarrow> 'w) \<Rightarrow> 'w loop_event list \<Rightarrow> 'w \<Rightarrow> unit res option \<times> 'w" where
  "loop ctx proc [] w = (None, w)"
| "loop ctx proc (CtxDone # _) w =
     (Some (case ctxErr ctx w of Some e \<Rightarrow> Inl e | None \<Rightarrow> Inr ()), w)"
| "loop ctx proc (ChanClosed # _) w =
     (Some (if ctxErr ctx w \<noteq> None then Inr () else Inl channel_closed), w)"
| "loop ctx proc (Msg d # evs) w = loop ctx proc evs (proc d w)"

lemma loop_messages:
  "loop ctx proc (map Msg ds @ evs) w = loop ctx proc evs (fold proc ds w)"
  by (induction ds arbitrary: w) simp_all

subsection \<open>Properties of one delivery\<close>

text \<open>
  What a run of withRetry went through, for any quantity that each call of the handler
  advances by one and the waiting leaves alone.
\<close>

lemma withRetry_run:
  assumes calls: "\<And>v. calls (snd (handle d v)) = Suc (calls v)" "\<And>t v. calls (snd (waitFor ctx t v)) = calls v"
    and "withRetry ctx backoff handle d attempt w = (r, w')"
  shows "calls w < calls w' \<and> calls w' \<le> Suc (calls w + (length backoff - attempt)) \<and>
    ((\<forall>v. ctxErr ctx v = None) \<and> (\<forall>t v. fst (waitFor ctx t v)) \<and> (\<exists>e. r = Inl e) \<longrightarrow>
       calls w' = Suc (calls w + (length backoff - attempt)))"
  using assms(3)
proof (induction "length backoff - attempt" arbitrary: attempt w)
  case 0
  obtain r1 w1 where h: "handle d w = (r1, w1)" by fastforce
  then have "(r, w') = (r1, w1)"
    using 0 by (subst (asm) withRetry.simps) (auto split: sum.splits)
  with calls(1) [of w] h 0 show ?case by simp
next
  case (Suc n)
  obtain r1 w1 where h: "handle d w = (r1, w1)" by fastforce
  have c1: "calls w1 = Suc (calls w)" using calls(1) [of w] h by simp
  show ?case
  proof (cases "(\<exists>e. r1 = Inl e) \<and> ctxErr ctx w1 = None")
    case False
    then have "(r, w') = (r1, w1)"
      using Suc.prems h by (subst (asm) withRetry.simps) (cases r1; auto split: if_splits)
    with c1 False show ?thesis by auto
  next
    case True
    obtain t w2 where wt: "waitFor ctx (backoff ! attempt) w1 = (t, w2)" by fastforce
    have c2: "calls w2 = Suc (calls w)" using calls(2) [of "backoff ! attempt" w1] wt c1 by simp
    have more: "\<not> length backoff \<le> attempt" using Suc.hyps(2) by simp
    have run: "(r, w') = (if t then withRetry ctx backoff handle d (Suc attempt) w2 else (r1, w2))"
      using Suc.prems more h wt True
      by (subst (asm) withRetry.simps) (auto split: bool.splits)
    show ?thesis
    proof (cases t)
      case True
      have n: "n = length backoff - Suc attempt" using Suc.hyps(2) by simp
      have "withRetry ctx backoff handle d (Suc attempt) w2 = (r, w')" using run True by simp
      from Suc.hyps(1) [OF n this] c2 Suc.hyps(2) show ?thesis by auto
    next
      case False
      then have "\<not> (\<forall>t v. fst (waitFor ctx t v))" using wt by (metis fst_conv)
      with run False c2 show ?thesis by auto
    qed
  qed
qed

text \<open>
  C30: the retry cycle is bounded. The handler is called at least once and at most once plus
  the number of back-off entries (so at most four times with the default schedule); when
  neither a shutdown nor a success cuts the cycle short it is called exactly that often.
  The cycle ends whatever the handler does.
\<close>

theorem retry_bounded:
  assumes "\<And>v. calls (snd (handle d v)) = Suc (calls v)" and "\<And>t v. calls (snd (waitFor ctx t v)) = calls v"
    and "withRetry ctx backoff handle d 0 w = (r, w')"
  shows "calls w + 1 \<le> calls w' \<and> calls w' \<le> calls w + 1 + length backoff \<and>
    ((\<forall>v. ctxErr ctx v = None) \<and> (\<forall>t v. fst (waitFor ctx t v)) \<and> (\<exists>e. r = Inl e) \<longrightarrow>
       calls w' = calls w + 1 + length backoff)"
  using withRetry_run [of calls handle d ctx, OF assms] by auto

lemma withRetry_unchanged:
  assumes "\<And>v. log (snd (handle d v)) = log v" and "\<And>t v. log (snd (waitFor ctx t v)) = log v"
    and "withRetry ctx backoff handle d attempt w = (r, w')"
  shows "log w' = log w"
  using assms(3)
proof (induction "length backoff - attempt" arbitrary: attempt w)
  case (0 attempt w)
  then show ?case
    using assms(1) [of w] by (subst (asm) withRetry.simps) (auto split: prod.splits sum.splits)
next
  case (Suc n)
  obtain r1 w1 where h: "handle d w = (r1, w1)" by fastforce
  obtain t w2 where wt: "waitFor ctx (backoff ! attempt) w1 = (t, w2)" by fastforce
  have l: "log w1 = log w" "log w2 = log w"
    using assms(1) [of w] assms(2) [of "backoff ! attempt" w1] h wt by simp_all
  have n: "n = length backoff - Suc attempt" using Suc.hyps(2) by simp
  from Suc.prems h wt l Suc.hyps(1) [OF n, of w2] show ?case
    by (subst (asm) withRetry.simps) (auto split: sum.splits if_splits bool.splits)
qed

datatype settlement = Acked | Requeued | DeadLettered

text \<open>
  C29: every delivery is settled exactly once, whatever the handler, the timers and a
  shutdown do: acknowledged if an attempt succeeded, requeued for another worker if it
  failed while shutting down, and dead-lettered otherwise, after the dead callback. The
  hypotheses say that log records the settlements and that nothing else writes to it.
\<close>

theorem delivery_settled_once:
  assumes "\<And>v. log (snd (handle d v)) = log v" and "\<And>t v. log (snd (waitFor ctx t v)) = log v"
    and "\<And>f v. dead = Some f \<Longrightarrow> log (f d v) = log v"
    and "\<And>v. log (snd (dAck d v)) = log v @ [Acked]"
    and "\<And>q v. log (snd (dNack d q v)) = log v @ [if q then Requeued else DeadLettered]"
  shows "log (process ctx backoff handle dead d w) = log w @
    [case withRetry ctx backoff handle d 0 w of
       (Inr _, _) \<Rightarrow> Acked
     | (Inl _, w1) \<Rightarrow> if ctxErr ctx w1 \<noteq> None then Requeued else DeadLettered]"
proof -
  obtain r w1 where run: "withRetry ctx backoff handle d 0 w = (r, w1)" by fastforce
  have "log w1 = log w" by (rule withRetry_unchanged [of log, OF assms(1,2) run])
  with run assms(3-5) show ?thesis
    by (auto simp: process_def Let_def split: sum.splits option.splits)
qed

lemma withRetry_stuck:
  assumes "\<And>v. handle d v = (Inl e, v)" and "\<And>v. ctxErr ctx v = None" and "\<And>t v. waitFor ctx t v = (True, v)"
  shows "withRetry ctx backoff handle d attempt w = (Inl e, w)"
proof (induction "length backoff - attempt" arbitrary: attempt)
  case 0
  then show ?case by (subst withRetry.simps) (simp add: assms)
next
  case (Suc n)
  then have "n = length backoff - Suc attempt" by simp
  from Suc.hyps(1) [OF this] show ?case
    by (subst withRetry.simps) (simp add: assms)
qed

text \<open>
  a poison message never reaches the application. A delivery on the upload queue whose
  body does not decode is, when nothing shuts down, dead-lettered without a call of
  OnUpload or OnUploadDead, its error being the decoding error; the waits between its
  retries change nothing.
\<close>

theorem poison_message:
  assumes "unmarshal_upload (dBody d) = Inl e"
    and "\<And>v. ctxErr ctx v = None" and "\<And>t v. waitFor ctx t v = (True, v)"
  shows "withRetry ctx backoff (handle_upload h) d 0 w = (Inl (Wrapf ''decode upload event'' e), w) \<and>
    process ctx backoff (handle_upload h) (Some (dead_upload h)) d w = snd (dNack d False w)"
proof -
  have "withRetry ctx backoff (handle_upload h) d 0 w = (Inl (Wrapf ''decode upload event'' e), w)"
    by (rule withRetry_stuck) (simp_all add: handle_upload_def assms)
  moreover have "dead_upload h d v = v" for v
    by (simp add: dead_upload_def assms(1) split: option.splits)
  ultimately show ?thesis by (simp add: process_def assms(2))
qed

text \<open>
  events arrive as they were published. The body the publisher makes of an event whose
  fields are valid UTF-8 is decoded by the consumer to the same event, for both kinds, so
  the handler sees what the service published; invalid bytes are replaced, never dropped.
\<close>

theorem event_delivery:
  "(dBody d = Some (mBody (upload_message E ev)) \<longrightarrow>
      handle_upload h d w = OnUpload h \<lparr>upAvatarID = clean (upAvatarID ev), upUserID = clean (upUserID ev),
        upS3Key = clean (upS3Key ev)\<rparr> w) \<and>
   (dBody d = Some (mBody (delete_message E dv)) \<longrightarrow>
      handle_delete h d w = OnDelete h \<lparr>delAvatarID = clean (delAvatarID dv), delS3Keys = map clean (delS3Keys dv)\<rparr> w) \<and>
   (\<forall>s. valid_utf8 s \<longrightarrow> clean s = s)"
  by (simp add: handle_upload_def handle_delete_def upload_message_def delete_message_def
      upload_roundtrip_clean delete_roundtrip_clean)

subsection \<open>The goroutines of Run\<close>

text \<open>
  Run opens both delivery channels (\<open>Run_consume\<close>), then starts the two loops and a closer in an errgroup. The group's context is done when
  the parent context is done or a goroutine has returned an error; the first error is what
  Wait returns. Besides the goroutines the parent may cancel and the connection may die at
  any moment. A loop that is working on a delivery is a loop that has not returned yet.
\<close>

datatype goroutine = Running | Returned "go_error option"

record group =
  upLoop :: goroutine
  delLoop :: goroutine
  closer :: goroutine
  parentDone :: bool
  firstErr :: "go_error option"
  connClosed :: bool

definition started :: group where
  "started = \<lparr>upLoop = Running, delLoop = Running, closer = Running, parentDone = False,
     firstErr = None, connClosed = False\<rparr>"

definition gctxDone :: "group \<Rightarrow> bool" where
  "gctxDone g \<longleftrightarrow> parentDone g \<or> firstErr g \<noteq> None"

definition note_error :: "go_error option \<Rightarrow> group \<Rightarrow> group" where
  "note_error e g = g\<lparr>firstErr := (case firstErr g of None \<Rightarrow> e | Some e0 \<Rightarrow> Some e0)\<rparr>"

definition Run_consume :: "'w broker_Consumer \<Rightarrow> ('w, unit) io" where
  "Run_consume c w = (case chConsume (cnCh c) QueueUpload w of
     (Inl e, w1) \<Rightarrow> (Inl (Wrapf (''consume '' @ QueueUpload) e), w1)
   | (Inr _, w1) \<Rightarrow>
       (case chConsume (cnCh c) QueueDelete w1 of
          (Inl e, w2) \<Rightarrow> (Inl (Wrapf (''consume '' @ QueueDelete) e), w2)
        | (Inr _, w2) \<Rightarrow> (Inr (), w2)))"

text \<open>What a loop can return: \<^verbatim>\<open>ctx.Err()\<close>, or the verdict on a closed delivery channel.\<close>

inductive loop_return :: "group \<Rightarrow> go_error option \<Rightarrow> bool" where
  ctx_done: "gctxDone g \<Longrightarrow> loop_return g (Some Canceled)"
| chan_closed: "connClosed g \<Longrightarrow> loop_return g (if gctxDone g then None else Some channel_closed)"

inductive run_step :: "group \<Rightarrow> group \<Rightarrow> bool" where
  cancel: "run_step g (g\<lparr>parentDone := True\<rparr>)"
| conn_dies: "run_step g (g\<lparr>connClosed := True\<rparr>)"
| up_returns: "upLoop g = Running \<Longrightarrow> loop_return g e \<Longrightarrow>
    run_step g (note_error e (g\<lparr>upLoop := Returned e\<rparr>))"
| del_returns: "delLoop g = Running \<Longrightarrow> loop_return g e \<Longrightarrow>
    run_step g (note_error e (g\<lparr>delLoop := Returned e\<rparr>))"
| closes: "closer g = Running \<Longrightarrow> gctxDone g \<Longrightarrow>
    (connClosed g \<Longrightarrow> e = Some ErrAmqpClosed) \<Longrightarrow>
    run_step g (note_error e (g\<lparr>closer := Returned e, connClosed := True\<rparr>))"

inductive_simps loop_return_iff: "loop_return g e"
inductive_cases run_stepE: "run_step g g'"

definition waited :: "group \<Rightarrow> bool" where
  "waited g \<longleftrightarrow> upLoop g \<noteq> Running \<and> delLoop g \<noteq> Running \<and> closer g \<noteq> Running"

definition Run_result :: "group \<Rightarrow> unit res" where
  "Run_result g = (case firstErr g of
     None \<Rightarrow> Inr ()
   | Some e \<Rightarrow> if errors_is e Canceled \<or> errors_is e ErrAmqpClosed then Inr () else Inl e)"

text \<open>Until the parent is cancelled the only error a goroutine can be first with is the lost channel.\<close>

definition run_inv :: "group \<Rightarrow> bool" where
  "run_inv g \<longleftrightarrow>
     (\<not> parentDone g \<longrightarrow> firstErr g = None \<or> firstErr g = Some channel_closed) \<and>
     (firstErr g = None \<longrightarrow> \<not> parentDone g \<longrightarrow> upLoop g = Running \<and> delLoop g = Running \<and> closer g = Running)"

lemma run_inv_started: "run_inv started"
  by (simp add: run_inv_def started_def)

lemma run_inv_step: "run_step g g' \<Longrightarrow> run_inv g \<Longrightarrow> run_inv g'"
  by (erule run_stepE)
     (auto simp: run_inv_def note_error_def gctxDone_def loop_return_iff split: option.splits if_splits)

lemma run_inv_reachable: "run_step\<^sup>*\<^sup>* started g \<Longrightarrow> run_inv g"
  by (induction rule: rtranclp_induct) (auto intro: run_inv_started run_inv_step)

text \<open>
  C31: Run does not end silently. In every interleaving of the two loops, the closer, a
  cancelling parent and a dying connection: Run returns no error only if the parent
  context was cancelled; a connection that dies while nobody asked for a shutdown makes
  Run return the error of the lost delivery channel.
\<close>

theorem run_reports_lost_connection:
  assumes "run_step\<^sup>*\<^sup>* started g" and "waited g" and "\<not> parentDone g"
  shows "Run_result g = Inl channel_closed"
  using run_inv_reachable [OF assms(1)] assms(2,3)
  by (auto simp: run_inv_def waited_def Run_result_def channel_closed_def)

text \<open>
  a clean shutdown is no error. If the parent is cancelled while no goroutine has
  failed, then in every continuation Run returns no error, or the error with which the
  connection itself refused to close.
\<close>

theorem run_clean_shutdown:
  assumes "parentDone g0" and "firstErr g0 = None"
    and "run_step\<^sup>*\<^sup>* g0 g" and "waited g"
  shows "Run_result g = Inr () \<or> (\<exists>e. closer g = Returned (Some e) \<and> Run_result g = Inl e)"
proof -
  have "parentDone g \<and> (firstErr g = None \<or> firstErr g = Some Canceled \<or>
      (\<exists>e. firstErr g = Some e \<and> closer g = Returned (Some e)))"
    using assms(3)
  proof (induction rule: rtranclp_induct)
    case base
    then show ?case using assms(1,2) by simp
  next
    case (step h h')
    from step(2,3) show ?case
      by (auto elim!: run_stepE simp: note_error_def gctxDone_def loop_return_iff split: if_splits option.splits)
  qed
  then show ?thesis by (auto simp: Run_result_def split: option.splits)
qed

subsection \<open>Concrete runs\<close>

definition sample_ctx :: "'w goctx" where
  "sample_ctx = \<lparr>ctxErr = (\<lambda>_. None), waitFor = (\<lambda>t w. (True, w))\<rparr>"

definition sample_delivery :: "json option \<Rightarrow> settlement list Delivery" where
  "sample_delivery body = \<lparr>dBody = body, dHeaders = [], dRoutingKey = QueueUpload, dMessageId = ''a1'',
     dAck = (\<lambda>l. (Inr (), l @ [Acked])), dNack = (\<lambda>q l. (Inr (), l @ [if q then Requeued else DeadLettered]))\<rparr>"

theorem retry_bounded_witness:
  "\<exists>r l. withRetry sample_ctx defaultBackoff (\<lambda>d l. (Inl ErrNotFound, l @ [Acked])) (sample_delivery None) 0 [] = (r, l) \<and>
     1 \<le> length l \<and> length l \<le> 4"
proof -
  let ?h = "\<lambda>d l. (Inl ErrNotFound :: unit res, l @ [Acked])"
  obtain r l where run: "withRetry sample_ctx defaultBackoff ?h (sample_delivery None) 0 [] = (r, l)" by fastforce
  from retry_bounded [of length ?h "sample_delivery None" sample_ctx, OF _ _ run] run show ?thesis
    by (intro exI [of _ r] exI [of _ l]) (simp add: sample_ctx_def defaultBackoff_def)
qed

theorem delivery_settled_once_witness:
  "process sample_ctx [] (\<lambda>d l. (Inl ErrNotFound, l)) None (sample_delivery None) [] = [DeadLettered]"
proof -
  let ?h = "\<lambda>d l. (Inl ErrNotFound :: unit res, l :: settlement list)"
  have "withRetry sample_ctx [] ?h (sample_delivery None) 0 [] = (Inl ErrNotFound, [])"
    by (subst withRetry.simps) simp
  with delivery_settled_once [of id ?h "sample_delivery None" sample_ctx None "[]" "[]"] show ?thesis
    by (simp add: sample_ctx_def sample_delivery_def)
qed

theorem poison_message_witness:
  "process sample_ctx defaultBackoff
     (handle_upload \<lparr>OnUpload = (\<lambda>_ l. (Inr (), l)), OnDelete = (\<lambda>_ l. (Inr (), l)), OnUploadDead = None\<rparr>)
     (Some (dead_upload \<lparr>OnUpload = (\<lambda>_ l. (Inr (), l)), OnDelete = (\<lambda>_ l. (Inr (), l)), OnUploadDead = None\<rparr>))
     (sample_delivery None) [] = [DeadLettered]"
proof -
  have "unmarshal_upload (dBody (sample_delivery None)) = Inl syntax_error"
    by (simp add: sample_delivery_def unmarshal_simps)
  from poison_message [OF this, of sample_ctx defaultBackoff
      "\<lparr>OnUpload = (\<lambda>_ l. (Inr (), l)), OnDelete = (\<lambda>_ l. (Inr (), l)), OnUploadDead = None\<rparr>" "[]"]
  show ?thesis by (simp add: sample_ctx_def) (simp add: sample_delivery_def)
qed

abbreviation echo :: "settlement list Handlers" where
  "echo \<equiv> \<lparr>OnUpload = (\<lambda>ev l. (Inl (NewError (upAvatarID ev)), l)), OnDelete = (\<lambda>_ l. (Inr (), l)), OnUploadDead = None\<rparr>"

theorem event_delivery_witness:
  "handle_upload echo (sample_delivery (Some (mBody (upload_message sample_env
     \<lparr>upAvatarID = ''a'', upUserID = ''u'', upS3Key = ''k''\<rparr>)))) [] = (Inl (NewError ''a''), [])"
proof -
  let ?ev = "\<lparr>upAvatarID = ''a'', upUserID = ''u'', upS3Key = ''k''\<rparr>"
  let ?d = "sample_delivery (Some (mBody (upload_message sample_env ?ev)))"
  have body: "dBody ?d = Some (mBody (upload_message sample_env ?ev))"
    by (simp only: sample_delivery_def Delivery.select_convs)
  have "runes ''a'' = [97]" by code_simp
  moreover have "string_of_runes [97] = ''a''"
    by (simp add: string_of_runes_def encode_runes_def encode_rune_def valid_rune_def char_of_def bit_0)
  ultimately have "clean (upAvatarID ?ev) = ''a''" by (simp add: clean_def)
  with event_delivery [THEN conjunct1, THEN mp, OF body, of echo "[]"] show ?thesis
    by (simp only: Handlers.select_convs UploadEvent.select_convs)
qed

theorem run_reports_lost_connection_witness:
  "\<exists>g. run_step\<^sup>*\<^sup>* started g \<and> Run_result g = Inl channel_closed"
proof -
  let ?g1 = "started\<lparr>connClosed := True\<rparr>"
  let ?g2 = "note_error (Some channel_closed) (?g1\<lparr>upLoop := Returned (Some channel_closed)\<rparr>)"
  let ?g3 = "note_error (Some Canceled) (?g2\<lparr>delLoop := Returned (Some Canceled)\<rparr>)"
  let ?g4 = "note_error (Some ErrAmqpClosed) (?g3\<lparr>closer := Returned (Some ErrAmqpClosed), connClosed := True\<rparr>)"
  have "loop_return ?g1 (Some channel_closed)" "loop_return ?g2 (Some Canceled)"
    by (simp_all add: loop_return_iff gctxDone_def note_error_def started_def)
  then have "run_step started ?g1" "run_step ?g1 ?g2" "run_step ?g2 ?g3" "run_step ?g3 ?g4"
    by (intro run_step.intros; simp add: started_def note_error_def gctxDone_def)+
  then have "run_step\<^sup>*\<^sup>* started ?g4"
    by (meson converse_rtranclp_into_rtranclp rtranclp.rtrancl_refl)
  moreover have "waited ?g4" "\<not> parentDone ?g4"
    by (simp_all add: waited_def note_error_def started_def)
  ultimately show ?thesis using run_reports_lost_connection by blast
qed

theorem run_clean_shutdown_witness:
  "\<exists>g. run_step\<^sup>*\<^sup>* started g \<and> parentDone g \<and> Run_result g = Inr ()"
proof -
  let ?g1 = "started\<lparr>parentDone := True\<rparr>"
  let ?g2 = "note_error (Some Canceled) (?g1\<lparr>upLoop := Returned (Some Canceled)\<rparr>)"
  let ?g3 = "note_error (Some Canceled) (?g2\<lparr>delLoop := Returned (Some Canceled)\<rparr>)"
  let ?g4 = "note_error None (?g3\<lparr>closer := Returned None, connClosed := True\<rparr>)"
  have "loop_return ?g1 (Some Canceled)" "loop_return ?g2 (Some Canceled)"
    by (simp_all add: loop_return_iff gctxDone_def note_error_def started_def)
  then have steps: "run_step started ?g1" "run_step ?g1 ?g2" "run_step ?g2 ?g3" "run_step ?g3 ?g4"
    by (intro run_step.intros; simp add: started_def note_error_def gctxDone_def)+
  then have reach: "run_step\<^sup>*\<^sup>* ?g1 ?g4" "run_step\<^sup>*\<^sup>* started ?g4"
    by (meson converse_rtranclp_into_rtranclp rtranclp.rtrancl_refl)+
  have "Run_result ?g4 = Inr () \<or> (\<exists>e. closer ?g4 = Returned (Some e) \<and> Run_result ?g4 = Inl e)"
    by (rule run_clean_shutdown [OF _ _ reach(1)]) (simp_all add: started_def waited_def note_error_def)
  then have "Run_result ?g4 = Inr ()" by (simp add: note_error_def)
  with reach(2) show ?thesis by (intro exI [of _ ?g4]) (simp add: note_error_def started_def)
qed

end
