(* ===== verification/Http.thy ===== *)
theory Http
  imports Json
begin

section \<open>HTTP requests, responses and panics (net/http)\<close>

text \<open>
  What the handlers and the middleware of internal/server/httpserver use of net/http: the
  response writer, whose status line and headers are frozen by the first WriteHeader or
  Write; the request with its declared length and multipart body; functions that may panic
  instead of returning. The wrapper \<^verbatim>\<open>statusWriter\<close> of server.go is the field \<open>watched\<close>:
  the code the wrapper remembers, while there is one. The helpers \<^verbatim>\<open>writeJSON\<close> and
  \<^verbatim>\<open>writeError\<close> of handlers.go, used by every other file of the package, are here too.
  What the server does with a body longer than a Content-Length it was given, and writes
  that fail because the client is gone, are left out.
\<close>

subsection \<open>Functions that may panic\<close>

datatype 'a go = Value 'a | Panic string

type_synonym ('w, 'a) call = "'w \<Rightarrow> 'a go \<times> 'w"

definition total_call :: "('w \<Rightarrow> 'a \<times> 'w) \<Rightarrow> ('w, 'a) call" where
  "total_call m w = (case m w of (a, w') \<Rightarrow> (Value a, w'))"

lemma total_call_eq [simp]: "total_call m w = (Value (fst (m w)), snd (m w))"
  by (simp add: total_call_def split: prod.splits)

subsection \<open>The response writer\<close>

datatype chunk = JsonText json | RawBytes bytes

record response =
  headers :: "string \<rightharpoonup> string"
  statusLine :: "(int \<times> (string \<rightharpoonup> string)) option"
  chunks :: "chunk list"
  watched :: "int option"

definition fresh_response :: response where
  "fresh_response = \<lparr>headers = Map.empty, statusLine = None, chunks = [], watched = None\<rparr>"

definition set_header :: "string \<Rightarrow> string \<Rightarrow> response \<Rightarrow> response" where
  "set_header k v r = r\<lparr>headers := (headers r)(k \<mapsto> v)\<rparr>"

definition commit_header :: "int \<Rightarrow> response \<Rightarrow> response" where
  "commit_header code r = (case statusLine r of
     Some _ \<Rightarrow> r
   | None \<Rightarrow> r\<lparr>statusLine := Some (code, headers r)\<rparr>)"

text \<open>\<^verbatim>\<open>statusWriter.WriteHeader\<close>: the wrapper notes the code, then the call goes through.\<close>

definition write_header :: "int \<Rightarrow> response \<Rightarrow> response" where
  "write_header code r = commit_header code (r\<lparr>watched := map_option (\<lambda>_. code) (watched r)\<rparr>)"

text \<open>Write sends an implicit 200 past the wrapper; a response of status 204 has no body.\<close>

definition write_chunk :: "chunk \<Rightarrow> response \<Rightarrow> response" where
  "write_chunk b r = (let r1 = commit_header 200 r in
     if map_option fst (statusLine r1) = Some 204 then r1 else r1\<lparr>chunks := chunks r1 @ [b]\<rparr>)"

text \<open>What the client gets when the handler has returned: 200 if nothing was written.\<close>

definition answer_status :: "response \<Rightarrow> int" where
  "answer_status r = (case statusLine r of Some (code, _) \<Rightarrow> code | None \<Rightarrow> 200)"

definition answer_header :: "response \<Rightarrow> string \<Rightarrow> string option" where
  "answer_header r = (case statusLine r of Some (_, hs) \<Rightarrow> hs | None \<Rightarrow> headers r)"

subsection \<open>Requests\<close>

text \<open>
  A file part of a multipart form: its field, its file name and what opening and then
  reading it gives. A reading of the body is the number of bytes \<^verbatim>\<open>ParseMultipartForm\<close>
  takes to reach its verdict, and the verdict. A reading that fails leaves the reader where
  it stopped, so the next call makes a second reading of the rest.
\<close>

record part =
  pField :: string
  pFilename :: string
  pOpen :: "bytes res res"

type_synonym form_reading = "int \<times> (part list) res"

record request =
  Method :: string
  Path :: string
  Header :: "string \<Rightarrow> string"
  URLParam :: "string \<Rightarrow> string"
  ContentLength :: int
  queryErr :: "go_error option"
  firstForm :: form_reading
  secondForm :: form_reading

text \<open>\<^verbatim>\<open>http.MaxBytesReader\<close>: a reading that needs more than the limit ends in MaxBytesError.\<close>

definition read_form :: "int \<Rightarrow> form_reading \<Rightarrow> (part list) res" where
  "read_form limit f = (if limit < fst f then Inl (Wrapf ''multipart: NextPart'' (MaxBytesError limit)) else snd f)"

definition ErrMissingFile :: go_error where
  "ErrMissingFile = NewError ''http: no such file''"

definition open_part :: "string \<Rightarrow> part list \<Rightarrow> (string \<times> bytes res) res" where
  "open_part key ps = (case find (\<lambda>p. pField p = key) ps of
     None \<Rightarrow> Inl ErrMissingFile
   | Some p \<Rightarrow> (case pOpen p of Inl e \<Rightarrow> Inl e | Inr content \<Rightarrow> Inr (pFilename p, content)))"

text \<open>
  \<^verbatim>\<open>Request.FormFile\<close>, called first with one key and, if that fails, with another. A form
  that was read stays: an error of the query string is reported by the first call only.
\<close>

definition FormFile1 :: "int \<Rightarrow> request \<Rightarrow> string \<Rightarrow> (string \<times> bytes res) res" where
  "FormFile1 limit r key = (case read_form limit (firstForm r) of
     Inl e \<Rightarrow> Inl e
   | Inr ps \<Rightarrow> (case queryErr r of Some e \<Rightarrow> Inl e | None \<Rightarrow> open_part key ps))"

text \<open>The reader over the limit stays at its error; otherwise it has that much less to give.\<close>

definition FormFile2 :: "int \<Rightarrow> request \<Rightarrow> string \<Rightarrow> (string \<times> bytes res) res" where
  "FormFile2 limit r key = (case read_form limit (firstForm r) of
     Inr ps \<Rightarrow> open_part key ps
   | Inl _ \<Rightarrow>
       (if limit < fst (firstForm r) + fst (secondForm r)
        then Inl (Wrapf ''multipart: NextPart'' (MaxBytesError limit))
        else case snd (secondForm r) of Inl e \<Rightarrow> Inl e | Inr ps \<Rightarrow> open_part key ps))"

fun errors_as_max_bytes :: "go_error \<Rightarrow> bool" where
  "errors_as_max_bytes (MaxBytesError _) = True"
| "errors_as_max_bytes (Wrapf _ e) = errors_as_max_bytes e"
| "errors_as_max_bytes _ = False"

subsection \<open>Handlers and the JSON helpers\<close>

record 'w conn =
  cState :: 'w
  cResp :: response

type_synonym 'w http_handler = "request \<Rightarrow> ('w conn, unit) call"

definition answer :: "(response \<Rightarrow> response) \<Rightarrow> 'w conn \<Rightarrow> 'w conn" where
  "answer f c = c\<lparr>cResp := f (cResp c)\<rparr>"

lemma answer_sel [simp]: "cState (answer f c) = cState c" "cResp (answer f c) = f (cResp c)"
  by (simp_all add: answer_def)

lemma conn_updates [simp]:
  "(c :: 'w conn)\<lparr>cResp := rs, cState := w\<rparr> = \<lparr>cState = w, cResp = rs\<rparr>"
  "(c :: 'w conn)\<lparr>cState := w, cResp := rs\<rparr> = \<lparr>cState = w, cResp = rs\<rparr>"
  by (cases c; simp)+

definition writeJSON :: "int \<Rightarrow> json \<Rightarrow> response \<Rightarrow> response" where
  "writeJSON code body r =
     write_chunk (JsonText body) (write_header code (set_header ''Content-Type'' ''application/json'' r))"

definition writeError :: "int \<Rightarrow> string \<Rightarrow> response \<Rightarrow> response" where
  "writeError code msg = writeJSON code (JObj [(''error'', json_string msg)])"

definition maxUploadBytes :: int where
  "maxUploadBytes = 10 * 2 ^ 20"

definition writeTooLarge :: "response \<Rightarrow> response" where
  "writeTooLarge = writeJSON 413 (JObj [(''error'', json_string ''File too large''), (''max_size'', JNum maxUploadBytes)])"

lemmas http_simps = writeJSON_def writeError_def writeTooLarge_def write_chunk_def write_header_def
  commit_header_def set_header_def answer_status_def answer_header_def fresh_response_def

text \<open>An answer on a response nobody has touched is what the client gets.\<close>

lemma writeJSON_fresh:
  assumes "statusLine r = None" "chunks r = []" and "code \<noteq> 204"
  shows "answer_status (writeJSON code j r) = code \<and> chunks (writeJSON code j r) = [JsonText j] \<and>
    answer_header (writeJSON code j r) ''Content-Type'' = Some ''application/json''"
  using assms by (simp add: http_simps)

text \<open>
  While a wrapper watches, it knows the status the client gets: nothing was sent and it is
  at its default, or it remembers what was sent.
\<close>

definition honest :: "response \<Rightarrow> bool" where
  "honest r \<longleftrightarrow> watched r = Some (answer_status r)"

definition untouched :: "response \<Rightarrow> bool" where
  "untouched r \<longleftrightarrow> statusLine r = None \<and> chunks r = [] \<and> watched r = Some 200"

lemma untouched_honest [intro]: "untouched r \<Longrightarrow> honest r"
  by (simp add: untouched_def honest_def answer_status_def)

lemma untouched_set_header [simp]: "untouched (set_header k v r) = untouched r"
  by (simp add: untouched_def set_header_def)

lemma honest_write_header: "untouched r \<Longrightarrow> honest (write_header code r)"
  by (simp add: untouched_def honest_def http_simps)

lemma honest_write_chunk: "honest r \<Longrightarrow> honest (write_chunk b r)"
  by (auto simp: honest_def http_simps Let_def split: option.splits)

lemma honest_writeJSON: "untouched r \<Longrightarrow> honest (writeJSON code j r)"
  unfolding writeJSON_def by (intro honest_write_chunk honest_write_header) simp

lemma honest_writeError: "untouched r \<Longrightarrow> honest (writeError code m r)"
  by (simp add: writeError_def honest_writeJSON)

lemma honest_writeTooLarge: "untouched r \<Longrightarrow> honest (writeTooLarge r)"
  by (simp add: writeTooLarge_def honest_writeJSON)

lemmas honest_rules = honest_write_header honest_write_chunk honest_writeJSON honest_writeError
  honest_writeTooLarge untouched_honest

end
