(* ===== verification/Handlers.thy ===== *)
theory Handlers
  imports Http Service "HOL-Library.List_Lexorder" "HOL-Library.Char_ord"
begin

section \<open>The REST handlers (internal/server/httpserver/handlers.go)\<close>

text \<open>
  One definition per handler, over the interface \<open>AvatarService\<close>, whose methods may panic.
  A handler is a function of the request and of the connection, the state of the service
  and the response under construction. The deferred observation of \<open>upload\<close> runs on every
  exit, a panic included. Log lines have no effect and are left out; times are integers,
  rendered for JSON by a parameter.
\<close>

subsection \<open>Interfaces\<close>

record 'w AvatarService =
  aUpload :: "string \<Rightarrow> string \<Rightarrow> bytes \<Rightarrow> ('w, avatar res) call"
  aMetadata :: "string \<Rightarrow> ('w, avatar res) call"
  aList :: "string \<Rightarrow> ('w, (avatar list) res) call"
  aGetFile :: "string \<Rightarrow> ('w, 'w File res) call"
  aLatestFile :: "string \<Rightarrow> ('w, 'w File res) call"
  aThumbnailFile :: "string \<Rightarrow> string \<Rightarrow> ('w, 'w File res) call"
  aDelete :: "string \<Rightarrow> string \<Rightarrow> ('w, unit res) call"
  aDeleteLatest :: "string \<Rightarrow> string \<Rightarrow> ('w, unit res) call"

record 'w handlers =
  hSvc :: "'w AvatarService"
  hObserveUpload :: "string \<Rightarrow> int \<Rightarrow> 'w \<Rightarrow> 'w"
  hNow :: "'w \<Rightarrow> int"
  hFormatTime :: "int \<Rightarrow> string"

abbreviation StatusOK :: string where "StatusOK \<equiv> ''ok''"
abbreviation StatusError :: string where "StatusError \<equiv> ''error''"
abbreviation StatusRejected :: string where "StatusRejected \<equiv> ''rejected''"

definition maxUserIDLen :: nat where
  "maxUserIDLen = 255"

subsection \<open>Helpers\<close>

definition requireUserID :: "request \<Rightarrow> response \<Rightarrow> string option \<times> response" where
  "requireUserID r rs = (let userID = Header r ''X-User-ID'' in
     if userID = [] then (None, writeError 400 ''X-User-ID header is required'' rs)
     else if maxUserIDLen < length (runes userID) then (None, writeError 400 ''X-User-ID is too long'' rs)
     else (Some userID, rs))"

definition isTooLarge :: "go_error \<Rightarrow> bool" where
  "isTooLarge = errors_as_max_bytes"

definition formFile :: "request \<Rightarrow> (string \<times> bytes res) res" where
  "formFile r = (case FormFile1 maxUploadBytes r ''file'' of
     Inr f \<Rightarrow> Inr f
   | Inl e \<Rightarrow> if isTooLarge e then Inl e else FormFile2 maxUploadBytes r ''image'')"

definition serviceError :: "go_error \<Rightarrow> response \<Rightarrow> response" where
  "serviceError err rs =
     (if errors_is err ErrNotFound then writeError 404 ''Avatar not found'' rs
      else if errors_is err ErrNotOwner then
        writeJSON 403 (JObj [(''details'', json_string ''You can only delete your own avatars''),
          (''error'', json_string ''Forbidden'')]) rs
      else writeError 500 ''internal error'' rs)"

definition originalURL :: "string \<Rightarrow> string" where
  "originalURL i = ''/api/v1/avatars/'' @ i"

definition thumbnailURL :: "string \<Rightarrow> string \<Rightarrow> string" where
  "thumbnailURL i sz = ''/api/v1/avatars/'' @ i @ ''/thumbnails/'' @ sz"

definition uploadResponse :: "(int \<Rightarrow> string) \<Rightarrow> avatar \<Rightarrow> json" where
  "uploadResponse fmt a = JObj
     [(''id'', json_string (ID a)), (''user_id'', json_string (UserID a)),
      (''url'', json_string (originalURL (ID a))), (''status'', json_string ''processing''),
      (''created_at'', JStr (fmt (CreatedAt a)))]"

subsection \<open>Metadata\<close>

datatype thumbnail = Thumbnail (thSize: string) (thURL: string)

text \<open>
  The order \<^verbatim>\<open>sort.Slice\<close> is given compares sizes; entries of a map never tie, and the
  URL only completes it to a linear order.
\<close>

instantiation thumbnail :: linorder
begin

definition less_eq_thumbnail :: "thumbnail \<Rightarrow> thumbnail \<Rightarrow> bool" where
  "less_eq_thumbnail s t \<longleftrightarrow> thSize s < thSize t \<or> thSize s = thSize t \<and> thURL s \<le> thURL t"

definition less_thumbnail :: "thumbnail \<Rightarrow> thumbnail \<Rightarrow> bool" where
  "less_thumbnail s t \<longleftrightarrow> thSize s < thSize t \<or> thSize s = thSize t \<and> thURL s < thURL t"

instance
  by intro_classes (auto simp: less_eq_thumbnail_def less_thumbnail_def intro: thumbnail.expand)

end

record metadataResponse =
  mrID :: string
  mrUserID :: string
  mrFileName :: string
  mrMimeType :: string
  mrSize :: int
  mrDimensions :: "int \<times> int"
  mrThumbnails :: "thumbnail list"
  mrURL :: string
  mrStatus :: string
  mrCreatedAt :: int
  mrUpdatedAt :: int

definition toMetadata :: "avatar \<Rightarrow> metadataResponse" where
  "toMetadata a = \<lparr>mrID = ID a, mrUserID = UserID a, mrFileName = FileName a, mrMimeType = MimeType a,
     mrSize = SizeBytes a, mrDimensions = (Width a, Height a),
     mrThumbnails = sort (map (\<lambda>(sz, _). Thumbnail sz (thumbnailURL (ID a) sz)) (Thumbnails a)),
     mrURL = originalURL (ID a), mrStatus = ProcessingStatus a,
     mrCreatedAt = CreatedAt a, mrUpdatedAt = UpdatedAt a\<rparr>"

definition thumbnail_json :: "thumbnail \<Rightarrow> json" where
  "thumbnail_json t = JObj [(''size'', json_string (thSize t)), (''url'', json_string (thURL t))]"

definition metadata_json :: "(int \<Rightarrow> string) \<Rightarrow> metadataResponse \<Rightarrow> json" where
  "metadata_json fmt m = JObj
     [(''id'', json_string (mrID m)), (''user_id'', json_string (mrUserID m)),
      (''file_name'', json_string (mrFileName m)), (''mime_type'', json_string (mrMimeType m)),
      (''size'', JNum (mrSize m)),
      (''dimensions'', JObj [(''width'', JNum (fst (mrDimensions m))), (''height'', JNum (snd (mrDimensions m)))]),
      (''thumbnails'', JArr (map thumbnail_json (mrThumbnails m))),
      (''url'', json_string (mrURL m)), (''status'', json_string (mrStatus m)),
      (''created_at'', JStr (fmt (mrCreatedAt m))), (''updated_at'', JStr (fmt (mrUpdatedAt m)))]"

subsection \<open>Handlers\<close>

text \<open>The shape of every handler: call the service, answer its error, or go on with its value.\<close>

definition with_service ::
  "('w, 'a res) call \<Rightarrow> ('a \<Rightarrow> 'w conn \<Rightarrow> unit go \<times> 'w conn) \<Rightarrow> 'w conn \<Rightarrow> unit go \<times> 'w conn" where
  "with_service m k c = (case m (cState c) of
     (Panic p, w) \<Rightarrow> (Panic p, c\<lparr>cState := w\<rparr>)
   | (Value (Inl err), w) \<Rightarrow> (Value (), answer (serviceError err) (c\<lparr>cState := w\<rparr>))
   | (Value (Inr a), w) \<Rightarrow> k a (c\<lparr>cState := w\<rparr>))"

definition too_large_or_400 :: "string \<Rightarrow> go_error \<Rightarrow> response \<Rightarrow> response" where
  "too_large_or_400 msg err = (if isTooLarge err then writeTooLarge else writeError 400 msg)"

text \<open>The body of upload: what it returns, with the value of its \<^verbatim>\<open>status\<close> variable.\<close>

definition upload_handler :: "'w handlers \<Rightarrow> request \<Rightarrow> 'w conn \<Rightarrow> (unit go \<times> string) \<times> 'w conn" where
  "upload_handler h r c = (case requireUserID r (cResp c) of
     (None, rs) \<Rightarrow> ((Value (), StatusRejected), c\<lparr>cResp := rs\<rparr>)
   | (Some userID, _) \<Rightarrow>
       if maxUploadBytes < ContentLength r then ((Value (), StatusRejected), answer writeTooLarge c)
       else (case formFile r of
          Inl err \<Rightarrow> ((Value (), StatusRejected),
            answer (too_large_or_400 ''multipart field \"file\" or \"image\" is required'' err) c)
        | Inr (_, Inl err) \<Rightarrow> ((Value (), StatusRejected),
            answer (too_large_or_400 ''read uploaded file'' err) c)
        | Inr (fileName, Inr data) \<Rightarrow>
            (case aUpload (hSvc h) userID fileName data (cState c) of
               (Panic p, w) \<Rightarrow> ((Panic p, StatusRejected), c\<lparr>cState := w\<rparr>)
             | (Value (Inl err), w) \<Rightarrow> ((Value (), StatusError), answer (serviceError err) (c\<lparr>cState := w\<rparr>))
             | (Value (Inr a), w) \<Rightarrow> ((Value (), StatusOK),
                 answer (writeJSON 201 (uploadResponse (hFormatTime h) a)) (c\<lparr>cState := w\<rparr>)))))"

definition upload :: "'w handlers \<Rightarrow> 'w http_handler" where
  "upload h r c = (case upload_handler h r c of
     ((v, status), c1) \<Rightarrow>
       (v, c1\<lparr>cState := hObserveUpload h status (hNow h (cState c1) - hNow h (cState c)) (cState c1)\<rparr>))"

definition streamFile :: "'w File \<Rightarrow> 'w conn \<Rightarrow> unit go \<times> 'w conn" where
  "streamFile f c = (let
     rs1 = set_header ''Content-Type'' (fileContentType f) (cResp c);
     rs2 = (if 0 < fileSize f then set_header ''Content-Length'' (itoa (fileSize f)) rs1 else rs1) in
     (case Body f (cState c) of
        ((bs, _), w) \<Rightarrow>
          (Value (), \<lparr>cState = w, cResp = (if bs = [] then rs2 else write_chunk (RawBytes bs) rs2)\<rparr>)))"

definition getFile :: "'w handlers \<Rightarrow> 'w http_handler" where
  "getFile h r = with_service (aGetFile (hSvc h) (URLParam r ''avatarID'')) streamFile"

definition latestFile :: "'w handlers \<Rightarrow> 'w http_handler" where
  "latestFile h r = with_service (aLatestFile (hSvc h) (URLParam r ''userID'')) streamFile"

definition getThumbnail :: "'w handlers \<Rightarrow> 'w http_handler" where
  "getThumbnail h r =
     with_service (aThumbnailFile (hSvc h) (URLParam r ''avatarID'') (URLParam r ''size'')) streamFile"

definition metadata :: "'w handlers \<Rightarrow> 'w http_handler" where
  "metadata h r = with_service (aMetadata (hSvc h) (URLParam r ''avatarID''))
     (\<lambda>a c. (Value (), answer (writeJSON 200 (metadata_json (hFormatTime h) (toMetadata a))) c))"

definition list_handler :: "'w handlers \<Rightarrow> 'w http_handler" where
  "list_handler h r = with_service (aList (hSvc h) (URLParam r ''userID''))
     (\<lambda>avatars c. (Value (), answer (writeJSON 200
        (JArr (map (\<lambda>a. metadata_json (hFormatTime h) (toMetadata a)) avatars))) c))"

definition no_content :: "unit \<Rightarrow> 'w conn \<Rightarrow> unit go \<times> 'w conn" where
  "no_content _ c = (Value (), answer (write_header 204) c)"

definition delete_handler :: "'w handlers \<Rightarrow> 'w http_handler" where
  "delete_handler h r c = (case requireUserID r (cResp c) of
     (None, rs) \<Rightarrow> (Value (), c\<lparr>cResp := rs\<rparr>)
   | (Some userID, _) \<Rightarrow> with_service (aDelete (hSvc h) (URLParam r ''avatarID'') userID) no_content c)"

definition deleteLatest :: "'w handlers \<Rightarrow> 'w http_handler" where
  "deleteLatest h r c = (case requireUserID r (cResp c) of
     (None, rs) \<Rightarrow> (Value (), c\<lparr>cResp := rs\<rparr>)
   | (Some userID, _) \<Rightarrow> with_service (aDeleteLatest (hSvc h) (URLParam r ''userID'') userID) no_content c)"

subsection \<open>Service errors\<close>

definition blank :: "response \<Rightarrow> bool" where
  "blank rs \<longleftrightarrow> statusLine rs = None \<and> chunks rs = []"

lemma blank_untouched [intro]: "untouched rs \<Longrightarrow> blank rs"
  by (simp add: blank_def untouched_def)

lemma blank_write:
  assumes "blank rs" and "code \<noteq> 204"
  shows "answer_status (writeJSON code j rs) = code" "chunks (writeJSON code j rs) = [JsonText j]"
    "answer_status (writeError code m rs) = code"
    "chunks (writeError code m rs) = [JsonText (JObj [(''error'', json_string m)])]"
  using assms writeJSON_fresh [of rs code] by (simp_all add: blank_def writeError_def)

lemma blank_too_large:
  assumes "blank rs"
  shows "answer_status (writeTooLarge rs) = 413"
  using blank_write(1) [OF assms, of 413] by (simp add: writeTooLarge_def)

definition error_status :: "go_error \<Rightarrow> int" where
  "error_status e = (if errors_is e ErrNotFound then 404 else if errors_is e ErrNotOwner then 403 else 500)"

definition error_body :: "go_error \<Rightarrow> json" where
  "error_body e =
     (if errors_is e ErrNotFound then JObj [(''error'', json_string ''Avatar not found'')]
      else if errors_is e ErrNotOwner then
        JObj [(''details'', json_string ''You can only delete your own avatars''), (''error'', json_string ''Forbidden'')]
      else JObj [(''error'', json_string ''internal error'')])"

text \<open>The answer a client gets to a request that ended in the given error.\<close>

definition error_answer :: "go_error \<Rightarrow> response \<Rightarrow> bool" where
  "error_answer e rs \<longleftrightarrow> answer_status rs = error_status e \<and> chunks rs = [JsonText (error_body e)]"

lemma serviceError_answer: "blank rs \<Longrightarrow> error_answer e (serviceError e rs)"
  by (simp add: error_answer_def serviceError_def error_status_def error_body_def blank_write)

lemma with_service_error:
  assumes "m (cState c) = (Value (Inl e), w)" and "blank (cResp c)"
  shows "\<exists>rs. with_service m k c = (Value (), \<lparr>cState = w, cResp = rs\<rparr>) \<and> error_answer e rs"
  using assms by (intro exI [of _ "serviceError e (cResp c)"])
    (simp add: with_service_def answer_def serviceError_answer)

lemma requireUserID_ok:
  "Header r ''X-User-ID'' = uid \<Longrightarrow> uid \<noteq> [] \<Longrightarrow> length (runes uid) \<le> 255 \<Longrightarrow>
   requireUserID r rs = (Some uid, rs)"
  by (simp add: requireUserID_def maxUserIDLen_def)

subsection \<open>Uploads\<close>

text \<open>
  What the handler makes of a request before it calls the service: the arguments of the
  call, or the answer that refuses the request.
\<close>

definition upload_request :: "request \<Rightarrow> (string \<times> string \<times> bytes) option" where
  "upload_request r = (let uid = Header r ''X-User-ID'' in
     if uid \<noteq> [] \<and> length (runes uid) \<le> 255 \<and> ContentLength r \<le> maxUploadBytes
     then (case formFile r of Inr (name, Inr data) \<Rightarrow> Some (uid, name, data) | _ \<Rightarrow> None)
     else None)"

lemma upload_handler_refuses:
  assumes "upload_request r = None" and "blank (cResp c)"
  shows "\<exists>rs. upload_handler h r c = ((Value (), StatusRejected), c\<lparr>cResp := rs\<rparr>) \<and> answer_status rs \<in> {400, 413}"
proof -
  have 400: "answer_status (writeError 400 m (cResp c)) = 400" for m
    by (rule blank_write(3) [OF assms(2)]) simp
  note answers = 400 blank_too_large [OF assms(2)]
  show ?thesis
    using assms(1) unfolding upload_handler_def upload_request_def requireUserID_def maxUserIDLen_def Let_def
    by (auto simp: answers answer_def too_large_or_400_def split: sum.splits prod.splits if_splits)
qed

lemma upload_handler_calls:
  assumes "upload_request r = Some (uid, name, data)"
  shows "upload_handler h r c = (case aUpload (hSvc h) uid name data (cState c) of
      (Panic p, w) \<Rightarrow> ((Panic p, StatusRejected), c\<lparr>cState := w\<rparr>)
    | (Value (Inl err), w) \<Rightarrow> ((Value (), StatusError), answer (serviceError err) (c\<lparr>cState := w\<rparr>))
    | (Value (Inr a), w) \<Rightarrow> ((Value (), StatusOK),
        answer (writeJSON 201 (uploadResponse (hFormatTime h) a)) (c\<lparr>cState := w\<rparr>)))"
  using assms unfolding upload_handler_def upload_request_def requireUserID_def maxUserIDLen_def Let_def
  by (auto split: sum.splits prod.splits if_splits)

text \<open>What the handler does on each of its exits, the panic of the service included.\<close>

lemma upload_exits:
  assumes "blank (cResp c)"
  shows "case upload_request r of
      None \<Rightarrow> \<exists>rs. upload h r c = (Value (), \<lparr>cState = hObserveUpload h StatusRejected 0 (cState c), cResp = rs\<rparr>) \<and>
        answer_status rs \<in> {400, 413}
    | Some (uid, name, data) \<Rightarrow>
        (case aUpload (hSvc h) uid name data (cState c) of
          (Value (Inr a), w) \<Rightarrow> \<exists>rs. upload h r c =
              (Value (), \<lparr>cState = hObserveUpload h StatusOK (hNow h w - hNow h (cState c)) w, cResp = rs\<rparr>) \<and>
            answer_status rs = 201 \<and> chunks rs = [JsonText (uploadResponse (hFormatTime h) a)]
        | (Value (Inl e), w) \<Rightarrow> \<exists>rs. upload h r c =
              (Value (), \<lparr>cState = hObserveUpload h StatusError (hNow h w - hNow h (cState c)) w, cResp = rs\<rparr>) \<and>
            error_answer e rs
        | (Panic p, w) \<Rightarrow> upload h r c =
            (Panic p, \<lparr>cState = hObserveUpload h StatusRejected (hNow h w - hNow h (cState c)) w, cResp = cResp c\<rparr>))"
proof (cases "upload_request r")
  case None
  obtain rs where "upload_handler h r c = ((Value (), StatusRejected), c\<lparr>cResp := rs\<rparr>)"
    "answer_status rs \<in> {400, 413}"
    using upload_handler_refuses [OF None assms] by blast
  with None show ?thesis by (simp add: upload_def)
next
  case (Some call)
  obtain uid name data where call: "call = (uid, name, data)" by (cases call)
  have created: "answer_status (writeJSON 201 j (cResp c)) = 201" "chunks (writeJSON 201 j (cResp c)) = [JsonText j]" for j
    using blank_write [OF assms, of 201] by simp_all
  note run = upload_handler_calls [OF Some [unfolded call], of h c]
  show ?thesis
    using serviceError_answer [OF assms] created
    by (simp add: Some call upload_def run answer_def split: prod.split go.split sum.split) (cases c; simp)?
qed

text \<open>
  C17: how errors become answers. Whatever error the method of the service returns that a
  handler calls, the client gets 404 for an error wrapping ErrNotFound, 403 for one
  wrapping ErrNotOwner and 500 for every other, with a body that depends on that class
  alone (no text of an internal error reaches the client), and the handler changes nothing
  beyond what the service did; an upload is also counted, as error. The reads are answered
  so whatever the headers are; the deletions and the upload call the service only with a
  user id of 1 to 255 characters, the upload only with a file.
\<close>

theorem service_errors_mapped:
  assumes "blank (cResp c)"
  shows "let failed = (\<lambda>out. \<exists>rs. out = (Value (), \<lparr>cState = w, cResp = rs\<rparr>) \<and> error_answer e rs);
      id' = URLParam r ''avatarID''; user = URLParam r ''userID''; uid = Header r ''X-User-ID'' in
    (aGetFile (hSvc h) id' (cState c) = (Value (Inl e), w) \<longrightarrow> failed (getFile h r c)) \<and>
    (aLatestFile (hSvc h) user (cState c) = (Value (Inl e), w) \<longrightarrow> failed (latestFile h r c)) \<and>
    (aThumbnailFile (hSvc h) id' (URLParam r ''size'') (cState c) = (Value (Inl e), w) \<longrightarrow>
       failed (getThumbnail h r c)) \<and>
    (aMetadata (hSvc h) id' (cState c) = (Value (Inl e), w) \<longrightarrow> failed (metadata h r c)) \<and>
    (aList (hSvc h) user (cState c) = (Value (Inl e), w) \<longrightarrow> failed (list_handler h r c)) \<and>
    (uid \<noteq> [] \<longrightarrow> length (runes uid) \<le> 255 \<longrightarrow>
      (aDelete (hSvc h) id' uid (cState c) = (Value (Inl e), w) \<longrightarrow> failed (delete_handler h r c)) \<and>
      (aDeleteLatest (hSvc h) user uid (cState c) = (Value (Inl e), w) \<longrightarrow> failed (deleteLatest h r c))) \<and>
    (\<forall>name data. upload_request r = Some (uid, name, data) \<longrightarrow>
      aUpload (hSvc h) uid name data (cState c) = (Value (Inl e), w) \<longrightarrow>
      (\<exists>rs. upload h r c = (Value (), \<lparr>cState = hObserveUpload h StatusError (hNow h w - hNow h (cState c)) w, cResp = rs\<rparr>) \<and>
        error_answer e rs))"
proof -
  let ?uid = "Header r ''X-User-ID''"
  have del: "delete_handler h r c = with_service (aDelete (hSvc h) (URLParam r ''avatarID'') ?uid) no_content c"
    "deleteLatest h r c = with_service (aDeleteLatest (hSvc h) (URLParam r ''userID'') ?uid) no_content c"
    if "?uid \<noteq> []" "length (runes ?uid) \<le> 255"
    using that by (simp_all add: delete_handler_def deleteLatest_def requireUserID_ok)
  have up: "\<exists>rs. upload h r c =
      (Value (), \<lparr>cState = hObserveUpload h StatusError (hNow h w - hNow h (cState c)) w, cResp = rs\<rparr>) \<and> error_answer e rs"
    if "upload_request r = Some (?uid, name, data)" "aUpload (hSvc h) ?uid name data (cState c) = (Value (Inl e), w)"
    for name data
    using upload_exits [where c = c and r = r and h = h, OF assms] that by simp
  show ?thesis
    by (simp only: Let_def getFile_def latestFile_def getThumbnail_def metadata_def list_handler_def)
       (intro conjI allI impI; (subst del)?; (rule up | rule with_service_error [OF _ assms])?; assumption)
qed

definition form_fits :: "form_reading \<Rightarrow> bool" where
  "form_fits f \<longleftrightarrow> 0 \<le> fst f \<and> (\<forall>ps. snd f = Inr ps \<longrightarrow>
     list_all (\<lambda>p. case pOpen p of Inr (Inr d) \<Rightarrow> int (length d) \<le> fst f | _ \<Rightarrow> True) ps)"

lemma open_part_size:
  assumes "form_fits f" and "snd f = Inr ps" and "open_part key ps = Inr (name, Inr d)"
  shows "int (length d) \<le> fst f"
proof -
  obtain p where "p \<in> set ps" "pOpen p = Inr (Inr d)"
    using assms(3) by (auto simp: open_part_def dest: find_SomeD split: option.splits sum.splits)
  with assms(1,2) show ?thesis by (fastforce simp: form_fits_def list_all_iff)
qed

lemma formFile_size:
  assumes "form_fits (firstForm r)" and "form_fits (secondForm r)" and "formFile r = Inr (name, Inr d)"
  shows "int (length d) \<le> maxUploadBytes"
proof -
  have pos: "0 \<le> fst (firstForm r)" using assms(1) by (simp add: form_fits_def)
  from assms(3) consider "FormFile1 maxUploadBytes r ''file'' = Inr (name, Inr d)"
    | "FormFile2 maxUploadBytes r ''image'' = Inr (name, Inr d)"
    by (auto simp: formFile_def split: sum.splits if_splits)
  then show ?thesis
  proof cases
    case 1
    then obtain ps where "snd (firstForm r) = Inr ps" "open_part ''file'' ps = Inr (name, Inr d)"
      "fst (firstForm r) \<le> maxUploadBytes"
      by (auto simp: FormFile1_def read_form_def split: sum.splits if_splits option.splits)
    with open_part_size [OF assms(1)] show ?thesis by fastforce
  next
    case 2
    then consider ps where "snd (firstForm r) = Inr ps" "open_part ''image'' ps = Inr (name, Inr d)"
        "fst (firstForm r) \<le> maxUploadBytes"
      | ps where "snd (secondForm r) = Inr ps" "open_part ''image'' ps = Inr (name, Inr d)"
        "fst (firstForm r) + fst (secondForm r) \<le> maxUploadBytes"
      by (auto simp: FormFile2_def read_form_def split: sum.splits if_splits)
    then show ?thesis
      using open_part_size [OF assms(1)] open_part_size [OF assms(2)] pos by cases fastforce+
  qed
qed

text \<open>
  C14: no oversized avatar and no unstorable user id reaches the service. The handler
  behaves the same for any two services that agree on the calls whose user id has 1 to 255
  characters and whose file has at most 10 MiB, whatever the client declares and sends: it
  makes no other call. The hypothesis is that a multipart reading takes at least the bytes
  of the files it finds.
\<close>

theorem upload_size_limit:
  assumes "form_fits (firstForm r)" and "form_fits (secondForm r)"
    and "\<And>uid name data. uid \<noteq> [] \<Longrightarrow> length (runes uid) \<le> 255 \<Longrightarrow> int (length data) \<le> 10485760 \<Longrightarrow>
      aUpload s1 uid name data = aUpload s2 uid name data"
  shows "upload (h\<lparr>hSvc := s1\<rparr>) r c = upload (h\<lparr>hSvc := s2\<rparr>) r c"
proof (cases "upload_request r")
  case None
  then have "upload_handler (h\<lparr>hSvc := s1\<rparr>) r c = upload_handler (h\<lparr>hSvc := s2\<rparr>) r c"
    unfolding upload_handler_def upload_request_def requireUserID_def maxUserIDLen_def Let_def
    by (auto split: sum.splits prod.splits if_splits)
  then show ?thesis by (simp add: upload_def)
next
  case (Some call)
  obtain uid name data where call: "call = (uid, name, data)" by (cases call)
  have "uid \<noteq> []" "length (runes uid) \<le> 255" "formFile r = Inr (name, Inr data)"
    using Some call by (auto simp: upload_request_def Let_def split: if_splits sum.splits)
  then have "aUpload s1 uid name data = aUpload s2 uid name data"
    using formFile_size [OF assms(1,2)] assms(3) by (simp add: maxUploadBytes_def)
  then show ?thesis
    using upload_handler_calls [OF Some [unfolded call], of "h\<lparr>hSvc := s1\<rparr>" c]
      upload_handler_calls [OF Some [unfolded call], of "h\<lparr>hSvc := s2\<rparr>" c]
    by (simp add: upload_def split: prod.split go.split sum.split)
qed

subsection \<open>Metadata\<close>

definition thumb_entries :: "avatar \<Rightarrow> thumbnail list" where
  "thumb_entries a = map (\<lambda>(sz, _). Thumbnail sz (thumbnailURL (ID a) sz)) (Thumbnails a)"

lemma thumb_entries_sizes: "map thSize (thumb_entries a) = map fst (Thumbnails a)"
  by (simp add: thumb_entries_def comp_def case_prod_unfold)

lemma sorted_map_thSize: "sorted ts \<Longrightarrow> sorted (map thSize ts)"
  by (induction ts) (auto simp: less_eq_thumbnail_def)

text \<open>
  C39: the metadata of an avatar do not depend on the order in which Go visits the
  thumbnails map: two records that differ only in that order give the same response, and
  the thumbnails in it are exactly one entry per size of the map, in strictly increasing
  order of the size label, each with the address under which it is served.
\<close>

theorem metadata_deterministic:
  assumes "distinct_keys (Thumbnails a)"
  shows "(\<forall>kvs. mset kvs = mset (Thumbnails a) \<longrightarrow> toMetadata (a\<lparr>Thumbnails := kvs\<rparr>) = toMetadata a) \<and>
    sorted_wrt (<) (map thSize (mrThumbnails (toMetadata a))) \<and>
    set (mrThumbnails (toMetadata a)) =
      {Thumbnail sz (thumbnailURL (ID a) sz) | sz. sz \<in> fst ` set (Thumbnails a)}"
proof -
  have thumbs: "mrThumbnails (toMetadata x) = sort (thumb_entries x)" for x
    by (simp add: toMetadata_def thumb_entries_def)
  have "toMetadata (a\<lparr>Thumbnails := kvs\<rparr>) = toMetadata a" if "mset kvs = mset (Thumbnails a)" for kvs
  proof -
    have "mset (thumb_entries (a\<lparr>Thumbnails := kvs\<rparr>)) = mset (thumb_entries a)"
      using that by (simp add: thumb_entries_def)
    then have "sort (thumb_entries (a\<lparr>Thumbnails := kvs\<rparr>)) = sort (thumb_entries a)"
      by (metis mset_sort properties_for_sort sorted_sort)
    then show ?thesis by (simp add: toMetadata_def thumb_entries_def)
  qed
  moreover have "sorted_wrt (<) (map thSize (sort (thumb_entries a)))"
  proof -
    have "mset (map thSize (sort (thumb_entries a))) = mset (map thSize (thumb_entries a))"
      by simp
    then have "distinct (map thSize (sort (thumb_entries a)))"
      using assms mset_eq_imp_distinct_iff by (metis thumb_entries_sizes)
    moreover have "sorted (map thSize (sort (thumb_entries a)))"
      by (rule sorted_map_thSize) simp
    ultimately show ?thesis by (simp add: strict_sorted_iff)
  qed
  moreover have "set (sort (thumb_entries a)) =
      {Thumbnail sz (thumbnailURL (ID a) sz) | sz. sz \<in> fst ` set (Thumbnails a)}"
    by (force simp: thumb_entries_def)
  ultimately show ?thesis by (simp add: thumbs)
qed

subsection \<open>The service behind the handlers\<close>

text \<open>
  What the handlers rely on of \<^verbatim>\<open>Delete\<close>: it does not panic, it succeeds only by deleting a
  live row of the requester, and it refuses the requester only without an effect.
\<close>

definition delete_done :: "view \<Rightarrow> (DeleteEvent \<Rightarrow> message) \<Rightarrow> string \<Rightarrow> view \<Rightarrow> bool" where
  "delete_done v del_msg req v' \<longleftrightarrow> (\<exists>a now. vRow v (ID a) = Some a \<and> live a \<and> UserID a = req \<and>
     (\<exists>msgs \<in> {[], [del_msg (delete_event a)]}.
        v' = v\<lparr>vRow := (vRow v)(ID a \<mapsto> deleted_at now a), vMsgs := vMsgs v @ msgs\<rparr>))"

definition delete_half :: "view \<Rightarrow> string \<Rightarrow> view \<Rightarrow> bool" where
  "delete_half v req v' \<longleftrightarrow> (\<exists>a now. vRow v (ID a) = Some a \<and> live a \<and> UserID a = req \<and>
     v' = v\<lparr>vRow := (vRow v)(ID a \<mapsto> deleted_at now a)\<rparr>)"

lemma delete_only:
  "v' = v \<or> delete_done v del_msg uid v' \<or> delete_half v uid v' \<Longrightarrow>
   vObj v' = vObj v \<and> (\<forall>i a. vRow v i = Some a \<longrightarrow> UserID a \<noteq> uid \<longrightarrow> vRow v' i = Some a)"
  by (auto simp: delete_done_def delete_half_def)

locale avatar_api =
  fixes good :: "'w \<Rightarrow> bool" and view :: "'w \<Rightarrow> view" and api :: "'w AvatarService"
    and del_msg :: "DeleteEvent \<Rightarrow> message"
  assumes delete_law: "good w \<Longrightarrow> aDelete api i req w = (out, w') \<Longrightarrow>
    good w' \<and> (\<exists>r. out = Value r \<and>
      (r = Inr () \<longrightarrow> delete_done (view w) del_msg req (view w')) \<and>
      (\<forall>e. r = Inl e \<longrightarrow> view w' = view w \<or> delete_half (view w) req (view w')) \<and>
      (\<forall>e. r = Inl e \<longrightarrow> errors_is e ErrNotOwner \<longrightarrow> view w' = view w \<and>
         (\<exists>a. vRow (view w) (ID a) = Some a \<and> live a \<and> UserID a \<noteq> req)))"
begin

lemma delete_handler_run:
  assumes "good (cState c)" and "blank (cResp c)" and "hSvc h = api" and "delete_handler h r c = (v, c')"
  defines "uid \<equiv> Header r ''X-User-ID''"
  shows "v = Value () \<and> good (cState c') \<and>
    (if uid = [] \<or> 255 < length (runes uid) then cState c' = cState c \<and> answer_status (cResp c') = 400
     else answer_status (cResp c') \<in> {204, 403, 404, 500} \<and>
       (answer_status (cResp c') = 204 \<longrightarrow> delete_done (view (cState c)) del_msg uid (view (cState c'))) \<and>
       (answer_status (cResp c') = 403 \<longrightarrow> view (cState c') = view (cState c) \<and>
          (\<exists>a. vRow (view (cState c)) (ID a) = Some a \<and> live a \<and> UserID a \<noteq> uid)) \<and>
       (answer_status (cResp c') \<noteq> 204 \<longrightarrow> view (cState c') = view (cState c) \<or>
          delete_half (view (cState c)) uid (view (cState c'))))"
proof (cases "uid = [] \<or> 255 < length (runes uid)")
  case True
  have "answer_status (writeError 400 m (cResp c)) = 400" for m
    by (rule blank_write(3) [OF assms(2)]) simp
  with True assms(1,4) show ?thesis
    unfolding uid_def by (auto simp: delete_handler_def requireUserID_def maxUserIDLen_def Let_def split: if_splits)
next
  case False
  obtain out w where d: "aDelete api (URLParam r ''avatarID'') uid (cState c) = (out, w)" by fastforce
  note law = delete_law [OF assms(1) d]
  then obtain res where out: "out = Value res" by blast
  have run: "with_service (aDelete api (URLParam r ''avatarID'') uid) no_content c = (v, c')"
    using False assms(3,4) requireUserID_ok [of r uid] by (simp add: delete_handler_def uid_def)
  show ?thesis
  proof (cases res)
    case (Inl e)
    from with_service_error [where m = "aDelete api (URLParam r ''avatarID'') uid" and k = no_content, OF _ assms(2)]
    obtain rs where "v = Value ()" "c' = \<lparr>cState = w, cResp = rs\<rparr>" "error_answer e rs"
      using run d out Inl by fastforce
    with False law out Inl show ?thesis
      by (auto simp: error_answer_def error_status_def split: if_splits)
  next
    case (Inr u)
    have "answer_status (write_header 204 (cResp c)) = 204"
      using assms(2) by (simp add: blank_def http_simps)
    with Inr run d out law False show ?thesis
      by (auto simp: with_service_def no_content_def answer_def)
  qed
qed

end

definition world_api :: "env \<Rightarrow> string \<Rightarrow> world AvatarService" where
  "world_api E b = (let s = world_service E b in
     \<lparr>aUpload = (\<lambda>uid name data. total_call (svc_Upload s uid name data)),
      aMetadata = (\<lambda>i. total_call (svc_Metadata s i)), aList = (\<lambda>uid. total_call (svc_List s uid)),
      aGetFile = (\<lambda>i. total_call (svc_GetFile s i)), aLatestFile = (\<lambda>uid. total_call (svc_LatestFile s uid)),
      aThumbnailFile = (\<lambda>i sz. total_call (svc_ThumbnailFile s i sz)),
      aDelete = (\<lambda>i req. total_call (svc_Delete s i req)),
      aDeleteLatest = (\<lambda>uid req. total_call (svc_DeleteLatest s uid req))\<rparr>)"

definition world_handlers :: "env \<Rightarrow> string \<Rightarrow> world handlers" where
  "world_handlers E b = \<lparr>hSvc = world_api E b,
     hObserveUpload = (\<lambda>st _ w. w\<lparr>observed := observed w @ [(''avatars_uploads_total'', st)]\<rparr>),
     hNow = clock, hFormatTime = itoa\<rparr>"

interpretation api: avatar_api "good_world E" "world_view b" "world_api E b" "delete_message E"
proof
  fix w i req out w'
  assume good: "good_world E w" and run: "aDelete (world_api E b) i req w = (out, w')"
  obtain r where r: "svc_Delete (world_service E b) i req w = (r, w')" "out = Value r"
    using run by (cases "svc_Delete (world_service E b) i req w") (simp add: world_api_def Let_def)
  from svc.Delete_run [OF good r(1)] show "good_world E w' \<and> (\<exists>r. out = Value r \<and>
      (r = Inr () \<longrightarrow> delete_done (world_view b w) (delete_message E) req (world_view b w')) \<and>
      (\<forall>e. r = Inl e \<longrightarrow> world_view b w' = world_view b w \<or> delete_half (world_view b w) req (world_view b w')) \<and>
      (\<forall>e. r = Inl e \<longrightarrow> errors_is e ErrNotOwner \<longrightarrow> world_view b w' = world_view b w \<and>
         (\<exists>a. vRow (world_view b w) (ID a) = Some a \<and> live a \<and> UserID a \<noteq> req)))"
    unfolding delete_done_def delete_half_def using r(2) by blast
qed


subsection \<open>Concrete requests\<close>

definition sample_request :: "string \<Rightarrow> request" where
  "sample_request uid = \<lparr>Method = ''POST'', Path = ''/api/v1/avatars'',
     Header = (\<lambda>k. if k = ''X-User-ID'' then uid else []),
     URLParam = (\<lambda>k. if k = ''avatarID'' then ''a1'' else []), ContentLength = 300, queryErr = None,
     firstForm = (300, Inr [\<lparr>pField = ''image'', pFilename = ''n'', pOpen = Inr (Inr ''abcd'')\<rparr>]),
     secondForm = (0, Inl (NewError ''EOF''))\<rparr>"

definition conn_of :: "'w \<Rightarrow> 'w conn" where
  "conn_of w = \<lparr>cState = w, cResp = fresh_response\<rparr>"

lemma conn_of_sel [simp]: "cState (conn_of w) = w" "cResp (conn_of w) = fresh_response"
  by (simp_all add: conn_of_def)

lemma blank_fresh [simp]: "blank fresh_response"
  by (simp add: blank_def fresh_response_def)

lemma sample_request_sel [simp]:
  "Header (sample_request uid) ''X-User-ID'' = uid" "ContentLength (sample_request uid) = 300"
  "URLParam (sample_request uid) ''avatarID'' = ''a1''"
  by (simp_all add: sample_request_def)

lemma runes_ann: "runes ''ann'' = [97, 110, 110]" and runes_bob: "runes ''bob'' = [98, 111, 98]"
  by code_simp+

theorem service_errors_mapped_witness:
  "\<exists>rs. getFile (world_handlers sample_env ''b'') (sample_request []) (conn_of (sample_world [] Map.empty [])) =
     (Value (), \<lparr>cState = sample_world [] Map.empty [], cResp = rs\<rparr>) \<and> answer_status rs = 404"
proof -
  let ?w = "sample_world [] Map.empty []"
  have "aGetFile (hSvc (world_handlers sample_env ''b'')) (URLParam (sample_request []) ''avatarID'')
      (cState (conn_of ?w)) = (Value (Inl ErrNotFound), ?w)"
    by (simp add: world_handlers_def world_api_def Let_def svc_GetFile_def pg_GetByID_def remote_answered
        sql_select_by_id_def sample_env_def scanAvatar_def)
  from service_errors_mapped [of "conn_of ?w" ?w ErrNotFound "sample_request []"
      "world_handlers sample_env ''b''", unfolded Let_def, THEN conjunct1, rule_format, OF _ this]
  show ?thesis by (auto simp: error_answer_def error_status_def)
qed

theorem upload_size_limit_witness:
  "upload (world_handlers sample_env ''b'') (sample_request ''ann'') (conn_of (sample_world [] Map.empty [])) =
   upload ((world_handlers sample_env ''b'')\<lparr>hSvc := (world_api sample_env ''b'')\<lparr>aUpload :=
     (\<lambda>uid name data w. if length data \<le> 10485760 then aUpload (world_api sample_env ''b'') uid name data w
        else (Panic ''too much'', w))\<rparr>\<rparr>) (sample_request ''ann'') (conn_of (sample_world [] Map.empty []))"
proof -
  let ?s1 = "world_api sample_env ''b''"
  let ?s2 = "?s1\<lparr>aUpload := (\<lambda>uid name data w. if length data \<le> 10485760
      then aUpload ?s1 uid name data w else (Panic ''too much'', w))\<rparr>"
  have same: "world_handlers sample_env ''b'' = (world_handlers sample_env ''b'')\<lparr>hSvc := ?s1\<rparr>"
    by (simp add: world_handlers_def)
  have "form_fits (firstForm (sample_request ''ann''))" "form_fits (secondForm (sample_request ''ann''))"
    by (simp_all add: sample_request_def form_fits_def)
  from upload_size_limit [OF this, of ?s1 ?s2 "world_handlers sample_env ''b''"
      "conn_of (sample_world [] Map.empty [])"] same show ?thesis
    by (simp add: fun_eq_iff)
qed

theorem metadata_deterministic_witness:
  "toMetadata ((sample_row ''a1'' 3 None)\<lparr>Thumbnails := [(''300x300'', ''k3''), (''100x100'', ''k1'')]\<rparr>) =
   toMetadata ((sample_row ''a1'' 3 None)\<lparr>Thumbnails := [(''100x100'', ''k1''), (''300x300'', ''k3'')]\<rparr>)"
  using metadata_deterministic [of "(sample_row ''a1'' 3 None)\<lparr>Thumbnails := [(''100x100'', ''k1''), (''300x300'', ''k3'')]\<rparr>",
      THEN conjunct1, rule_format, of "[(''300x300'', ''k3''), (''100x100'', ''k1'')]"]
  by simp


subsection \<open>Ids that are no ids\<close>

lemma GetByID_malformed:
  assumes "uuid_in E i = None"
  obtains e w' where "pg_GetByID E i w = (Inl e, w')" "error_status e = 500"
proof -
  have "fst (sql_select_by_id E i now s) = Inl bad_literal" for now s
    by (simp add: sql_select_by_id_def assms)
  then have "\<exists>e w'. remote (sql_select_by_id E i) w = (Inl e, w') \<and> (e = bad_literal \<or> (\<exists>x. e = Net x))"
    by (auto simp: remote_def case_prod_unfold Let_def split: outcome.splits)
  then obtain e w' where e: "remote (sql_select_by_id E i) w = (Inl e, w')" "e = bad_literal \<or> (\<exists>x. e = Net x)" by blast
  then show thesis
    by (intro that [of "Wrapf ''scan avatar'' e" w'])
       (auto simp: pg_GetByID_def scanAvatar_def error_status_def bad_literal_def)
qed

text \<open>
  C38: an id that PostgreSQL does not parse is no stored avatar, and yet the answer is 500, not
  404, whatever the database does: the repository tells only a missing row from the other
  errors of a query.
\<close>

theorem malformed_id_is_500:
  assumes "blank (cResp c)" and "uuid_in E (URLParam r ''avatarID'') = None"
    and "op \<in> {getFile, getThumbnail, metadata}"
  shows "\<exists>c'. op (world_handlers E b) r c = (Value (), c') \<and> answer_status (cResp c') = 500"
proof -
  obtain e w' where e: "pg_GetByID E (URLParam r ''avatarID'') (cState c) = (Inl e, w')" "error_status e = 500"
    using GetByID_malformed [OF assms(2)] by blast
  have "\<exists>rs. op (world_handlers E b) r c = (Value (), \<lparr>cState = w', cResp = rs\<rparr>) \<and> error_answer e rs"
    using assms(3) e(1)
    by (auto simp: getFile_def getThumbnail_def metadata_def world_handlers_def world_api_def Let_def
        svc_GetFile_def svc_ThumbnailFile_def svc_Metadata_def intro!: with_service_error assms(1))
  with e(2) show ?thesis by (auto simp: error_answer_def)
qed

theorem malformed_id_is_500_witness:
  "\<exists>c'. metadata (world_handlers sample_env ''b'') ((sample_request ''ann'')\<lparr>URLParam := (\<lambda>_. [])\<rparr>)
     (conn_of (sample_world sample_rows Map.empty [])) = (Value (), c') \<and> answer_status (cResp c') = 500"
  by (rule malformed_id_is_500) (simp_all add: sample_env_def)

end
