(* ===== verification/Metrics.thy ===== *)
theory Metrics
  imports Go_Runtime "HOL-Library.List_Lexorder" "HOL-Library.Char_ord"
begin

section \<open>Instruments and collectors (internal/metrics)\<close>

text \<open>
  \<^verbatim>\<open>metrics.go\<close>, \<^verbatim>\<open>collectors.go\<close> and \<^verbatim>\<open>serve.go\<close>: the instruments of server and worker
  and what one observation does to them, the two collectors that read the pool and the
  storage usage on every scrape, and the life of the worker's scrape endpoint. The
  Prometheus client is the parameter record \<open>prometheus\<close>: the two updates the code makes,
  each naming the vector and the label values; the conversion to \<^verbatim>\<open>float64\<close> is a parameter
  of the collectors. Process and Go runtime collectors belong to that library.
\<close>

subsection \<open>Instruments\<close>

record 'm prometheus =
  promInc :: "string \<Rightarrow> string list \<Rightarrow> 'm \<Rightarrow> 'm"
  promObserve :: "string \<Rightarrow> string list \<Rightarrow> int \<Rightarrow> 'm \<Rightarrow> 'm"

text \<open>The buckets of a histogram are upper bounds in milliseconds, or the client's default ones.\<close>

datatype buckets = DefBuckets | Buckets "int list"

definition durationBuckets :: "int list" where
  "durationBuckets = [100, 250, 500, 1000, 2500, 5000, 10000, 30000]"

datatype instrument =
    CounterVec string "string list"
  | HistogramVec string buckets "string list"

fun instrument_name :: "instrument \<Rightarrow> string" where
  "instrument_name (CounterVec n _) = n"
| "instrument_name (HistogramVec n _ _) = n"

definition NewServer :: "instrument list" where
  "NewServer =
     [CounterVec ''http_requests_total'' [''method'', ''route'', ''status''],
      HistogramVec ''http_request_duration_seconds'' DefBuckets [''method'', ''route''],
      CounterVec ''avatars_uploads_total'' [''status''],
      HistogramVec ''avatars_upload_duration_seconds'' (Buckets durationBuckets) [''status'']]"

definition NewWorker :: "instrument list" where
  "NewWorker =
     [CounterVec ''avatars_processed_total'' [''event'', ''status''],
      HistogramVec ''avatars_processing_duration_seconds'' (Buckets durationBuckets) [''event'']]"

definition ObserveUpload :: "'m prometheus \<Rightarrow> string \<Rightarrow> int \<Rightarrow> 'm \<Rightarrow> 'm" where
  "ObserveUpload p status seconds m =
     promObserve p ''avatars_upload_duration_seconds'' [status] seconds
       (promInc p ''avatars_uploads_total'' [status] m)"

definition ObserveRequest :: "'m prometheus \<Rightarrow> string \<Rightarrow> string \<Rightarrow> int \<Rightarrow> int \<Rightarrow> 'm \<Rightarrow> 'm" where
  "ObserveRequest p method route status seconds m =
     promObserve p ''http_request_duration_seconds'' [method, route] seconds
       (promInc p ''http_requests_total'' [method, route, itoa status] m)"

definition metrics_ObserveProcessed :: "'m prometheus \<Rightarrow> string \<Rightarrow> string \<Rightarrow> int \<Rightarrow> 'm \<Rightarrow> 'm" where
  "metrics_ObserveProcessed p event status seconds m =
     promObserve p ''avatars_processing_duration_seconds'' [event] seconds
       (promInc p ''avatars_processed_total'' [event, status] m)"

subsection \<open>Collectors\<close>

record pool_stat =
  TotalConns :: int
  IdleConns :: int
  AcquiredConns :: int

text \<open>What \<^verbatim>\<open>prometheus.NewDesc\<close> is given: name, help text and variable labels.\<close>

record desc =
  fqName :: string
  helpText :: string
  variableLabels :: "string list"

definition descPoolTotal :: desc where
  "descPoolTotal = \<lparr>fqName = ''pgxpool_total_conns'', helpText = ''Total connections in the pgx pool.'', variableLabels = []\<rparr>"

definition descPoolIdle :: desc where
  "descPoolIdle = \<lparr>fqName = ''pgxpool_idle_conns'', helpText = ''Idle connections in the pgx pool.'', variableLabels = []\<rparr>"

definition descPoolAcquired :: desc where
  "descPoolAcquired = \<lparr>fqName = ''pgxpool_acquired_conns'',
     helpText = ''Connections currently acquired from the pgx pool.'', variableLabels = []\<rparr>"

definition descStorage :: desc where
  "descStorage = \<lparr>fqName = ''avatars_storage_bytes'',
     helpText = ''Live avatar bytes per user. The user_id label is fine for a '' @
       ''training stand; unbounded users would need an aggregate.'', variableLabels = [''user_id'']\<rparr>"

type_synonym 'f gauge = "desc \<times> string list \<times> 'f"

definition pool_Collect :: "(int \<Rightarrow> 'f) \<Rightarrow> ('w \<Rightarrow> pool_stat) \<Rightarrow> 'w \<Rightarrow> 'f gauge list" where
  "pool_Collect float64 stat w = (let s = stat w in
     [(descPoolTotal, [], float64 (TotalConns s)),
      (descPoolIdle, [], float64 (IdleConns s)),
      (descPoolAcquired, [], float64 (AcquiredConns s))])"

text \<open>
  The query runs under a context of its own with the given time, in nanoseconds. The map of
  usages is the list of its entries, in the order \<^verbatim>\<open>range\<close> visits them.
\<close>

definition storageScrapeTimeout :: int where
  "storageScrapeTimeout = 2 * 1000000000"

definition storage_Collect ::
  "(int \<Rightarrow> 'f) \<Rightarrow> (int \<Rightarrow> ('w, (string \<times> int) list) io) \<Rightarrow> 'w \<Rightarrow> 'f gauge list \<times> 'w" where
  "storage_Collect float64 usage w = (case usage storageScrapeTimeout w of
     (Inl _, w1) \<Rightarrow> ([], w1)
   | (Inr byUser, w1) \<Rightarrow>
       (map (\<lambda>(userID, bytes). (descStorage, [userID], float64 bytes)) byUser, w1))"

subsection \<open>Registration\<close>

text \<open>
  \<^verbatim>\<open>MustRegister\<close> panics when a name is already taken; a registry is the list of the names it
  knows. The collectors of the Go runtime and of the process are the client's: their names
  are the parameter \<open>runtime\<close>, and all of them start with \<^verbatim>\<open>go_\<close> or \<^verbatim>\<open>process_\<close>.
\<close>

definition pool_Describe :: "desc list" where
  "pool_Describe = [descPoolTotal, descPoolIdle, descPoolAcquired]"

definition storage_Describe :: "desc list" where
  "storage_Describe = [descStorage]"

definition MustRegister :: "string list \<Rightarrow> string list option \<Rightarrow> string list option" where
  "MustRegister names reg = (case reg of None \<Rightarrow> None
     | Some known \<Rightarrow> if distinct (known @ names) then Some (known @ names) else None)"

definition newBase :: "string list \<Rightarrow> string list option" where
  "newBase runtime = MustRegister runtime (Some [])"

definition RegisterPool :: "string list option \<Rightarrow> string list option" where
  "RegisterPool = MustRegister (map fqName pool_Describe)"

definition RegisterStorage :: "string list option \<Rightarrow> string list option" where
  "RegisterStorage = MustRegister (map fqName storage_Describe)"

definition with_instruments :: "instrument list \<Rightarrow> string list option \<Rightarrow> string list option" where
  "with_instruments is reg = fold (\<lambda>i. MustRegister [instrument_name i]) is reg"

text \<open>
  Neither binary panics while it registers; and what the collectors send on a scrape, they
  have described, with one value per label, so that \<^verbatim>\<open>MustNewConstMetric\<close> does not panic.
\<close>

lemma registration_sound:
  assumes "distinct runtime" and "list_all (\<lambda>n. take 3 n = ''go_'' \<or> take 8 n = ''process_'') runtime"
  shows "RegisterStorage (RegisterPool (with_instruments NewServer (newBase runtime))) \<noteq> None"
    and "RegisterPool (with_instruments NewWorker (newBase runtime)) \<noteq> None"
    and "\<forall>(d, ls, v) \<in> set (pool_Collect float64 stat w). d \<in> set pool_Describe \<and> length ls = length (variableLabels d)"
    and "\<forall>(d, ls, v) \<in> set (fst (storage_Collect float64 usage w)). d \<in> set storage_Describe \<and> length ls = length (variableLabels d)"
proof -
  have other: "n \<notin> set runtime" if "take 3 n \<noteq> ''go_''" "take 8 n \<noteq> ''process_''" for n
    using assms(2) that by (auto simp: list_all_iff)
  note descs = descPoolTotal_def descPoolIdle_def descPoolAcquired_def descStorage_def
  note defs = RegisterStorage_def RegisterPool_def newBase_def MustRegister_def with_instruments_def
    descs pool_Describe_def storage_Describe_def NewServer_def NewWorker_def
  show "RegisterStorage (RegisterPool (with_instruments NewServer (newBase runtime))) \<noteq> None"
    "RegisterPool (with_instruments NewWorker (newBase runtime)) \<noteq> None"
    using assms(1) by (simp_all add: defs other)
  show "\<forall>(d, ls, v) \<in> set (pool_Collect float64 stat w). d \<in> set pool_Describe \<and> length ls = length (variableLabels d)"
    by (simp add: pool_Collect_def pool_Describe_def descs Let_def)
  show "\<forall>(d, ls, v) \<in> set (fst (storage_Collect float64 usage w)). d \<in> set storage_Describe \<and> length ls = length (variableLabels d)"
    by (auto simp: storage_Collect_def storage_Describe_def descStorage_def split: prod.splits sum.splits)
qed

subsection \<open>The scrape endpoint of the worker\<close>

text \<open>
  What the \<^verbatim>\<open>select\<close> of \<^verbatim>\<open>serve\<close> sees: the listener ended, or the context is done, with the
  result of Shutdown and then of Serve.
\<close>

datatype serve_event =
    ServeEnded go_error
  | ServeCancelled "unit res" go_error

fun serve :: "serve_event \<Rightarrow> unit res" where
  "serve (ServeEnded err) = Inl err"
| "serve (ServeCancelled (Inl err) _) = Inl err"
| "serve (ServeCancelled (Inr _) err) = (if \<not> errors_is err ErrServerClosed then Inl err else Inr ())"

definition Serve :: "(string \<Rightarrow> ('w, unit) io) \<Rightarrow> string \<Rightarrow> serve_event \<Rightarrow> ('w, unit) io" where
  "Serve Listen addr ev w = (case Listen addr w of
     (Inl err, w1) \<Rightarrow> (Inl err, w1)
   | (Inr _, w1) \<Rightarrow> (serve ev, w1))"

end
