(* ===== verification/Server.thy ===== *)
theory Server
  imports Handlers Metrics "HOL-Library.AList"
begin

section \<open>Router and middleware (internal/server/httpserver)\<close>

text \<open>
  \<^verbatim>\<open>server.go\<close>, \<^verbatim>\<open>health.go\<close> and \<^verbatim>\<open>web.go\<close>: the route table, the three middlewares around
  it, and the endpoints that do not call the avatar service. A middleware is a function
  from handlers to handlers; a panic travels through those that do not recover. The chi
  router, the swagger and metrics handlers, the embedded files and otelhttp are parameters:
  a router finds one of the patterns it is given, or its own answer applies.
\<close>

subsection \<open>Health, liveness and pages\<close>

record 'w HealthCheck =
  checkName :: string
  checkRun :: "('w, unit) io"

fun run_checks :: "'w HealthCheck list \<Rightarrow> (string \<times> string) list \<Rightarrow> string \<Rightarrow> 'w \<Rightarrow>
    ((string \<times> string) list \<times> string) \<times> 'w" where
  "run_checks [] components status w = ((components, status), w)"
| "run_checks (c # cs) components status w = (case checkRun c w of
     (Inl err, w1) \<Rightarrow> run_checks cs (AList.update (checkName c) (error_text err) components) ''degraded'' w1
   | (Inr _, w1) \<Rightarrow> run_checks cs (AList.update (checkName c) ''ok'' components) status w1)"

text \<open>A Go map is encoded as a JSON object with its keys in increasing order.\<close>

definition json_map :: "(string \<times> string) list \<Rightarrow> json" where
  "json_map kvs = JObj (map (\<lambda>(k, v). (k, json_string v)) (sort_key fst kvs))"

definition healthHandler :: "'w HealthCheck list \<Rightarrow> 'w http_handler" where
  "healthHandler checks r c = (case run_checks checks [] ''ok'' (cState c) of
     ((components, status), w) \<Rightarrow>
       (let code = (if status \<noteq> ''ok'' then 503 else 200) in
        (Value (), answer (writeJSON code (JObj [(''components'', json_map components), (''status'', json_string status)]))
           (c\<lparr>cState := w\<rparr>))))"

definition liveHandler :: "'w http_handler" where
  "liveHandler r c = (Value (), answer (writeJSON 200 (JObj [(''status'', json_string ''ok'')])) c)"

abbreviation pageUpload :: string where "pageUpload \<equiv> ''static/index.html''"
abbreviation pageGallery :: string where "pageGallery \<equiv> ''static/gallery.html''"

definition servePage :: "(string \<Rightarrow> bytes res) \<Rightarrow> string \<Rightarrow> 'w http_handler" where
  "servePage ReadFile path r c = (case ReadFile path of
     Inl _ \<Rightarrow> (Value (), answer (writeError 500 ''page is missing from the build'') c)
   | Inr body \<Rightarrow> (Value (), answer (\<lambda>rs. write_chunk (RawBytes body)
       (set_header ''Content-Type'' ''text/html; charset=utf-8'' rs)) c))"

subsection \<open>Middleware\<close>

definition isTechnical :: "string \<Rightarrow> bool" where
  "isTechnical path \<longleftrightarrow> path = ''/health'' \<or> path = ''/live'' \<or> path = ''/metrics''"

record 'w telemetry =
  spanOf :: "request \<Rightarrow> string option"
  SetName :: "string \<Rightarrow> 'w \<Rightarrow> 'w"
  LogRequest :: "string \<Rightarrow> string \<Rightarrow> int \<Rightarrow> int \<Rightarrow> 'w \<Rightarrow> 'w"
  LogPanic :: "string \<Rightarrow> string \<Rightarrow> 'w \<Rightarrow> 'w"
  Observed :: "string \<Rightarrow> string \<Rightarrow> int \<Rightarrow> int \<Rightarrow> 'w \<Rightarrow> 'w"
  RoutePattern :: "request \<Rightarrow> string"
  Now :: "'w \<Rightarrow> int"

definition tracing :: "'w telemetry \<Rightarrow> 'w http_handler \<Rightarrow> 'w http_handler" where
  "tracing t nxt r c = (let
     c1 = (case spanOf t r of Some i \<Rightarrow> answer (set_header ''X-Trace-Id'' i) c | None \<Rightarrow> c) in
     (case nxt r c1 of
        (Panic p, c2) \<Rightarrow> (Panic p, c2)
      | (Value _, c2) \<Rightarrow>
          (Value (), if RoutePattern t r \<noteq> []
             then c2\<lparr>cState := SetName t (Method r @ '' '' @ RoutePattern t r) (cState c2)\<rparr> else c2)))"

definition watch :: "int option \<Rightarrow> response \<Rightarrow> response" where
  "watch st rs = rs\<lparr>watched := st\<rparr>"

definition observability :: "'w telemetry \<Rightarrow> 'w http_handler \<Rightarrow> 'w http_handler" where
  "observability t nxt r c =
     (if isTechnical (Path r) then nxt r c
      else (case nxt r (answer (watch (Some 200)) c) of
        (Panic p, c1) \<Rightarrow> (Panic p, answer (watch None) c1)
      | (Value _, c1) \<Rightarrow>
          (let elapsed = Now t (cState c1) - Now t (cState c);
               status = (case watched (cResp c1) of Some st \<Rightarrow> st | None \<Rightarrow> 200);
               w1 = LogRequest t (Method r) (Path r) status elapsed (cState c1);
               route = (if RoutePattern t r = [] then ''unmatched'' else RoutePattern t r) in
           (Value (), answer (watch None)
              (c1\<lparr>cState := Observed t (Method r) route status elapsed w1\<rparr>)))))"

definition recovery :: "'w telemetry \<Rightarrow> 'w http_handler \<Rightarrow> 'w http_handler" where
  "recovery t nxt r c = (case nxt r c of
     (Value _, c1) \<Rightarrow> (Value (), c1)
   | (Panic p, c1) \<Rightarrow>
       (Value (), answer (writeError 500 ''internal error'')
          (c1\<lparr>cState := LogPanic t p (Path r) (cState c1)\<rparr>)))"

subsection \<open>The router\<close>

record 'w router_libs =
  findRoute :: "(string \<times> string) list \<Rightarrow> request \<Rightarrow> ((string \<times> string) \<times> (string \<Rightarrow> string)) option"
  noRoute :: "'w http_handler"
  metricsHandler :: "'w http_handler"
  swaggerHandler :: "'w http_handler"
  readFile :: "string \<Rightarrow> bytes res"

definition route_table :: "'w router_libs \<Rightarrow> 'w handlers \<Rightarrow> 'w HealthCheck list \<Rightarrow>
    ((string \<times> string) \<times> 'w http_handler) list" where
  "route_table l h checks =
     [((''POST'', ''/api/v1/avatars''), upload h),
      ((''GET'', ''/api/v1/avatars/{avatarID}''), getFile h),
      ((''GET'', ''/api/v1/avatars/{avatarID}/thumbnails/{size}''), getThumbnail h),
      ((''GET'', ''/api/v1/avatars/{avatarID}/metadata''), metadata h),
      ((''DELETE'', ''/api/v1/avatars/{avatarID}''), delete_handler h),
      ((''GET'', ''/api/v1/users/{userID}/avatar''), latestFile h),
      ((''DELETE'', ''/api/v1/users/{userID}/avatar''), deleteLatest h),
      ((''GET'', ''/api/v1/users/{userID}/avatars''), list_handler h),
      ((''GET'', ''/health''), healthHandler checks),
      ((''GET'', ''/live''), liveHandler),
      ((''GET'', ''/metrics''), metricsHandler l),
      ((''GET'', ''/swagger/*''), swaggerHandler l),
      ((''GET'', ''/''), servePage (readFile l) pageUpload),
      ((''GET'', ''/web/upload''), servePage (readFile l) pageUpload),
      ((''POST'', ''/web/upload''), upload h),
      ((''GET'', ''/web/gallery/{userID}''), servePage (readFile l) pageGallery)]"

definition serve_route :: "'w router_libs \<Rightarrow> 'w handlers \<Rightarrow> 'w HealthCheck list \<Rightarrow> 'w http_handler" where
  "serve_route l h checks r = (let table = route_table l h checks in
     (case findRoute l (map fst table) r of
        None \<Rightarrow> noRoute l r
      | Some (k, params) \<Rightarrow>
          (case map_of table k of
             None \<Rightarrow> noRoute l r
           | Some handler \<Rightarrow> handler (r\<lparr>URLParam := params\<rparr>))))"

definition NewRouter :: "'w telemetry \<Rightarrow> 'w router_libs \<Rightarrow> 'w handlers \<Rightarrow> 'w HealthCheck list \<Rightarrow> 'w http_handler" where
  "NewRouter t l h checks =
     (let t' = t\<lparr>spanOf := (\<lambda>r. if \<not> isTechnical (Path r) then spanOf t r else None)\<rparr> in
      recovery t' (tracing t' (observability t' (serve_route l h checks))))"

text \<open>
  The worker's listener (internal/metrics/serve.go): its \<^verbatim>\<open>ServeMux\<close> knows two exact paths;
  what the mux answers on others is net/http's, the parameter \<open>notFound\<close>.
\<close>

definition worker_live :: "'w http_handler" where
  "worker_live r c = (Value (), answer (\<lambda>rs. write_chunk (RawBytes ''ok'') (write_header 200 rs)) c)"

definition worker_mux :: "'w http_handler \<Rightarrow> 'w http_handler \<Rightarrow> 'w http_handler" where
  "worker_mux notFound h r =
     (if Path r = ''/metrics'' then h r else if Path r = ''/live'' then worker_live r else notFound r)"

lemma worker_probe:
  assumes "Path r = ''/live''" and "cResp c = fresh_response"
  shows "\<exists>c'. worker_mux notFound h r c = (Value (), c') \<and> cState c' = cState c \<and>
    answer_status (cResp c') = 200 \<and> chunks (cResp c') = [RawBytes ''ok'']"
  using assms by (simp add: worker_mux_def worker_live_def answer_status_def write_chunk_def write_header_def
      commit_header_def fresh_response_def Let_def)

subsection \<open>What the wrapper knows\<close>

definition honest_handler :: "'w http_handler \<Rightarrow> bool" where
  "honest_handler f \<longleftrightarrow> (\<forall>r c c'. untouched (cResp c) \<longrightarrow> f r c = (Value (), c') \<longrightarrow> honest (cResp c'))"

lemma honest_handlerI:
  "(\<And>r c c'. untouched (cResp c) \<Longrightarrow> f r c = (Value (), c') \<Longrightarrow> honest (cResp c')) \<Longrightarrow> honest_handler f"
  by (auto simp: honest_handler_def)

lemma honest_handlerD:
  "honest_handler f \<Longrightarrow> untouched (cResp c) \<Longrightarrow> f r c = (Value (), c') \<Longrightarrow> honest (cResp c')"
  by (auto simp: honest_handler_def)

lemma honest_serviceError: "untouched rs \<Longrightarrow> honest (serviceError e rs)"
  by (simp add: serviceError_def honest_rules)

lemma honest_with_service:
  assumes "\<And>a c c'. untouched (cResp c) \<Longrightarrow> k a c = (Value (), c') \<Longrightarrow> honest (cResp c')"
    and "untouched (cResp c)" and "with_service m k c = (Value (), c')"
  shows "honest (cResp c')"
proof -
  obtain out w where m: "m (cState c) = (out, w)" by fastforce
  have u: "untouched (cResp (c\<lparr>cState := w\<rparr>))" using assms(2) by simp
  from assms(1) [OF u] assms(3) m u honest_serviceError show ?thesis
    by (fastforce simp: with_service_def answer_def split: go.splits sum.splits)
qed

lemma honest_streamFile:
  assumes "untouched (cResp c)" and "streamFile f c = (Value (), c')"
  shows "honest (cResp c')"
proof -
  have "honest (write_chunk b (set_header k v (set_header k' v' (cResp c))))"
    "honest (set_header k v (set_header k' v' (cResp c)))" "honest (set_header k v (cResp c))"
    "honest (write_chunk b (set_header k v (cResp c)))" for b k v k' v'
    using assms(1) by (simp_all add: honest_write_chunk untouched_honest)
  with assms(2) show ?thesis
    by (auto simp: streamFile_def Let_def split: prod.splits if_splits)
qed

lemma honest_requireUserID:
  "untouched rs \<Longrightarrow> requireUserID r rs = (None, rs') \<Longrightarrow> honest rs'"
  by (auto simp: requireUserID_def Let_def honest_rules split: if_splits)

lemma honest_upload: "honest_handler (upload h)"
proof (rule honest_handlerI)
  fix r c c'
  assume u: "untouched (cResp c)" and run: "upload h r c = (Value (), c')"
  obtain st c1 where "upload_handler h r c = ((Value (), st), c1)" and c': "cResp c' = cResp c1"
    using run by (auto simp: upload_def split: prod.splits)
  then have "honest (cResp c1)"
    using u honest_requireUserID [OF u] unfolding upload_handler_def
    by (auto simp: answer_def too_large_or_400_def honest_rules honest_serviceError
        split: prod.splits option.splits if_splits sum.splits go.splits)
  with c' show "honest (cResp c')" by simp
qed

definition honest_continuation :: "('a \<Rightarrow> 'w conn \<Rightarrow> unit go \<times> 'w conn) \<Rightarrow> bool" where
  "honest_continuation k \<longleftrightarrow> (\<forall>a c c'. untouched (cResp c) \<longrightarrow> k a c = (Value (), c') \<longrightarrow> honest (cResp c'))"

lemma honest_service:
  assumes "honest_continuation k"
  shows "honest_handler (\<lambda>r. with_service (m r) k)"
  using assms honest_with_service [of k] unfolding honest_continuation_def honest_handler_def by blast

lemma honest_continuations:
  "honest_continuation streamFile" "honest_continuation no_content"
  "honest_continuation (\<lambda>a c. (Value (), answer (writeJSON 200 (j a)) c))"
  using honest_streamFile by (auto simp: honest_continuation_def no_content_def honest_rules)

lemma honest_deletes:
  "honest_handler (delete_handler h)" "honest_handler (deleteLatest h)"
proof -
  have guarded: "honest_handler (\<lambda>r c. case requireUserID r (cResp c) of
      (None, rs) \<Rightarrow> (Value (), c\<lparr>cResp := rs\<rparr>)
    | (Some userID, _) \<Rightarrow> with_service (m r userID) no_content c)" for m :: "request \<Rightarrow> string \<Rightarrow> ('a, unit res) call"
    using honest_service [OF honest_continuations(2)] honest_requireUserID
    by (fastforce simp: honest_handler_def split: prod.splits option.splits)
  show "honest_handler (delete_handler h)" "honest_handler (deleteLatest h)"
    unfolding delete_handler_def [abs_def] deleteLatest_def [abs_def] by (rule guarded)+
qed

lemma honest_reads:
  "honest_handler (getFile h)" "honest_handler (latestFile h)" "honest_handler (getThumbnail h)"
  "honest_handler (metadata h)" "honest_handler (list_handler h)"
  unfolding getFile_def [abs_def] latestFile_def [abs_def] getThumbnail_def [abs_def]
    metadata_def [abs_def] list_handler_def [abs_def]
  by (intro honest_service honest_continuations)+

lemma honest_plain:
  "honest_handler (healthHandler checks)" "honest_handler liveHandler" "honest_handler (servePage rf path)"
  by (rule honest_handlerI, auto simp: healthHandler_def liveHandler_def servePage_def Let_def honest_rules
      split: prod.splits sum.splits)+

lemma honest_route:
  assumes "honest_handler (noRoute l)" "honest_handler (metricsHandler l)" "honest_handler (swaggerHandler l)"
  shows "honest_handler (serve_route l h checks)"
proof -
  have all: "list_all honest_handler (map snd (route_table l h checks))"
    using assms by (simp add: route_table_def honest_upload honest_reads honest_deletes honest_plain)
  have "honest_handler f" if "map_of (route_table l h checks) k = Some f" for k f
    using all map_of_SomeD [OF that] by (force simp: list_all_iff)
  with assms(1) show ?thesis
    unfolding honest_handler_def serve_route_def Let_def by (auto split: option.splits)
qed

subsection \<open>Properties of the middleware\<close>

text \<open>
  a panic never reaches the connection. Whatever the handlers below it do, the router
  returns normally; a panic that happens before anything was written becomes a 500 with
  the generic body, and one that happens later leaves the status already sent.
\<close>

theorem recovery_answers:
  "\<exists>c'. recovery t nxt r c = (Value (), c') \<and>
     (\<forall>p c1. nxt r c = (Panic p, c1) \<longrightarrow> cState c' = LogPanic t p (Path r) (cState c1) \<and>
        (blank (cResp c1) \<longrightarrow> answer_status (cResp c') = 500 \<and>
           chunks (cResp c') = [JsonText (JObj [(''error'', json_string ''internal error'')])]) \<and>
        (\<forall>st hs. statusLine (cResp c1) = Some (st, hs) \<longrightarrow> answer_status (cResp c') = st)) \<and>
     (\<forall>c1. nxt r c = (Value (), c1) \<longrightarrow> c' = c1)"
proof -
  obtain v c1 where run: "nxt r c = (v, c1)" by fastforce
  have kept: "answer_status (writeError 500 m rs) = st" if "statusLine rs = Some (st, hs)" for m rs st hs
    using that by (simp add: http_simps Let_def)
  show ?thesis
    using kept blank_write [where code = 500] by (cases v) (auto simp: recovery_def run answer_def)
qed

text \<open>
  What the whole chain makes of what the routed handler did, on a path that is observed:
  the log line, the observation and the name of the span of a request whose handler
  returned, and the answer and the log line of one that panicked. The handler starts on a
  response that has at most a trace id, under the eyes of the wrapper.
\<close>

definition route_label :: "'w telemetry \<Rightarrow> request \<Rightarrow> string" where
  "route_label t r = (if RoutePattern t r = [] then ''unmatched'' else RoutePattern t r)"

definition span_named :: "'w telemetry \<Rightarrow> request \<Rightarrow> 'w \<Rightarrow> 'w" where
  "span_named t r w = (if RoutePattern t r \<noteq> [] then SetName t (Method r @ '' '' @ RoutePattern t r) w else w)"

definition request_logged :: "'w telemetry \<Rightarrow> request \<Rightarrow> int \<Rightarrow> 'w \<Rightarrow> 'w \<Rightarrow> 'w" where
  "request_logged t r st w w1 = (let secs = Now t w1 - Now t w in
     span_named t r (Observed t (Method r) (route_label t r) st secs
       (LogRequest t (Method r) (Path r) st secs w1)))"

definition traced_conn :: "'w telemetry \<Rightarrow> request \<Rightarrow> 'w \<Rightarrow> 'w conn" where
  "traced_conn t r w = \<lparr>cState = w, cResp = watch (Some 200) (case spanOf t r of
     Some i \<Rightarrow> set_header ''X-Trace-Id'' i fresh_response | None \<Rightarrow> fresh_response)\<rparr>"

lemma traced_conn_start: "untouched (cResp (traced_conn t r w))" "cState (traced_conn t r w) = w"
  by (simp_all add: traced_conn_def untouched_def watch_def fresh_response_def set_header_def split: option.splits)

lemma watch_keeps [simp]:
  "answer_status (watch x rs) = answer_status rs" "chunks (watch x rs) = chunks rs" "statusLine (watch x rs) = statusLine rs"
  by (simp_all add: watch_def answer_status_def)

lemma router_observed:
  assumes "\<not> isTechnical (Path r)"
  shows "NewRouter t l h checks r \<lparr>cState = w, cResp = fresh_response\<rparr> =
    (case serve_route l h checks r (traced_conn t r w) of
       (Value _, c1) \<Rightarrow> (Value (), \<lparr>cState = request_logged t r (case watched (cResp c1) of Some st \<Rightarrow> st | None \<Rightarrow> 200) w (cState c1),
         cResp = watch None (cResp c1)\<rparr>)
     | (Panic p, c1) \<Rightarrow> (Value (), \<lparr>cState = LogPanic t p (Path r) (cState c1),
         cResp = writeError 500 ''internal error'' (watch None (cResp c1))\<rparr>))"
proof -
  have conn: "(case spanOf t r of Some i \<Rightarrow> answer (set_header ''X-Trace-Id'' i) c | None \<Rightarrow> c) =
      \<lparr>cState = w, cResp = (case spanOf t r of Some i \<Rightarrow> set_header ''X-Trace-Id'' i fresh_response | None \<Rightarrow> fresh_response)\<rparr>"
    if "c = \<lparr>cState = w, cResp = fresh_response\<rparr>" for c
    using that by (simp add: answer_def split: option.splits)
  obtain out c1 where run: "serve_route l h checks r (traced_conn t r w) = (out, c1)" by fastforce
  then show ?thesis
    using assms by (cases out) (simp_all add: NewRouter_def Let_def recovery_def tracing_def observability_def conn
        answer_def traced_conn_def request_logged_def span_named_def route_label_def)
qed

lemma panic_answer:
  "blank rs \<Longrightarrow> answer_status (writeError 500 ''internal error'' rs) = 500 \<and>
     chunks (writeError 500 ''internal error'' rs) = [JsonText (JObj [(''error'', json_string ''internal error'')])]"
  "statusLine rs = Some (st, hs) \<Longrightarrow> answer_status (writeError 500 ''internal error'' rs) = st"
  using blank_write [where code = 500] by (simp_all add: http_simps Let_def)

text \<open>
  C36: what is logged and measured. Every request outside the probes whose handler returns
  is logged once and measured once, both with the method, the elapsed time and the status
  the client got, and requests without a route share the label unmatched. One whose
  handler panics is neither logged as a request nor measured: it leaves the log line of
  the panic, and the client gets the generic 500, or the status that was already sent. A
  technical endpoint gets none of this, nor a trace id, but for the log line of a panic.
\<close>

theorem requests_observed:
  assumes "honest_handler (noRoute l)" "honest_handler (metricsHandler l)" "honest_handler (swaggerHandler l)"
    and "NewRouter t l h checks r \<lparr>cState = w, cResp = fresh_response\<rparr> = (v, c')"
  shows "v = Value () \<and>
    (if isTechnical (Path r)
     then (case serve_route l h checks r \<lparr>cState = w, cResp = fresh_response\<rparr> of
         (Value _, c1) \<Rightarrow> cState c' = span_named t r (cState c1) \<and> cResp c' = cResp c1
       | (Panic p, c1) \<Rightarrow> cState c' = LogPanic t p (Path r) (cState c1))
     else (case serve_route l h checks r (traced_conn t r w) of
         (Value _, c1) \<Rightarrow> cState c' = request_logged t r (answer_status (cResp c')) w (cState c1) \<and>
           cResp c' = watch None (cResp c1)
       | (Panic p, c1) \<Rightarrow> cState c' = LogPanic t p (Path r) (cState c1) \<and>
           (blank (cResp c1) \<longrightarrow> answer_status (cResp c') = 500 \<and>
              chunks (cResp c') = [JsonText (JObj [(''error'', json_string ''internal error'')])]) \<and>
           (\<forall>st hs. statusLine (cResp c1) = Some (st, hs) \<longrightarrow> answer_status (cResp c') = st)))"
proof (cases "isTechnical (Path r)")
  case True
  with assms(4) show ?thesis
    by (auto simp: NewRouter_def Let_def recovery_def tracing_def observability_def span_named_def
        split: prod.splits go.splits)
next
  case False
  obtain out c1 where run: "serve_route l h checks r (traced_conn t r w) = (out, c1)" by fastforce
  note all = assms(4) [unfolded router_observed [OF False] run]
  show ?thesis
  proof (cases out)
    case (Value u)
    then have "honest (cResp c1)"
      using honest_handlerD [OF honest_route [OF assms(1-3)] traced_conn_start(1)] run by simp
    with all False run Value show ?thesis by (auto simp: honest_def)
  next
    case (Panic p)
    then have c': "v = Value ()" "cState c' = LogPanic t p (Path r) (cState c1)"
      "cResp c' = writeError 500 ''internal error'' (watch None (cResp c1))"
      using all by auto
    have "blank (watch None (cResp c1)) = blank (cResp c1)" by (simp add: blank_def)
    with panic_answer [of "watch None (cResp c1)"] show ?thesis
      by (simp add: False run Panic c') blast
  qed
qed

text \<open>
  C13: an upload is answered and counted once, on every exit. Of a POST that the router
  sends to the upload, through all the middleware: a request that is refused (no or too
  long user id, a declared or actual size over the limit, no file in the form) gets 400 or
  413, never reaches the service and is counted as rejected; any other makes exactly one
  call of Upload, and is counted ok and answered 201 with the avatar, or counted error and
  answered with that error; and when the service panics, the count is rejected and the
  client gets the generic 500. Beside the count, a request leaves its log line and its
  measurement, or the log line of its panic.
\<close>

theorem upload_answered_and_counted:
  assumes "\<not> isTechnical (Path r)"
    and "findRoute l (map fst (route_table l h checks)) r = Some ((''POST'', p), params)"
    and "p \<in> {''/api/v1/avatars'', ''/web/upload''}"
  shows "\<exists>c'. NewRouter t l h checks r \<lparr>cState = w, cResp = fresh_response\<rparr> = (Value (), c') \<and>
    (let st = answer_status (cResp c'); finish = (\<lambda>w1. request_logged t r st w w1);
       tally = (\<lambda>label w1. hObserveUpload h label (hNow h w1 - hNow h w) w1) in
     case upload_request r of
       None \<Rightarrow> st \<in> {400, 413} \<and> cState c' = finish (hObserveUpload h StatusRejected 0 w)
     | Some (uid, name, data) \<Rightarrow>
         (case aUpload (hSvc h) uid name data w of
            (Value (Inr a), w1) \<Rightarrow> st = 201 \<and> chunks (cResp c') = [JsonText (uploadResponse (hFormatTime h) a)] \<and>
              cState c' = finish (tally StatusOK w1)
          | (Value (Inl e), w1) \<Rightarrow> error_answer e (cResp c') \<and> cState c' = finish (tally StatusError w1)
          | (Panic msg, w1) \<Rightarrow> st = 500 \<and>
              chunks (cResp c') = [JsonText (JObj [(''error'', json_string ''internal error'')])] \<and>
              cState c' = LogPanic t msg (Path r) (tally StatusRejected w1)))"
proof -
  let ?tally = "\<lambda>label w1. hObserveUpload h label (hNow h w1 - hNow h w) w1"
  let ?c0 = "traced_conn t r w" and ?r = "r\<lparr>URLParam := params\<rparr>"
  have route: "serve_route l h checks r = upload h ?r"
    using assms(2,3) by (auto simp: serve_route_def Let_def route_table_def)
  have "FormFile1 m ?r k = FormFile1 m r k" "FormFile2 m ?r k = FormFile2 m r k" for m k
    by (simp_all add: FormFile1_def FormFile2_def split: sum.split)
  then have form: "formFile ?r = formFile r"
    by (simp add: formFile_def split: sum.split)
  have sel: "Header ?r = Header r" "ContentLength ?r = ContentLength r" by simp_all
  have req: "upload_request ?r = upload_request r"
    unfolding upload_request_def form sel by (rule refl)
  have start: "blank (cResp ?c0)" "cState ?c0 = w" by (rule blank_untouched [OF traced_conn_start(1)], rule traced_conn_start(2))
  have blank_w: "blank (watch None (cResp ?c0))" using start(1) by (simp add: blank_def)
  note chain = router_observed [OF assms(1), of t l h checks w, unfolded route]
  have known: "(case watched (cResp c1) of Some st \<Rightarrow> st | None \<Rightarrow> 200) = answer_status (cResp c1)"
    if "upload h ?r ?c0 = (Value (), c1)" for c1
    using honest_handlerD [OF honest_upload traced_conn_start(1) that] by (simp add: honest_def)
  note exits = upload_exits [where r = "?r" and h = h, OF start(1), unfolded req start(2)]
  show ?thesis
  proof (cases "upload_request r")
    case None
    with exits obtain rs where run: "upload h ?r ?c0 = (Value (), \<lparr>cState = hObserveUpload h StatusRejected 0 w, cResp = rs\<rparr>)"
      and "answer_status rs \<in> {400, 413}" by auto
    with known [OF run] None show ?thesis by (simp add: chain run)
  next
    case (Some call)
    obtain uid name data where call: "call = (uid, name, data)" by (cases call)
    obtain out w1 where out: "aUpload (hSvc h) uid name data w = (out, w1)" by fastforce
    note exits = exits [unfolded Some call option.case prod.case out]
    show ?thesis
    proof (cases out)
      case (Panic msg)
      with exits have run: "upload h ?r ?c0 = (Panic msg, \<lparr>cState = ?tally StatusRejected w1, cResp = cResp ?c0\<rparr>)"
        by simp
      with Some call out Panic panic_answer(1) [OF blank_w] show ?thesis by (simp add: chain run)
    next
      case (Value res)
      then obtain st rs where run: "upload h ?r ?c0 = (Value (), \<lparr>cState = ?tally st w1, cResp = rs\<rparr>)" and
        rs: "case res of Inr a \<Rightarrow> st = StatusOK \<and> answer_status rs = 201 \<and> chunks rs = [JsonText (uploadResponse (hFormatTime h) a)]
          | Inl e \<Rightarrow> st = StatusError \<and> error_answer e rs"
        using exits by (cases res) auto
      have "error_answer e (watch None rs) = error_answer e rs" for e by (simp add: error_answer_def)
      with known [OF run] rs Some call out Value show ?thesis
        by (cases res) (simp_all add: chain run)
    qed
  qed
qed

subsection \<open>Health\<close>

text \<open>The results of the probes, each run in the state the former one left.\<close>

fun check_results :: "'w HealthCheck list \<Rightarrow> 'w \<Rightarrow> (string \<times> unit res) list \<times> 'w" where
  "check_results [] w = ([], w)"
| "check_results (c # cs) w = (case checkRun c w of (res, w1) \<Rightarrow>
     (case check_results cs w1 of (rs, w2) \<Rightarrow> ((checkName c, res) # rs, w2)))"

definition component_text :: "unit res \<Rightarrow> string" where
  "component_text res = (case res of Inl e \<Rightarrow> error_text e | Inr _ \<Rightarrow> ''ok'')"

lemma check_results_names: "map fst (fst (check_results cs w)) = map checkName cs"
  by (induction cs arbitrary: w) (simp_all add: case_prod_unfold)

lemma run_checks_spec:
  assumes "check_results cs w = (rs, w')" and "distinct (map checkName cs)"
    and "set (map fst comps) \<inter> checkName ` set cs = {}"
  shows "\<exists>comps'. run_checks cs comps st w =
      ((comps', if list_all (\<lambda>(n, res). \<exists>u. res = Inr u) rs then st else ''degraded''), w') \<and>
    (\<forall>n. map_of comps' n = (case map_of rs n of Some res \<Rightarrow> Some (component_text res) | None \<Rightarrow> map_of comps n))"
  using assms
proof (induction cs arbitrary: w comps st rs)
  case (Cons c cs)
  obtain res w1 where run: "checkRun c w = (res, w1)" by fastforce
  obtain rs1 where rest: "check_results cs w1 = (rs1, w')" "rs = (checkName c, res) # rs1"
    using Cons.prems(1) run by (auto split: prod.splits)
  let ?comps = "AList.update (checkName c) (component_text res) comps"
  have fresh: "set (map fst ?comps) \<inter> checkName ` set cs = {}"
    using Cons.prems(2,3) by (auto simp: dom_update)
  have gone: "map_of rs1 (checkName c) = None"
    using Cons.prems(2) check_results_names [of cs w1] rest(1)
    by (metis distinct.simps(2) fst_conv list.simps(9) map_of_eq_None_iff set_map)
  have step: "run_checks (c # cs) comps st w =
      run_checks cs ?comps (if \<exists>u. res = Inr u then st else ''degraded'') w1"
    by (cases res) (simp_all add: run component_text_def)
  let ?st = "if \<exists>u. res = Inr u then st else ''degraded''"
  have d: "distinct (map checkName cs)" using Cons.prems(2) by simp
  from Cons.IH [OF rest(1) d fresh, of ?st] obtain comps' where
    run': "run_checks cs ?comps ?st w1 = ((comps', if list_all (\<lambda>(n, res). \<exists>u. res = Inr u) rs1
      then ?st else ''degraded''), w')"
    and map': "\<forall>n. map_of comps' n = (case map_of rs1 n of Some res \<Rightarrow> Some (component_text res) | None \<Rightarrow> map_of ?comps n)"
    by blast
  have "map_of comps' n = (case map_of rs n of Some res \<Rightarrow> Some (component_text res) | None \<Rightarrow> map_of comps n)" for n
    using map' gone rest(2) by (auto simp: update_conv' split: option.splits)
  with run' step rest(2) show ?case by (intro exI [of _ comps']) simp
qed simp

text \<open>
  /health tells the truth. Every probe is run once, in order, whatever the others
  said; the answer is 200 if all of them succeeded and 503 otherwise, and its body names
  every component exactly once, with ok or the text of its error.
\<close>

theorem health_faithful:
  assumes "distinct (map checkName checks)" and "blank (cResp c)"
    and "check_results checks (cState c) = (rs, w')"
  shows "\<exists>c' comps. healthHandler checks r c = (Value (), c') \<and> cState c' = w' \<and>
    answer_status (cResp c') = (if \<forall>(n, res) \<in> set rs. \<exists>u. res = Inr u then 200 else 503) \<and>
    (\<exists>st. chunks (cResp c') = [JsonText (JObj [(''components'', json_map comps), (''status'', json_string st)])] \<and>
       (st = ''ok'' \<longleftrightarrow> answer_status (cResp c') = 200)) \<and>
    map_of comps = map_option component_text \<circ> map_of rs \<and> map fst rs = map checkName checks"
proof -
  obtain comps where run: "run_checks checks [] ''ok'' (cState c) =
      ((comps, if list_all (\<lambda>(n, res). \<exists>u. res = Inr u) rs then ''ok'' else ''degraded''), w')"
    and m: "\<forall>n. map_of comps n = (case map_of rs n of Some res \<Rightarrow> Some (component_text res) | None \<Rightarrow> map_of [] n)"
    using run_checks_spec [OF assms(3,1), of "[]" "''ok''"] by auto
  have names: "map fst rs = map checkName checks"
    using check_results_names [of checks "cState c"] assms(3) by simp
  have "map_of comps = map_option component_text \<circ> map_of rs"
    using m by (auto simp: fun_eq_iff map_option_case split: option.splits)
  with run names show ?thesis
    using blank_write [OF assms(2)]
    by (intro exI [of _ "snd (healthHandler checks r c)"] exI [of _ comps])
       (auto simp: healthHandler_def answer_def list_all_iff Let_def)
qed

subsection \<open>Concrete requests\<close>

definition sample_telemetry :: "nat telemetry" where
  "sample_telemetry = \<lparr>spanOf = (\<lambda>_. Some ''t1''), SetName = (\<lambda>_ n. n), LogRequest = (\<lambda>_ _ st _ n. n + nat st),
     LogPanic = (\<lambda>_ _ n. n), Observed = (\<lambda>_ _ st _ n. n + 1000 * nat st),
     RoutePattern = (\<lambda>_. []), Now = (\<lambda>_. 0)\<rparr>"

definition sample_libs :: "'w router_libs" where
  "sample_libs = \<lparr>findRoute = (\<lambda>_ _. None), noRoute = (\<lambda>r c. (Value (), answer (write_header 404) c)),
     metricsHandler = (\<lambda>r c. (Value (), c)), swaggerHandler = (\<lambda>r c. (Value (), c)),
     readFile = (\<lambda>_. Inr ''page'')\<rparr>"

abbreviation no_avatar :: "('w, 'a res) call" where
  "no_avatar \<equiv> (\<lambda>w. (Value (Inl ErrNotFound), w))"

definition failing_api :: "'w AvatarService" where
  "failing_api = \<lparr>aUpload = (\<lambda>_ _ _. no_avatar), aMetadata = (\<lambda>_. no_avatar), aList = (\<lambda>_. no_avatar),
     aGetFile = (\<lambda>_. no_avatar), aLatestFile = (\<lambda>_. no_avatar), aThumbnailFile = (\<lambda>_ _. no_avatar),
     aDelete = (\<lambda>_ _. no_avatar), aDeleteLatest = (\<lambda>_ _. no_avatar)\<rparr>"

theorem recovery_answers_witness:
  "answer_status (cResp (snd (recovery sample_telemetry (\<lambda>r c. (Panic ''boom'', c)) (sample_request [])
     \<lparr>cState = 0, cResp = fresh_response\<rparr>))) = 500"
proof -
  from recovery_answers [of sample_telemetry "\<lambda>r c. (Panic ''boom'', c)" "sample_request []"
      "\<lparr>cState = 0, cResp = fresh_response\<rparr>"]
  show ?thesis by auto
qed

theorem requests_observed_witness:
  "cState (snd (NewRouter sample_telemetry sample_libs
     \<lparr>hSvc = failing_api, hObserveUpload = (\<lambda>_ _ n. n), hNow = (\<lambda>_. 0), hFormatTime = itoa\<rparr> []
     (sample_request []) \<lparr>cState = 0, cResp = fresh_response\<rparr>)) = 404404"
proof -
  let ?h = "\<lparr>hSvc = failing_api, hObserveUpload = (\<lambda>_ _ n. n), hNow = (\<lambda>_. 0), hFormatTime = itoa\<rparr> :: nat handlers"
  obtain v c' where run: "NewRouter sample_telemetry sample_libs ?h [] (sample_request [])
      \<lparr>cState = 0, cResp = fresh_response\<rparr> = (v, c')" by fastforce
  have libs: "honest_handler (noRoute (sample_libs :: nat router_libs))"
    "honest_handler (metricsHandler (sample_libs :: nat router_libs))"
    "honest_handler (swaggerHandler (sample_libs :: nat router_libs))"
    by (auto simp: sample_libs_def honest_handler_def honest_rules)
  from requests_observed [OF libs run] run show ?thesis
    by (simp add: sample_telemetry_def isTechnical_def sample_request_def serve_route_def Let_def sample_libs_def
        answer_def http_simps watch_def traced_conn_def request_logged_def span_named_def)
qed

text \<open>A service whose Upload panics.\<close>

theorem upload_answered_and_counted_witness:
  "\<exists>c'. NewRouter sample_telemetry
       (sample_libs\<lparr>findRoute := (\<lambda>_ _. Some ((''POST'', ''/api/v1/avatars''), (\<lambda>_. [])))\<rparr>)
       \<lparr>hSvc = failing_api\<lparr>aUpload := (\<lambda>_ _ _ n. (Panic ''boom'', n))\<rparr>, hObserveUpload = (\<lambda>_ _ n. n + 1),
          hNow = (\<lambda>_. 0), hFormatTime = itoa\<rparr> []
       (sample_request ''ann'') \<lparr>cState = 0, cResp = fresh_response\<rparr> = (Value (), c') \<and>
     cState c' = 1 \<and> answer_status (cResp c') = 500"
proof -
  let ?h = "\<lparr>hSvc = failing_api\<lparr>aUpload := (\<lambda>_ _ _ n. (Panic ''boom'', n))\<rparr>, hObserveUpload = (\<lambda>_ _ n. n + 1),
          hNow = (\<lambda>_. 0), hFormatTime = itoa\<rparr> :: nat handlers"
  let ?l = "sample_libs\<lparr>findRoute := (\<lambda>_ _. Some ((''POST'', ''/api/v1/avatars''), (\<lambda>_. [])))\<rparr> :: nat router_libs"
  have path: "\<not> isTechnical (Path (sample_request ''ann''))"
    unfolding sample_request_def isTechnical_def by code_simp
  have "upload_request (sample_request ''ann'') = Some (''ann'', ''n'', ''abcd'')"
    unfolding upload_request_def by (simp add: runes_ann maxUploadBytes_def)
      (simp add: sample_request_def formFile_def FormFile1_def FormFile2_def read_form_def open_part_def
        maxUploadBytes_def ErrMissingFile_def isTooLarge_def)
  with upload_answered_and_counted [OF path, of ?l ?h "[]" "''/api/v1/avatars''" "\<lambda>_. []" sample_telemetry 0]
  show ?thesis by (auto simp: sample_telemetry_def)
qed

theorem health_faithful_witness:
  "answer_status (cResp (snd (healthHandler
     [\<lparr>checkName = ''db'', checkRun = (\<lambda>n. (Inl ErrAmqpClosed, n + 1))\<rparr>,
      \<lparr>checkName = ''s3'', checkRun = (\<lambda>n. (Inr (), n + 1))\<rparr>]
     (sample_request []) \<lparr>cState = 0 :: nat, cResp = fresh_response\<rparr>))) = 503"
proof -
  let ?cs = "[\<lparr>checkName = ''db'', checkRun = (\<lambda>n. (Inl ErrAmqpClosed, n + 1))\<rparr>,
      \<lparr>checkName = ''s3'', checkRun = (\<lambda>n. (Inr (), n + 1))\<rparr>] :: nat HealthCheck list"
  obtain rs w' where run: "check_results ?cs 0 = (rs, w')" and bad: "(''db'', Inl ErrAmqpClosed) \<in> set rs"
    by simp
  from health_faithful [of ?cs "\<lparr>cState = 0, cResp = fresh_response\<rparr>" rs w' "sample_request []"] run bad
  show ?thesis by fastforce
qed

end
