(* ===== verification/Config.thy ===== *)
theory Config
  imports Go_Runtime "HOL-Library.Multiset"
begin

section \<open>Settings of the binaries (internal/config)\<close>

text \<open>
  \<^verbatim>\<open>config.go\<close>: defaults, overridden by environment variables, overridden by flags. The
  two Go maps whose entries are visited in random order are lists that may come in any
  order; a pointer to a field is the function that sets it. What the code uses of the
  standard library is written out: \<^verbatim>\<open>strconv.ParseBool\<close>, \<^verbatim>\<open>strconv.Atoi\<close>, the base-0
  \<^verbatim>\<open>strconv.ParseInt\<close> of integer flags, and the parser of package \<^verbatim>\<open>flag\<close>, of whose error
  values only the messages' fixed parts are kept (a number both malformed and too long
  is a syntax error here). The usage text it prints is left out.
\<close>

subsection \<open>The settings\<close>

record Config =
  RunAddress :: string
  DatabaseDSN :: string
  S3Endpoint :: string
  S3AccessKey :: string
  S3SecretKey :: string
  S3Bucket :: string
  S3UseSSL :: bool
  RabbitURL :: string
  Prefetch :: int
  LogLevel :: string
  OTLPEndpoint :: string
  MetricsAddress :: string
  AutoMigrate :: bool
  MigrateOnly :: bool

definition default_config :: Config where
  "default_config = \<lparr>RunAddress = '':8080'', DatabaseDSN = [], S3Endpoint = [], S3AccessKey = [],
     S3SecretKey = [], S3Bucket = ''avatars'', S3UseSSL = False, RabbitURL = [], Prefetch = 8,
     LogLevel = ''info'', OTLPEndpoint = ''localhost:4317'', MetricsAddress = '':9091'',
     AutoMigrate = True, MigrateOnly = False\<rparr>"

subsection \<open>Numbers and booleans (strconv)\<close>

definition ErrSyntax :: go_error where "ErrSyntax = NewError ''invalid syntax''"
definition ErrRange :: go_error where "ErrRange = NewError ''value out of range''"

definition ParseBool :: "string \<Rightarrow> bool res" where
  "ParseBool s =
     (if s \<in> {''1'', ''t'', ''T'', ''true'', ''TRUE'', ''True''} then Inr True
      else if s \<in> {''0'', ''f'', ''F'', ''false'', ''FALSE'', ''False''} then Inr False
      else Inl ErrSyntax)"

definition digit_value :: "char \<Rightarrow> nat option" where
  "digit_value c = (let n = of_char c in
     if 48 \<le> n \<and> n \<le> 57 then Some (n - 48)
     else if 97 \<le> n \<and> n \<le> 122 then Some (n - 87)
     else if 65 \<le> n \<and> n \<le> 90 then Some (n - 55)
     else None)"

fun parse_digits :: "nat \<Rightarrow> nat \<Rightarrow> string \<Rightarrow> nat option" where
  "parse_digits base acc [] = Some acc"
| "parse_digits base acc (c # cs) = (case digit_value c of
     None \<Rightarrow> None
   | Some d \<Rightarrow> if d < base then parse_digits base (acc * base + d) cs else None)"

text \<open>An underscore stands between two digits, or between the base prefix and a digit.\<close>

fun underscores_ok :: "bool \<Rightarrow> string \<Rightarrow> bool" where
  "underscores_ok after_digit [] = True"
| "underscores_ok after_digit (c # cs) =
     (if c = CHR ''_'' then after_digit \<and> (case cs of [] \<Rightarrow> False | d # _ \<Rightarrow> d \<noteq> CHR ''_'') \<and>
        underscores_ok False cs
      else underscores_ok True cs)"

definition signed :: "bool \<Rightarrow> nat option \<Rightarrow> int res" where
  "signed neg n = (case n of
     None \<Rightarrow> Inl ErrSyntax
   | Some m \<Rightarrow>
       if neg then (if m \<le> 2 ^ 63 then Inr (- int m) else Inl ErrRange)
       else (if m < 2 ^ 63 then Inr (int m) else Inl ErrRange))"

definition parse_unsigned :: "string \<Rightarrow> nat option" where
  "parse_unsigned s = (if s = [] then None else parse_digits 10 0 s)"

definition parse_unsigned0 :: "string \<Rightarrow> nat option" where
  "parse_unsigned0 s = (case s of
     [] \<Rightarrow> None
   | z # rest \<Rightarrow>
       (let (base, body, prefix) =
          (if z \<noteq> CHR ''0'' then (10, s, False)
           else if 2 \<le> length rest \<and> hd rest \<in> set ''bB'' then (2, tl rest, True)
           else if 2 \<le> length rest \<and> hd rest \<in> set ''oO'' then (8, tl rest, True)
           else if 2 \<le> length rest \<and> hd rest \<in> set ''xX'' then (16, tl rest, True)
           else (8, rest, True)) in
        if underscores_ok prefix body then parse_digits base 0 (filter (\<lambda>c. c \<noteq> CHR ''_'') body)
        else None))"

definition with_sign :: "(string \<Rightarrow> nat option) \<Rightarrow> string \<Rightarrow> int res" where
  "with_sign parse s = (case s of
     [] \<Rightarrow> Inl ErrSyntax
   | c # rest \<Rightarrow> if c = CHR ''-'' then signed True (parse rest)
       else if c = CHR ''+'' then signed False (parse rest) else signed False (parse s))"

definition Atoi :: "string \<Rightarrow> int res" where
  "Atoi = with_sign parse_unsigned"

definition ParseInt0 :: "string \<Rightarrow> int res" where
  "ParseInt0 = with_sign parse_unsigned0"

subsection \<open>The environment\<close>

definition stringVars :: "(string \<times> (string \<Rightarrow> Config \<Rightarrow> Config)) list" where
  "stringVars =
     [(''RUN_ADDRESS'', \<lambda>v c. c\<lparr>RunAddress := v\<rparr>), (''DATABASE_DSN'', \<lambda>v c. c\<lparr>DatabaseDSN := v\<rparr>),
      (''S3_ENDPOINT'', \<lambda>v c. c\<lparr>S3Endpoint := v\<rparr>), (''S3_ACCESS_KEY'', \<lambda>v c. c\<lparr>S3AccessKey := v\<rparr>),
      (''S3_SECRET_KEY'', \<lambda>v c. c\<lparr>S3SecretKey := v\<rparr>), (''S3_BUCKET'', \<lambda>v c. c\<lparr>S3Bucket := v\<rparr>),
      (''RABBITMQ_URL'', \<lambda>v c. c\<lparr>RabbitURL := v\<rparr>), (''LOG_LEVEL'', \<lambda>v c. c\<lparr>LogLevel := v\<rparr>),
      (''OTEL_EXPORTER_OTLP_ENDPOINT'', \<lambda>v c. c\<lparr>OTLPEndpoint := v\<rparr>),
      (''METRICS_ADDRESS'', \<lambda>v c. c\<lparr>MetricsAddress := v\<rparr>)]"

definition boolVars :: "(string \<times> (bool \<Rightarrow> Config \<Rightarrow> Config)) list" where
  "boolVars =
     [(''S3_USE_SSL'', \<lambda>v c. c\<lparr>S3UseSSL := v\<rparr>), (''DATABASE_AUTO_MIGRATE'', \<lambda>v c. c\<lparr>AutoMigrate := v\<rparr>),
      (''MIGRATE_ONLY'', \<lambda>v c. c\<lparr>MigrateOnly := v\<rparr>)]"

type_synonym environment = "string \<rightharpoonup> string"

fun env_strings :: "environment \<Rightarrow> (string \<times> (string \<Rightarrow> Config \<Rightarrow> Config)) list \<Rightarrow> Config \<Rightarrow> Config" where
  "env_strings lookupEnv [] cfg = cfg"
| "env_strings lookupEnv ((name, dst) # vars) cfg =
     env_strings lookupEnv vars (case lookupEnv name of Some v \<Rightarrow> dst v cfg | None \<Rightarrow> cfg)"

fun env_bools :: "environment \<Rightarrow> (string \<times> (bool \<Rightarrow> Config \<Rightarrow> Config)) list \<Rightarrow> Config \<Rightarrow> Config res" where
  "env_bools lookupEnv [] cfg = Inr cfg"
| "env_bools lookupEnv ((name, dst) # vars) cfg = (case lookupEnv name of
     None \<Rightarrow> env_bools lookupEnv vars cfg
   | Some v \<Rightarrow>
       (case ParseBool v of
          Inl err \<Rightarrow> Inl (Wrapf (''parse '' @ name) err)
        | Inr b \<Rightarrow> env_bools lookupEnv vars (dst b cfg)))"

definition env_prefetch :: "environment \<Rightarrow> Config \<Rightarrow> Config res" where
  "env_prefetch lookupEnv cfg = (case lookupEnv ''WORKER_PREFETCH'' of
     None \<Rightarrow> Inr cfg
   | Some v \<Rightarrow>
       (case Atoi v of
          Inl err \<Rightarrow> Inl (Wrapf ''parse WORKER_PREFETCH'' err)
        | Inr n \<Rightarrow> Inr (cfg\<lparr>Prefetch := n\<rparr>)))"

subsection \<open>The command line (package flag)\<close>

datatype flag_var =
    StringVar "string \<Rightarrow> Config \<Rightarrow> Config"
  | BoolVar "bool \<Rightarrow> Config \<Rightarrow> Config"
  | IntVar "int \<Rightarrow> Config \<Rightarrow> Config"

definition flags :: "(string \<times> flag_var) list" where
  "flags =
     [(''a'', StringVar (\<lambda>v c. c\<lparr>RunAddress := v\<rparr>)), (''d'', StringVar (\<lambda>v c. c\<lparr>DatabaseDSN := v\<rparr>)),
      (''s3-endpoint'', StringVar (\<lambda>v c. c\<lparr>S3Endpoint := v\<rparr>)),
      (''s3-access-key'', StringVar (\<lambda>v c. c\<lparr>S3AccessKey := v\<rparr>)),
      (''s3-secret-key'', StringVar (\<lambda>v c. c\<lparr>S3SecretKey := v\<rparr>)),
      (''s3-bucket'', StringVar (\<lambda>v c. c\<lparr>S3Bucket := v\<rparr>)), (''s3-ssl'', BoolVar (\<lambda>v c. c\<lparr>S3UseSSL := v\<rparr>)),
      (''rabbit-url'', StringVar (\<lambda>v c. c\<lparr>RabbitURL := v\<rparr>)), (''prefetch'', IntVar (\<lambda>v c. c\<lparr>Prefetch := v\<rparr>)),
      (''log-level'', StringVar (\<lambda>v c. c\<lparr>LogLevel := v\<rparr>)),
      (''otlp-endpoint'', StringVar (\<lambda>v c. c\<lparr>OTLPEndpoint := v\<rparr>)),
      (''metrics-address'', StringVar (\<lambda>v c. c\<lparr>MetricsAddress := v\<rparr>)),
      (''auto-migrate'', BoolVar (\<lambda>v c. c\<lparr>AutoMigrate := v\<rparr>)),
      (''migrate-only'', BoolVar (\<lambda>v c. c\<lparr>MigrateOnly := v\<rparr>))]"

definition ErrHelp :: go_error where
  "ErrHelp = NewError ''flag: help requested''"

fun set_flag :: "flag_var \<Rightarrow> string \<Rightarrow> Config \<Rightarrow> Config res" where
  "set_flag (StringVar dst) v cfg = Inr (dst v cfg)"
| "set_flag (BoolVar dst) v cfg = (case ParseBool v of
     Inl _ \<Rightarrow> Inl (NewError ''invalid boolean value'') | Inr b \<Rightarrow> Inr (dst b cfg))"
| "set_flag (IntVar dst) v cfg = (case ParseInt0 v of
     Inl _ \<Rightarrow> Inl (NewError ''invalid value'') | Inr n \<Rightarrow> Inr (dst n cfg))"

fun is_bool_flag :: "flag_var \<Rightarrow> bool" where
  "is_bool_flag (BoolVar _) = True"
| "is_bool_flag _ = False"

text \<open>
  One argument: the end of the flags (with the arguments left), or a flag with its value if
  the argument has one after an equals sign.
\<close>

datatype token = EndOfFlags | BadSyntax | Flag string "string option"

definition token_of :: "string \<Rightarrow> token" where
  "token_of s =
     (if length s < 2 \<or> hd s \<noteq> CHR ''-'' then EndOfFlags
      else if s = ''--'' then EndOfFlags
      else (let name = (if s ! 1 = CHR ''-'' then drop 2 s else drop 1 s) in
        if name = [] \<or> hd name = CHR ''-'' \<or> hd name = CHR ''='' then BadSyntax
        else if CHR ''='' \<in> set name
          then Flag (takeWhile (\<lambda>c. c \<noteq> CHR ''='') name) (Some (tl (dropWhile (\<lambda>c. c \<noteq> CHR ''='') name)))
          else Flag name None))"

fun parse_flags :: "(string \<times> flag_var) list \<Rightarrow> string list \<Rightarrow> Config \<Rightarrow> Config res" where
  "parse_flags table [] cfg = Inr cfg"
| "parse_flags table (s # rest) cfg = (case token_of s of
     EndOfFlags \<Rightarrow> Inr cfg
   | BadSyntax \<Rightarrow> Inl (NewError ''bad flag syntax'')
   | Flag name value \<Rightarrow>
       (case map_of table name of
          None \<Rightarrow> Inl (if name = ''help'' \<or> name = ''h'' then ErrHelp
            else NewError ''flag provided but not defined'')
        | Some dst \<Rightarrow>
            (case (value, is_bool_flag dst, rest) of
               (Some v, _, _) \<Rightarrow>
                 (case set_flag dst v cfg of Inl e \<Rightarrow> Inl e | Inr cfg1 \<Rightarrow> parse_flags table rest cfg1)
             | (None, True, _) \<Rightarrow>
                 (case set_flag dst ''true'' cfg of Inl e \<Rightarrow> Inl e | Inr cfg1 \<Rightarrow> parse_flags table rest cfg1)
             | (None, False, []) \<Rightarrow> Inl (NewError ''flag needs an argument'')
             | (None, False, v # rest1) \<Rightarrow>
                 (case set_flag dst v cfg of Inl e \<Rightarrow> Inl e | Inr cfg1 \<Rightarrow> parse_flags table rest1 cfg1))))"

text \<open>The two lists are the orders in which \<^verbatim>\<open>range\<close> visits the two maps.\<close>

definition loadFrom :: "(string \<times> (string \<Rightarrow> Config \<Rightarrow> Config)) list \<Rightarrow> (string \<times> (bool \<Rightarrow> Config \<Rightarrow> Config)) list \<Rightarrow>
    string list \<Rightarrow> environment \<Rightarrow> Config res" where
  "loadFrom svars bvars args lookupEnv =
     (let cfg = env_strings lookupEnv svars default_config in
      (case env_bools lookupEnv bvars cfg of
         Inl err \<Rightarrow> Inl err
       | Inr cfg1 \<Rightarrow>
           (case env_prefetch lookupEnv cfg1 of
              Inl err \<Rightarrow> Inl err
            | Inr cfg2 \<Rightarrow>
                (case parse_flags flags args cfg2 of
                   Inl err \<Rightarrow> Inl (Wrapf ''parse flags'' err)
                 | Inr cfg3 \<Rightarrow> Inr cfg3))))"

definition Load :: "string list \<Rightarrow> environment \<Rightarrow> Config res" where
  "Load = loadFrom stringVars boolVars"

subsection \<open>The order of the maps does not matter\<close>

definition commuting :: "(string \<times> ('v \<Rightarrow> Config \<Rightarrow> Config)) list \<Rightarrow> bool" where
  "commuting vars \<longleftrightarrow> (\<forall>x \<in> set vars. \<forall>y \<in> set vars. (fst x = fst y \<longrightarrow> snd x = snd y) \<and>
     (fst x \<noteq> fst y \<longrightarrow> (\<forall>u v c. snd x u (snd y v c) = snd y v (snd x u c))))"

lemma commutingD:
  assumes "commuting vars" and "x \<in> set vars" and "y \<in> set vars"
  shows "fst x = fst y \<Longrightarrow> snd x = snd y" "fst x \<noteq> fst y \<Longrightarrow> snd x u (snd y v c) = snd y v (snd x u c)"
  using assms unfolding commuting_def by blast+

lemma commuting_vars: "commuting stringVars" "commuting boolVars"
  by (simp_all add: commuting_def stringVars_def boolVars_def)

text \<open>One step over an environment variable, with the values its text stands for.\<close>

definition assign :: "(string \<Rightarrow> 'v option) \<Rightarrow> string \<times> ('v \<Rightarrow> Config \<Rightarrow> Config) \<Rightarrow> Config \<Rightarrow> Config" where
  "assign val nf cfg = (case val (fst nf) of Some v \<Rightarrow> snd nf v cfg | None \<Rightarrow> cfg)"

lemma fold_assign_perm:
  assumes "commuting vars" and "mset vars' = mset vars"
  shows "fold (assign val) vars' = fold (assign val) vars"
proof (rule fold_multiset_equiv [OF _ assms(2)])
  have same: "set vars' = set vars" by (rule mset_eq_setD [OF assms(2)])
  fix x y
  assume "x \<in> set vars'" "y \<in> set vars'"
  then have xy: "x \<in> set vars" "y \<in> set vars" by (simp_all add: same)
  show "assign val x \<circ> assign val y = assign val y \<circ> assign val x"
  proof (cases "fst x = fst y")
    case True
    with commutingD(1) [OF assms(1) xy] have "x = y" by (simp add: prod_eq_iff)
    then show ?thesis by simp
  next
    case False
    show ?thesis
      by (cases "val (fst x)"; cases "val (fst y)")
         (simp_all add: assign_def fun_eq_iff commutingD(2) [OF assms(1) xy False])
  qed
qed

lemma bind_res_cong:
  assumes "\<And>a. r = Inr a \<longleftrightarrow> r' = Inr a"
  shows "(case r of Inl e \<Rightarrow> Inl e | Inr a \<Rightarrow> k a) = Inr x \<longleftrightarrow> (case r' of Inl e \<Rightarrow> Inl e | Inr a \<Rightarrow> k a) = Inr x"
proof (cases r)
  case (Inl e)
  with assms have "\<not> isl r' \<Longrightarrow> False" by (metis Inl_Inr_False sum.collapse(2))
  with Inl show ?thesis by (cases r') auto
next
  case (Inr a)
  with assms have "r' = Inr a" by blast
  with Inr show ?thesis by simp
qed

lemma env_strings_fold: "env_strings e vars cfg = fold (assign e) vars cfg"
  by (induction vars arbitrary: cfg) (auto simp: assign_def split: option.splits)

definition env_bool :: "environment \<Rightarrow> string \<Rightarrow> bool option" where
  "env_bool e n = (case e n of None \<Rightarrow> None | Some v \<Rightarrow> (case ParseBool v of Inl _ \<Rightarrow> None | Inr b \<Rightarrow> Some b))"

definition bool_ok :: "environment \<Rightarrow> string \<Rightarrow> bool" where
  "bool_ok e n \<longleftrightarrow> (case e n of None \<Rightarrow> True | Some v \<Rightarrow> (case ParseBool v of Inl _ \<Rightarrow> False | Inr _ \<Rightarrow> True))"

lemma env_bools_fold:
  "env_bools e vars cfg = Inr cfg' \<longleftrightarrow>
   list_all (bool_ok e) (map fst vars) \<and> cfg' = fold (assign (env_bool e)) vars cfg"
proof (induction vars arbitrary: cfg)
  case (Cons nf vars)
  then show ?case
    by (cases nf) (auto simp: assign_def bool_ok_def env_bool_def split: option.splits sum.splits)
qed auto

text \<open>
  loading the settings is deterministic although Go visits its maps in random order:
  whatever the orders, the same arguments and environment give the same settings, or an
  error in every order (which invalid variable it names may differ).
\<close>

theorem config_order_independent:
  assumes "mset svars = mset stringVars" and "mset bvars = mset boolVars"
  shows "loadFrom svars bvars args e = Inr cfg \<longleftrightarrow> Load args e = Inr cfg"
proof -
  have s: "env_strings e svars c = env_strings e stringVars c" for c
    using fold_assign_perm [OF commuting_vars(1) assms(1)] by (simp add: env_strings_fold)
  have "set (map fst bvars) = set (map fst boolVars)"
    using mset_eq_setD [OF assms(2)] by simp
  then have "list_all (bool_ok e) (map fst bvars) \<longleftrightarrow> list_all (bool_ok e) (map fst boolVars)"
    by (simp only: list_all_iff)
  then have b: "env_bools e bvars c = Inr c' \<longleftrightarrow> env_bools e boolVars c = Inr c'" for c c'
    using fold_assign_perm [OF commuting_vars(2) assms(2)] by (simp add: env_bools_fold)
  show ?thesis
    unfolding loadFrom_def Load_def Let_def s by (rule bind_res_cong [OF b])
qed

subsection \<open>Precedence\<close>

text \<open>An assignment on the command line, in each of the forms package flag accepts.\<close>

record flag_arg =
  faName :: string
  faValue :: string
  faDashes :: bool
  faJoined :: bool

definition render :: "flag_arg \<Rightarrow> string list" where
  "render a = (let s = (if faDashes a then ''--'' else ''-'') @ faName a in
     if faJoined a then [s @ ''='' @ faValue a] else [s, faValue a])"

definition valid_value :: "flag_var \<Rightarrow> string \<Rightarrow> bool" where
  "valid_value dst v = (case dst of StringVar _ \<Rightarrow> True
     | BoolVar _ \<Rightarrow> (case ParseBool v of Inl _ \<Rightarrow> False | Inr _ \<Rightarrow> True)
     | IntVar _ \<Rightarrow> (case ParseInt0 v of Inl _ \<Rightarrow> False | Inr _ \<Rightarrow> True))"

definition arg_ok :: "flag_arg \<Rightarrow> bool" where
  "arg_ok a \<longleftrightarrow> (case map_of flags (faName a) of None \<Rightarrow> False
     | Some dst \<Rightarrow> valid_value dst (faValue a) \<and> (is_bool_flag dst \<longrightarrow> faJoined a))"

definition apply_arg :: "flag_arg \<Rightarrow> Config \<Rightarrow> Config" where
  "apply_arg a cfg = (case map_of flags (faName a) of None \<Rightarrow> cfg
     | Some dst \<Rightarrow> (case set_flag dst (faValue a) cfg of Inl _ \<Rightarrow> cfg | Inr cfg1 \<Rightarrow> cfg1))"

lemma flag_names:
  "map_of flags n = Some dst \<Longrightarrow> n \<noteq> [] \<and> hd n \<noteq> CHR ''-'' \<and> CHR ''='' \<notin> set n"
  by (auto simp: flags_def split: if_splits)

lemma token_of_flag:
  assumes "map_of flags n = Some dst"
  shows "token_of ((if dashes then ''--'' else ''-'') @ n) = Flag n None"
    "token_of ((if dashes then ''--'' else ''-'') @ n @ ''='' @ v) = Flag n (Some v)"
proof -
  obtain c cs where n: "n = c # cs" "c \<noteq> CHR ''-''" "c \<noteq> CHR ''=''" "CHR ''='' \<notin> set cs"
    using flag_names [OF assms] by (cases n) auto
  show "token_of ((if dashes then ''--'' else ''-'') @ n) = Flag n None"
    using n by (auto simp: token_of_def)
  have "takeWhile (\<lambda>x. x \<noteq> CHR ''='') (cs @ CHR ''='' # v) = cs"
    "dropWhile (\<lambda>x. x \<noteq> CHR ''='') (cs @ CHR ''='' # v) = CHR ''='' # v"
    using n(4) by (subst takeWhile_append2 dropWhile_append2; auto)+
  then show "token_of ((if dashes then ''--'' else ''-'') @ n @ ''='' @ v) = Flag n (Some v)"
    using n by (auto simp: token_of_def)
qed

lemma set_flag_valid: "valid_value dst v \<Longrightarrow> \<exists>cfg1. set_flag dst v cfg = Inr cfg1"
  by (cases dst) (auto simp: valid_value_def split: sum.splits)

lemma parse_flags_step:
  assumes "arg_ok a"
  shows "parse_flags flags (render a @ rest) cfg = parse_flags flags rest (apply_arg a cfg)"
proof -
  obtain dst where dst: "map_of flags (faName a) = Some dst" "valid_value dst (faValue a)" "is_bool_flag dst \<Longrightarrow> faJoined a"
    using assms by (auto simp: arg_ok_def split: option.splits)
  obtain cfg1 where "set_flag dst (faValue a) cfg = Inr cfg1"
    using set_flag_valid [OF dst(2)] by blast
  with dst token_of_flag [OF dst(1), of "faDashes a"] show ?thesis
    by (cases "is_bool_flag dst") (simp_all add: render_def Let_def apply_arg_def)
qed

lemma parse_flags_render:
  "list_all arg_ok as \<Longrightarrow> parse_flags flags (concat (map render as)) cfg = Inr (fold apply_arg as cfg)"
  by (induction as arbitrary: cfg) (simp_all add: parse_flags_step)

text \<open>The settings that are strings: variable, flag and field of each.\<close>

definition string_settings :: "(string \<times> string \<times> (Config \<Rightarrow> string)) list" where
  "string_settings =
     [(''RUN_ADDRESS'', ''a'', RunAddress), (''DATABASE_DSN'', ''d'', DatabaseDSN),
      (''S3_ENDPOINT'', ''s3-endpoint'', S3Endpoint), (''S3_ACCESS_KEY'', ''s3-access-key'', S3AccessKey),
      (''S3_SECRET_KEY'', ''s3-secret-key'', S3SecretKey), (''S3_BUCKET'', ''s3-bucket'', S3Bucket),
      (''RABBITMQ_URL'', ''rabbit-url'', RabbitURL), (''LOG_LEVEL'', ''log-level'', LogLevel),
      (''OTEL_EXPORTER_OTLP_ENDPOINT'', ''otlp-endpoint'', OTLPEndpoint),
      (''METRICS_ADDRESS'', ''metrics-address'', MetricsAddress)]"

definition bool_settings :: "(string \<times> string \<times> (Config \<Rightarrow> bool)) list" where
  "bool_settings = [(''S3_USE_SSL'', ''s3-ssl'', S3UseSSL),
     (''DATABASE_AUTO_MIGRATE'', ''auto-migrate'', AutoMigrate), (''MIGRATE_ONLY'', ''migrate-only'', MigrateOnly)]"

definition last_value :: "string \<Rightarrow> flag_arg list \<Rightarrow> string option" where
  "last_value flag as = map_of (rev (map (\<lambda>a. (faName a, faValue a)) as)) flag"

lemma last_value_simps [simp]:
  "last_value flag [] = None"
  "last_value flag (as @ [a]) = (if faName a = flag then Some (faValue a) else last_value flag as)"
  by (simp_all add: last_value_def)

text \<open>A field that one flag and one variable set, and nothing else.\<close>

lemma fold_flag_field:
  assumes "\<And>a c. arg_ok a \<Longrightarrow> get (apply_arg a c) = (if faName a = flag then val (faValue a) else get c)"
    and "list_all arg_ok as"
  shows "get (fold apply_arg as c) = (case last_value flag as of Some v \<Rightarrow> val v | None \<Rightarrow> get c)"
  using assms(2) by (induction as rule: rev_induct) (simp_all add: assms(1))

lemma fold_env_field:
  assumes "\<And>x v c. x \<in> set vars \<Longrightarrow> get (snd x v c) = (if fst x = name then v else get c)"
    and "distinct (map fst vars)"
  shows "get (fold (assign val) vars c) = (if name \<in> set (map fst vars)
    then (case val name of Some v \<Rightarrow> v | None \<Rightarrow> get c) else get c)"
  using assms
proof (induction vars arbitrary: c)
  case (Cons x vars)
  have head: "get (assign val x c) =
      (if fst x = name then (case val name of Some v \<Rightarrow> v | None \<Rightarrow> get c) else get c)"
    using Cons.prems(1) [of x] by (auto simp: assign_def split: option.splits)
  have "get (fold (assign val) vars c') = (if name \<in> set (map fst vars)
      then (case val name of Some v \<Rightarrow> v | None \<Rightarrow> get c') else get c')" for c'
    using Cons.prems by (intro Cons.IH) auto
  with head Cons.prems(2) show ?case by (auto split: option.splits)
qed simp

lemma fold_env_unset:
  "(\<And>x v c. x \<in> set vars \<Longrightarrow> get (snd x v c) = get c) \<Longrightarrow> get (fold (assign val) vars c) = get c"
  by (induction vars arbitrary: c) (simp_all add: assign_def split: option.split)

lemma apply_arg_field:
  assumes "arg_ok a"
  shows "list_all (\<lambda>(_, flag, get). get (apply_arg a c) = (if faName a = flag then faValue a else get c)) string_settings"
    "list_all (\<lambda>(_, flag, get). get (apply_arg a c) =
       (if faName a = flag then (case ParseBool (faValue a) of Inr b \<Rightarrow> b | Inl _ \<Rightarrow> False) else get c)) bool_settings"
    "Prefetch (apply_arg a c) = (if faName a = ''prefetch''
       then (case ParseInt0 (faValue a) of Inr n \<Rightarrow> n | Inl _ \<Rightarrow> 0) else Prefetch c)"
  using assms
  by (auto simp: arg_ok_def apply_arg_def flags_def string_settings_def bool_settings_def valid_value_def
      split: if_splits option.splits sum.splits)

lemma env_string_field:
  assumes "(var, flag, get) \<in> set string_settings"
  shows "get (fold (assign e) stringVars c) = (case e var of Some v \<Rightarrow> v | None \<Rightarrow> get c)"
    "get (fold (assign val) boolVars c) = get c" "get (c\<lparr>Prefetch := n\<rparr>) = get c"
proof -
  have "get (snd x v c) = (if fst x = var then v else get c)" if "x \<in> set stringVars" for x v c
    using assms that unfolding string_settings_def stringVars_def by auto
  moreover have "distinct (map fst stringVars)" by (simp add: stringVars_def)
  moreover have "var \<in> set (map fst stringVars)"
    using assms unfolding string_settings_def stringVars_def by auto
  ultimately show "get (fold (assign e) stringVars c) = (case e var of Some v \<Rightarrow> v | None \<Rightarrow> get c)"
    by (subst fold_env_field [where name = var]) simp_all
  have "get (snd x v c) = get c" if "x \<in> set boolVars" for x v c
    using assms that unfolding string_settings_def boolVars_def by auto
  then show "get (fold (assign val) boolVars c) = get c" by (rule fold_env_unset)
  show "get (c\<lparr>Prefetch := n\<rparr>) = get c" using assms unfolding string_settings_def by auto
qed

lemma env_bool_field:
  assumes "(var, flag, get) \<in> set bool_settings"
  shows "get (fold (assign val) boolVars c) = (case val var of Some v \<Rightarrow> v | None \<Rightarrow> get c)"
    "get (fold (assign e) stringVars c) = get c" "get (c\<lparr>Prefetch := n\<rparr>) = get c"
proof -
  have "get (snd x v c) = (if fst x = var then v else get c)" if "x \<in> set boolVars" for x v c
    using assms that unfolding bool_settings_def boolVars_def by auto
  moreover have "distinct (map fst boolVars)" by (simp add: boolVars_def)
  moreover have "var \<in> set (map fst boolVars)"
    using assms unfolding bool_settings_def boolVars_def by auto
  ultimately show "get (fold (assign val) boolVars c) = (case val var of Some v \<Rightarrow> v | None \<Rightarrow> get c)"
    by (subst fold_env_field [where name = var]) simp_all
  have "get (snd x v c) = get c" if "x \<in> set stringVars" for x v c
    using assms that unfolding bool_settings_def stringVars_def by auto
  then show "get (fold (assign e) stringVars c) = get c" by (rule fold_env_unset)
  show "get (c\<lparr>Prefetch := n\<rparr>) = get c" using assms unfolding bool_settings_def by auto
qed

lemma env_prefetch_field:
  "Prefetch (fold (assign val) boolVars c) = Prefetch c" "Prefetch (fold (assign e) stringVars c) = Prefetch c"
  by (rule fold_env_unset, force simp: boolVars_def stringVars_def)+

definition text_bool :: "string \<Rightarrow> bool" where
  "text_bool v = (case ParseBool v of Inr b \<Rightarrow> b | Inl _ \<Rightarrow> False)"

definition text_int :: "(string \<Rightarrow> int res) \<Rightarrow> string \<Rightarrow> int" where
  "text_int parse v = (case parse v of Inr n \<Rightarrow> n | Inl _ \<Rightarrow> 0)"

text \<open>
  C32: flags win over the environment, and the environment over the defaults, for every
  setting. On a command line of assignments, in any of the forms package flag accepts and
  with values that parse, Load succeeds, and each setting has the value of its last flag if
  it has one, else that of its variable if set, else its default; the last of several
  assignments of a flag counts.
\<close>

theorem config_precedence:
  assumes "list_all arg_ok as" and "list_all (bool_ok e) (map fst boolVars)"
    and "case e ''WORKER_PREFETCH'' of None \<Rightarrow> True | Some v \<Rightarrow> Atoi v = Inr (text_int Atoi v)"
  shows "\<exists>cfg. Load (concat (map render as)) e = Inr cfg \<and>
    (\<forall>(var, flag, get) \<in> set string_settings. get cfg = (case last_value flag as of Some v \<Rightarrow> v
       | None \<Rightarrow> (case e var of Some v \<Rightarrow> v | None \<Rightarrow> get default_config))) \<and>
    (\<forall>(var, flag, get) \<in> set bool_settings. get cfg = (case last_value flag as of Some v \<Rightarrow> text_bool v
       | None \<Rightarrow> (case e var of Some v \<Rightarrow> text_bool v | None \<Rightarrow> get default_config))) \<and>
    Prefetch cfg = (case last_value ''prefetch'' as of Some v \<Rightarrow> text_int ParseInt0 v
       | None \<Rightarrow> (case e ''WORKER_PREFETCH'' of Some v \<Rightarrow> text_int Atoi v | None \<Rightarrow> Prefetch default_config))"
proof -
  define c1 where "c1 = fold (assign (env_bool e)) boolVars (fold (assign e) stringVars default_config)"
  define c2 where "c2 = (case e ''WORKER_PREFETCH'' of Some v \<Rightarrow> c1\<lparr>Prefetch := text_int Atoi v\<rparr> | None \<Rightarrow> c1)"
  define cfg where "cfg = fold apply_arg as c2"
  have "env_bools e boolVars (env_strings e stringVars default_config) = Inr c1"
    using assms(2) by (simp only: env_bools_fold env_strings_fold c1_def)
  moreover have "env_prefetch e c1 = Inr c2"
    using assms(3) by (simp add: env_prefetch_def c2_def split: option.splits)
  ultimately have load: "Load (concat (map render as)) e = Inr cfg"
    by (simp add: Load_def loadFrom_def parse_flags_render [OF assms(1)] cfg_def)
  have strings: "get cfg = (case last_value flag as of Some v \<Rightarrow> v
       | None \<Rightarrow> (case e var of Some v \<Rightarrow> v | None \<Rightarrow> get default_config))"
    if s: "(var, flag, get) \<in> set string_settings" for var flag get
  proof -
    have "get (apply_arg a c) = (if faName a = flag then faValue a else get c)" if "arg_ok a" for a c
      using apply_arg_field(1) [OF that, of c] s by (auto simp: list_all_iff)
    from fold_flag_field [where val = "\<lambda>v. v", OF this assms(1)]
    have "get cfg = (case last_value flag as of Some v \<Rightarrow> v | None \<Rightarrow> get c2)" by (simp add: cfg_def)
    moreover have "get c2 = (case e var of Some v \<Rightarrow> v | None \<Rightarrow> get default_config)"
      by (simp add: c2_def c1_def env_string_field [OF s] split: option.split)
    ultimately show ?thesis by (simp cong: option.case_cong)
  qed
  have env_bool: "(case env_bool e var of Some b \<Rightarrow> b | None \<Rightarrow> d) =
      (case e var of Some v \<Rightarrow> text_bool v | None \<Rightarrow> d)" if "var \<in> set (map fst boolVars)" for var d
    using assms(2) that by (auto simp: list_all_iff bool_ok_def env_bool_def text_bool_def split: option.splits sum.splits)
  have bools: "get cfg = (case last_value flag as of Some v \<Rightarrow> text_bool v
       | None \<Rightarrow> (case e var of Some v \<Rightarrow> text_bool v | None \<Rightarrow> get default_config))"
    if b: "(var, flag, get) \<in> set bool_settings" for var flag get
  proof -
    have "get (apply_arg a c) = (if faName a = flag then text_bool (faValue a) else get c)" if "arg_ok a" for a c
      using apply_arg_field(2) [OF that, of c] b by (auto simp: list_all_iff text_bool_def)
    from fold_flag_field [where val = text_bool, OF this assms(1)]
    have "get cfg = (case last_value flag as of Some v \<Rightarrow> text_bool v | None \<Rightarrow> get c2)" by (simp add: cfg_def)
    moreover have "var \<in> set (map fst boolVars)" using b unfolding bool_settings_def boolVars_def by auto
    then have "get c2 = (case e var of Some v \<Rightarrow> text_bool v | None \<Rightarrow> get default_config)"
      using env_bool [of var "get default_config"] by (auto simp: c2_def c1_def env_bool_field [OF b] split: option.splits)
    ultimately show ?thesis by (simp cong: option.case_cong)
  qed
  have "Prefetch (apply_arg a c) = (if faName a = ''prefetch'' then text_int ParseInt0 (faValue a) else Prefetch c)"
    if "arg_ok a" for a c using apply_arg_field(3) [OF that] by (simp add: text_int_def)
  from fold_flag_field [where val = "text_int ParseInt0", OF this assms(1)]
  have "Prefetch cfg = (case last_value ''prefetch'' as of Some v \<Rightarrow> text_int ParseInt0 v
       | None \<Rightarrow> (case e ''WORKER_PREFETCH'' of Some v \<Rightarrow> text_int Atoi v | None \<Rightarrow> Prefetch default_config))"
    by (simp add: cfg_def c2_def c1_def env_prefetch_field split: option.splits)
  with load strings bools show ?thesis by (intro exI [of _ cfg]) blast
qed

subsection \<open>A concrete command line\<close>

theorem config_order_independent_witness:
  "loadFrom (rev stringVars) (rev boolVars) [''-a'', '':9'', ''--s3-ssl''] (\<lambda>_. None) =
     Inr (default_config\<lparr>RunAddress := '':9'', S3UseSSL := True\<rparr>)"
proof -
  have "Load [''-a'', '':9'', ''--s3-ssl''] (\<lambda>_. None) = Inr (default_config\<lparr>RunAddress := '':9'', S3UseSSL := True\<rparr>)"
    by (simp add: Load_def loadFrom_def stringVars_def boolVars_def env_prefetch_def flags_def token_of_def
        ParseBool_def Let_def)
  with config_order_independent [of "rev stringVars" "rev boolVars"] show ?thesis by simp
qed

theorem config_precedence_witness:
  "\<exists>cfg. Load [''-a=:9'', ''--a'', '':7''] [''RUN_ADDRESS'' \<mapsto> '':1'', ''S3_BUCKET'' \<mapsto> ''pics''] = Inr cfg \<and>
     RunAddress cfg = '':7'' \<and> S3Bucket cfg = ''pics'' \<and> LogLevel cfg = ''info''"
proof -
  let ?as = "[\<lparr>faName = ''a'', faValue = '':9'', faDashes = False, faJoined = True\<rparr>,
    \<lparr>faName = ''a'', faValue = '':7'', faDashes = True, faJoined = False\<rparr>]"
  let ?e = "[''RUN_ADDRESS'' \<mapsto> '':1'', ''S3_BUCKET'' \<mapsto> ''pics'']"
  have ok: "list_all arg_ok ?as" "list_all (bool_ok ?e) (map fst boolVars)"
    by (simp_all add: arg_ok_def flags_def valid_value_def bool_ok_def boolVars_def)
  have args: "concat (map render ?as) = [''-a=:9'', ''--a'', '':7'']" by (simp add: render_def)
  have "?e ''WORKER_PREFETCH'' = None" by simp
  with config_precedence [OF ok] show ?thesis
    unfolding args by (auto simp: string_settings_def last_value_def default_config_def)
qed

end
