(* ===== verification/Startup.thy ===== *)
theory Startup
  imports Config S3_Store Consumer
begin

section \<open>The two binaries (cmd/server, cmd/worker) and their set-up packages\<close>

text \<open>
  \<^verbatim>\<open>main.go\<close> of server and worker, \<^verbatim>\<open>telemetry.go\<close>, \<^verbatim>\<open>logger.go\<close> and \<^verbatim>\<open>migrations.go\<close>. A run of a
  binary is modelled by the sequence of its library calls, each with the outcome the
  environment gives it, and by the deferred calls, which run in reverse order on every
  exit. The constructors of this repository that can fail on the settings alone
  (\<^verbatim>\<open>s3.New\<close>, \<^verbatim>\<open>broker.NewPublisher\<close>, \<^verbatim>\<open>broker.NewConsumer\<close>) are the ones of their theories.
  Log lines, build information and the tracer of the pool are left out; the groups of
  goroutines appear with the results of their members in the order they return.
\<close>

subsection \<open>Tracing\<close>

record ('w, 'e, 'r) otel_libs =
  SetTextMapPropagator :: "'w \<Rightarrow> 'w"
  NewExporter :: "string \<Rightarrow> ('w, 'e) io"
  MergeResource :: "string \<Rightarrow> ('w, 'r) io"
  SetTracerProvider :: "'e \<Rightarrow> 'r \<Rightarrow> 'w \<Rightarrow> 'w"
  ProviderShutdown :: "'e \<Rightarrow> 'r \<Rightarrow> ('w, unit) io"

definition Setup :: "('w, 'e, 'r) otel_libs \<Rightarrow> string \<Rightarrow> string \<Rightarrow> ('w, ('w, unit) io) io" where
  "Setup l serviceName otlpEndpoint w = (let w1 = SetTextMapPropagator l w in
     if otlpEndpoint = [] then (Inr (\<lambda>v. (Inr (), v)), w1)
     else (case NewExporter l otlpEndpoint w1 of
        (Inl err, w2) \<Rightarrow> (Inl (Wrapf ''create otlp exporter'' err), w2)
      | (Inr exp, w2) \<Rightarrow>
          (case MergeResource l serviceName w2 of
             (Inl err, w3) \<Rightarrow> (Inl (Wrapf ''build otel resource'' err), w3)
           | (Inr resource, w3) \<Rightarrow>
               (Inr (ProviderShutdown l exp resource), SetTracerProvider l exp resource w3))))"

text \<open>A span: the errors recorded on it, its status text, and whether it has ended.\<close>

record span =
  spanErrors :: "go_error list"
  spanStatus :: "string option"
  spanEnded :: bool

definition End_span :: "span \<Rightarrow> go_error option \<Rightarrow> go_error list \<Rightarrow> span" where
  "End_span s err expected = (let
     s1 = (case err of
       Some e \<Rightarrow> if \<not> list_ex (errors_is e) expected
         then s\<lparr>spanErrors := spanErrors s @ [e], spanStatus := Some (error_text e)\<rparr> else s
     | None \<Rightarrow> s) in
     s1\<lparr>spanEnded := True\<rparr>)"

subsection \<open>Logging\<close>

text \<open>
  \<^verbatim>\<open>slog.Level.UnmarshalText\<close>: a level name up to case, with an optional offset.
  \<^verbatim>\<open>strings.ToUpper\<close> is a parameter: it maps letters of every script.
\<close>

definition UnmarshalLevel :: "(string \<Rightarrow> string) \<Rightarrow> string \<Rightarrow> int res" where
  "UnmarshalLevel ToUpper s = (let
     name = takeWhile (\<lambda>c. c \<noteq> CHR ''+'' \<and> c \<noteq> CHR ''-'') s;
     suffix = dropWhile (\<lambda>c. c \<noteq> CHR ''+'' \<and> c \<noteq> CHR ''-'') s;
     level = map_of [(''DEBUG'', - 4), (''INFO'', 0), (''WARN'', 4), (''ERROR'', 8)] (ToUpper name) in
     (case (if suffix = [] then Inr 0 else Atoi suffix) of
        Inl err \<Rightarrow> Inl err
      | Inr offset \<Rightarrow> (case level of None \<Rightarrow> Inl (NewError ''unknown name'') | Some l \<Rightarrow> Inr (l + offset))))"

type_synonym attrs = "(string \<times> string) list"

record 'h slog_handler =
  slogHandle :: "(string \<times> string) option \<Rightarrow> attrs \<Rightarrow> 'h"
  slogWithAttrs :: "attrs \<Rightarrow> (string \<times> string) option \<Rightarrow> attrs \<Rightarrow> 'h"
  slogWithGroup :: "string \<Rightarrow> (string \<times> string) option \<Rightarrow> attrs \<Rightarrow> 'h"

text \<open>
  \<^verbatim>\<open>traceHandler\<close> over an inner handler: a record written while a span is active (the pair
  of its trace and span ids) carries both ids.
\<close>

definition trace_Handle :: "((string \<times> string) option \<Rightarrow> attrs \<Rightarrow> 'h) \<Rightarrow> (string \<times> string) option \<Rightarrow> attrs \<Rightarrow> 'h" where
  "trace_Handle inner sc rec = (case sc of
     Some (trace_id, span_id) \<Rightarrow> inner sc (rec @ [(''trace_id'', trace_id), (''span_id'', span_id)])
   | None \<Rightarrow> inner sc rec)"

definition trace_WithAttrs :: "'h slog_handler \<Rightarrow> attrs \<Rightarrow> (string \<times> string) option \<Rightarrow> attrs \<Rightarrow> 'h" where
  "trace_WithAttrs h as = trace_Handle (slogWithAttrs h as)"

definition trace_WithGroup :: "'h slog_handler \<Rightarrow> string \<Rightarrow> (string \<times> string) option \<Rightarrow> attrs \<Rightarrow> 'h" where
  "trace_WithGroup h name = trace_Handle (slogWithGroup h name)"

definition logger_New :: "(string \<Rightarrow> string) \<Rightarrow> (int \<Rightarrow> 'h slog_handler) \<Rightarrow> string \<Rightarrow>
    ((string \<times> string) option \<Rightarrow> attrs \<Rightarrow> 'h) res" where
  "logger_New ToUpper NewJSONHandler level = (case UnmarshalLevel ToUpper level of
     Inl err \<Rightarrow> Inl (Wrapf ''parse log level'' err)
   | Inr lvl \<Rightarrow> Inr (trace_Handle (slogHandle (NewJSONHandler lvl))))"

subsection \<open>Migrations\<close>

record ('w, 'db, 'src, 'drv, 'm) migrate_libs =
  sqlOpen :: "string \<Rightarrow> ('w, 'db) io"
  dbClose :: "'db \<Rightarrow> 'w \<Rightarrow> 'w"
  iofsNew :: "('w, 'src) io"
  WithInstance :: "'db \<Rightarrow> ('w, 'drv) io"
  NewWithInstance :: "'src \<Rightarrow> 'drv \<Rightarrow> ('w, 'm) io"
  Up :: "'m \<Rightarrow> ('w, unit) io"

definition migrations_Run :: "('w, 'db, 'src, 'drv, 'm) migrate_libs \<Rightarrow> string \<Rightarrow> ('w, unit) io" where
  "migrations_Run l dsn w = (case sqlOpen l dsn w of
     (Inl err, w1) \<Rightarrow> (Inl (Wrapf ''open database for migrations'' err), w1)
   | (Inr db, w1) \<Rightarrow>
       (let (r, w') = (case iofsNew l w1 of
          (Inl err, w2) \<Rightarrow> (Inl (Wrapf ''read embedded migrations'' err), w2)
        | (Inr source, w2) \<Rightarrow>
            (case WithInstance l db w2 of
               (Inl err, w3) \<Rightarrow> (Inl (Wrapf ''create migrate driver'' err), w3)
             | (Inr driver, w3) \<Rightarrow>
                 (case NewWithInstance l source driver w3 of
                    (Inl err, w4) \<Rightarrow> (Inl (Wrapf ''create migrator'' err), w4)
                  | (Inr m, w4) \<Rightarrow>
                      (case Up l m w4 of
                         (Inl err, w5) \<Rightarrow>
                           if \<not> errors_is err ErrNoChange then (Inl (Wrapf ''apply migrations'' err), w5)
                           else (Inr (), w5)
                       | (Inr _, w5) \<Rightarrow> (Inr (), w5)))))
        in (r, dbClose l db w')))"

subsection \<open>A run of a binary\<close>

datatype boot =
    SetupTracing | FlushTraces
  | Migrate | ParseDSN | NewPool | PingPool | ClosePool
  | NewStore | EnsureBucket | ConnectBroker | ClosePublisher
  | ServeGroup

text \<open>
  \<open>out b\<close> is the error the call \<open>b\<close> ends with, if any; the list is the calls made so far.
\<close>

type_synonym boot_run = "boot list \<Rightarrow> unit res \<times> boot list"

definition invoke :: "(boot \<Rightarrow> go_error option) \<Rightarrow> (go_error \<Rightarrow> go_error) \<Rightarrow> boot \<Rightarrow> boot_run \<Rightarrow> boot_run" where
  "invoke out wrap b k tr = (case out b of Some e \<Rightarrow> (Inl (wrap e), tr @ [b]) | None \<Rightarrow> k (tr @ [b]))"

definition fail_with :: "go_error \<Rightarrow> boot_run" where
  "fail_with e tr = (Inl e, tr)"

definition defer_call :: "boot \<Rightarrow> boot_run \<Rightarrow> boot_run" where
  "defer_call b m tr = (case m tr of (r, tr1) \<Rightarrow> (r, tr1 @ [b]))"

definition last_call :: "(boot \<Rightarrow> go_error option) \<Rightarrow> boot \<Rightarrow> boot_run" where
  "last_call out b = invoke out (\<lambda>e. e) b (\<lambda>tr. (Inr (), tr))"

text \<open>\<^verbatim>\<open>errgroup.Group.Wait\<close>: the first error in the order in which the goroutines return.\<close>

fun group_Wait :: "go_error option list \<Rightarrow> go_error option" where
  "group_Wait [] = None"
| "group_Wait (Some e # rs) = Some e"
| "group_Wait (None # rs) = group_Wait rs"

text \<open>The goroutine that serves: a listener closed by Shutdown is no error.\<close>

definition listen_result :: "go_error option \<Rightarrow> go_error option" where
  "listen_result err = (case err of
     Some e \<Rightarrow> if errors_is e ErrServerClosed then None else Some e | None \<Rightarrow> None)"

definition s3_settings :: "Config \<Rightarrow> s3_Config" where
  "s3_settings cfg = \<lparr>cfgEndpoint = S3Endpoint cfg, cfgAccessKey = S3AccessKey cfg,
     cfgSecretKey = S3SecretKey cfg, cfgBucket = S3Bucket cfg, cfgUseSSL = S3UseSSL cfg\<rparr>"

definition error_of :: "'a res \<Rightarrow> go_error option" where
  "error_of r = (case r of Inl e \<Rightarrow> Some e | Inr _ \<Rightarrow> None)"

text \<open>
  What the environment decides: the outcomes of the library calls, whether the S3 client
  and the broker connection can be made, and the results with which the members of the
  serving group return.
\<close>

record boot_env =
  outcome_of :: "boot \<Rightarrow> go_error option"
  minioNew :: "string \<Rightarrow> string \<Rightarrow> string \<Rightarrow> bool \<Rightarrow> unit minio_client res"
  amqpDial :: "string \<Rightarrow> (unit, unit amqp_Connection) io"
  listenEnd :: "go_error option"
  otherEnd :: "go_error option"
  listenFirst :: bool

definition server_group :: "boot_env \<Rightarrow> go_error option" where
  "server_group B = (let l = listen_result (listenEnd B); s = otherEnd B in
     group_Wait (if listenFirst B then [l, s] else [s, l]))"

definition worker_group :: "boot_env \<Rightarrow> go_error option" where
  "worker_group B = group_Wait (if listenFirst B then [listenEnd B, otherEnd B] else [otherEnd B, listenEnd B])"

definition server_out :: "boot_env \<Rightarrow> Config \<Rightarrow> boot \<Rightarrow> go_error option" where
  "server_out B cfg b = (case b of
     NewStore \<Rightarrow> error_of (s3_New (minioNew B) (s3_settings cfg))
   | ConnectBroker \<Rightarrow> error_of (fst (NewPublisher (amqpDial B) [] (RabbitURL cfg) ()))
   | ServeGroup \<Rightarrow> server_group B
   | _ \<Rightarrow> outcome_of B b)"

definition worker_out :: "boot_env \<Rightarrow> Config \<Rightarrow> boot \<Rightarrow> go_error option" where
  "worker_out B cfg b = (case b of
     NewStore \<Rightarrow> error_of (s3_New (minioNew B) (s3_settings cfg))
   | ConnectBroker \<Rightarrow> error_of (fst (NewConsumer (amqpDial B) (RabbitURL cfg) (Prefetch cfg) ()))
   | ServeGroup \<Rightarrow> worker_group B
   | _ \<Rightarrow> outcome_of B b)"

definition need_dsn :: go_error where
  "need_dsn = NewError ''database DSN is required: set DATABASE_DSN or -d''"

definition server_start :: "(boot \<Rightarrow> go_error option) \<Rightarrow> boot_run" where
  "server_start out =
     invoke out (Wrapf ''parse database dsn'') ParseDSN
      (invoke out (Wrapf ''create pgx pool'') NewPool
        (defer_call ClosePool
          (invoke out (Wrapf ''ping database'') PingPool
            (invoke out (\<lambda>e. e) NewStore
              (invoke out (\<lambda>e. e) EnsureBucket
                (invoke out (\<lambda>e. e) ConnectBroker
                  (defer_call ClosePublisher (last_call out ServeGroup))))))))"

definition server_run :: "boot_env \<Rightarrow> Config \<Rightarrow> boot_run" where
  "server_run B cfg = (let out = server_out B cfg in
     invoke out (\<lambda>e. e) SetupTracing
      (defer_call FlushTraces
        (if DatabaseDSN cfg = [] then fail_with need_dsn
         else if MigrateOnly cfg then last_call out Migrate
         else if AutoMigrate cfg then invoke out (\<lambda>e. e) Migrate (server_start out)
         else server_start out)))"

definition worker_run :: "boot_env \<Rightarrow> Config \<Rightarrow> boot_run" where
  "worker_run B cfg = (let out = worker_out B cfg in
     invoke out (\<lambda>e. e) SetupTracing
      (defer_call FlushTraces
        (if DatabaseDSN cfg = [] then fail_with need_dsn
         else
           invoke out (Wrapf ''parse database dsn'') ParseDSN
            (invoke out (Wrapf ''create pgx pool'') NewPool
              (defer_call ClosePool
                (invoke out (Wrapf ''ping database'') PingPool
                  (invoke out (\<lambda>e. e) NewStore
                    (invoke out (\<lambda>e. e) ConnectBroker
                      (last_call out ServeGroup)))))))))"

text \<open>\<^verbatim>\<open>main\<close>: the exit code, and the calls made.\<close>

definition main_exit :: "(Config \<Rightarrow> boot_run) \<Rightarrow> (string \<Rightarrow> 'l res) \<Rightarrow> string list \<Rightarrow> environment \<Rightarrow> int \<times> boot list" where
  "main_exit run new_logger argv lookupEnv = (case Load argv lookupEnv of
     Inl _ \<Rightarrow> (1, [])
   | Inr cfg \<Rightarrow>
       (case new_logger (LogLevel cfg) of
          Inl _ \<Rightarrow> (1, [])
        | Inr _ \<Rightarrow> (case run cfg [] of (Inl _, tr) \<Rightarrow> (1, tr) | (Inr _, tr) \<Rightarrow> (0, tr))))"

text \<open>The worker's \<^verbatim>\<open>main\<close> is the same around the worker's \<^verbatim>\<open>run\<close>.\<close>

definition worker_main :: "boot_env \<Rightarrow> (string \<Rightarrow> 'l res) \<Rightarrow> string list \<Rightarrow> environment \<Rightarrow> int \<times> boot list" where
  "worker_main B = main_exit (worker_run B)"

subsection \<open>What a start guarantees\<close>

definition cleanup :: "(boot \<times> boot) list" where
  "cleanup = [(SetupTracing, FlushTraces), (NewPool, ClosePool), (ConnectBroker, ClosePublisher)]"

text \<open>Every resource that was opened is released once, in the reverse order, and nothing else is.\<close>

definition released :: "(boot \<times> boot) list \<Rightarrow> (boot \<Rightarrow> go_error option) \<Rightarrow> boot list \<Rightarrow> bool" where
  "released pairs out tr \<longleftrightarrow>
     filter (\<lambda>b. b \<in> snd ` set pairs) tr =
     rev (map snd (filter (\<lambda>(op, _). op \<in> set tr \<and> out op = None) pairs))"

lemmas boot_simps = server_run_def server_start_def worker_run_def invoke_def last_call_def defer_call_def
  fail_with_def Let_def

text \<open>The settings without which a binary does not start, checked by the constructors.\<close>

definition complete_settings :: "Config \<Rightarrow> bool" where
  "complete_settings cfg \<longleftrightarrow> DatabaseDSN cfg \<noteq> [] \<and> S3Endpoint cfg \<noteq> [] \<and> S3AccessKey cfg \<noteq> [] \<and>
     S3SecretKey cfg \<noteq> [] \<and> S3Bucket cfg \<noteq> [] \<and> RabbitURL cfg \<noteq> []"

lemma server_out_settings:
  "server_out B cfg NewStore = None \<Longrightarrow> S3Endpoint cfg \<noteq> [] \<and> S3AccessKey cfg \<noteq> [] \<and> S3SecretKey cfg \<noteq> [] \<and> S3Bucket cfg \<noteq> []"
  "server_out B cfg ConnectBroker = None \<Longrightarrow> RabbitURL cfg \<noteq> []"
  by (auto simp: server_out_def error_of_def s3_New_def s3_settings_def NewPublisher_def split: if_splits)

lemma worker_out_settings:
  "worker_out B cfg NewStore = None \<Longrightarrow> S3Endpoint cfg \<noteq> [] \<and> S3AccessKey cfg \<noteq> [] \<and> S3SecretKey cfg \<noteq> [] \<and> S3Bucket cfg \<noteq> []"
  "worker_out B cfg ConnectBroker = None \<Longrightarrow> RabbitURL cfg \<noteq> [] \<and> 1 \<le> Prefetch cfg"
  by (auto simp: worker_out_def error_of_def s3_New_def s3_settings_def NewConsumer_def split: if_splits)

lemma server_run_released:
  "server_run B cfg [] = (r, tr) \<Longrightarrow> released cleanup (server_out B cfg) tr"
  by (auto simp: boot_simps released_def cleanup_def split: option.splits if_splits)

lemma server_run_result:
  "server_run B cfg [] = (r, tr) \<Longrightarrow> r = Inr () \<longleftrightarrow>
     server_out B cfg SetupTracing = None \<and> DatabaseDSN cfg \<noteq> [] \<and>
     (\<forall>b \<in> set tr. b \<notin> snd ` set cleanup \<longrightarrow> server_out B cfg b = None)"
  by (auto simp: boot_simps cleanup_def split: option.splits if_splits)

lemma server_run_serves:
  "server_run B cfg [] = (r, tr) \<Longrightarrow> ServeGroup \<in> set tr \<Longrightarrow>
   \<not> MigrateOnly cfg \<and> (AutoMigrate cfg \<longrightarrow> server_out B cfg Migrate = None) \<and> DatabaseDSN cfg \<noteq> [] \<and>
   (\<forall>b \<in> {SetupTracing, ParseDSN, NewPool, PingPool, NewStore, EnsureBucket, ConnectBroker}. server_out B cfg b = None) \<and>
   takeWhile (\<lambda>b. b \<noteq> ServeGroup) tr = SetupTracing # (if AutoMigrate cfg then [Migrate] else []) @
     [ParseDSN, NewPool, PingPool, NewStore, EnsureBucket, ConnectBroker]"
  by (auto simp: boot_simps split: option.splits if_splits)

text \<open>
  C33: the server starts completely or not at all. It serves only after every earlier step
  has succeeded, in the order tracing, migrations (unless they are switched off), database,
  bucket, broker, and only with all required settings present; asked to migrate only, it
  never serves; on every exit, each resource that was opened is released exactly once, in
  reverse order; it returns no error exactly when no step failed and the DSN was given.
\<close>

theorem server_startup:
  assumes "server_run B cfg [] = (r, tr)"
  shows "released cleanup (server_out B cfg) tr \<and>
    (r = Inr () \<longleftrightarrow> server_out B cfg SetupTracing = None \<and> DatabaseDSN cfg \<noteq> [] \<and>
       (\<forall>b \<in> set tr. b \<notin> {FlushTraces, ClosePool, ClosePublisher} \<longrightarrow> server_out B cfg b = None)) \<and>
    (ServeGroup \<in> set tr \<longrightarrow> complete_settings cfg \<and> \<not> MigrateOnly cfg \<and>
       takeWhile (\<lambda>b. b \<noteq> ServeGroup) tr = SetupTracing # (if AutoMigrate cfg then [Migrate] else []) @
         [ParseDSN, NewPool, PingPool, NewStore, EnsureBucket, ConnectBroker] \<and>
       (\<forall>b \<in> set (takeWhile (\<lambda>b. b \<noteq> ServeGroup) tr). server_out B cfg b = None)) \<and>
    (MigrateOnly cfg \<longrightarrow> set tr \<subseteq> {SetupTracing, Migrate, FlushTraces})"
proof (intro conjI impI)
  have names: "snd ` set cleanup = {FlushTraces, ClosePool, ClosePublisher}" by (auto simp: cleanup_def)
  show "r = Inr () \<longleftrightarrow> server_out B cfg SetupTracing = None \<and> DatabaseDSN cfg \<noteq> [] \<and>
       (\<forall>b \<in> set tr. b \<notin> {FlushTraces, ClosePool, ClosePublisher} \<longrightarrow> server_out B cfg b = None)"
    using server_run_result [OF assms] by (simp only: names)
  assume s: "ServeGroup \<in> set tr"
  note serves = server_run_serves [OF assms s]
  show "complete_settings cfg"
    using serves server_out_settings [of B cfg] by (simp add: complete_settings_def)
  show "\<forall>b \<in> set (takeWhile (\<lambda>b. b \<noteq> ServeGroup) tr). server_out B cfg b = None"
    using serves by (auto split: if_splits)
next
  assume "MigrateOnly cfg"
  then show "set tr \<subseteq> {SetupTracing, Migrate, FlushTraces}"
    using assms by (auto simp: boot_simps split: option.splits if_splits)
qed (use server_run_released [OF assms] server_run_serves [OF assms] in blast)+

text \<open>The worker never migrates, and serves only with a prefetch of at least one.\<close>

lemma worker_run_serves:
  "worker_run B cfg [] = (r, tr) \<Longrightarrow> Migrate \<notin> set tr \<and>
   released [(SetupTracing, FlushTraces), (NewPool, ClosePool)] (worker_out B cfg) tr \<and>
   (ServeGroup \<in> set tr \<longrightarrow> complete_settings cfg \<and> 1 \<le> Prefetch cfg)"
  using worker_out_settings [of B cfg]
  by (auto simp: boot_simps released_def complete_settings_def split: option.splits if_splits)

text \<open>
  The worker's process ends with code 0 only after it has consumed with complete settings,
  and whatever its code, it has released what it had opened.
\<close>

lemma worker_exit:
  assumes "worker_main B new_logger argv env = (code, tr)"
  shows "code \<in> {0, 1}"
    and "code = 0 \<Longrightarrow> \<exists>cfg. Load argv env = Inr cfg \<and> complete_settings cfg \<and> 1 \<le> Prefetch cfg \<and> ServeGroup \<in> set tr"
    and "Load argv env = Inr cfg \<Longrightarrow> released [(SetupTracing, FlushTraces), (NewPool, ClosePool)] (worker_out B cfg) tr"
proof -
  have served: "ServeGroup \<in> set t" if "worker_run B cfg [] = (Inr u, t)" for cfg u t
    using that by (auto simp: boot_simps split: option.splits if_splits)
  have none: "released [(SetupTracing, FlushTraces), (NewPool, ClosePool)] out []" for out by (simp add: released_def)
  show "code \<in> {0, 1}" using assms by (auto simp: worker_main_def main_exit_def split: sum.splits prod.splits)
  show "\<exists>cfg. Load argv env = Inr cfg \<and> complete_settings cfg \<and> 1 \<le> Prefetch cfg \<and> ServeGroup \<in> set tr" if "code = 0"
    using that assms served worker_run_serves by (auto simp: worker_main_def main_exit_def split: sum.splits prod.splits)
  show "released [(SetupTracing, FlushTraces), (NewPool, ClosePool)] (worker_out B cfg) tr" if "Load argv env = Inr cfg"
    using that assms none worker_run_serves by (auto simp: worker_main_def main_exit_def split: sum.splits prod.splits)
qed

subsection \<open>A concrete start\<close>

definition sample_boot :: boot_env where
  "sample_boot = \<lparr>outcome_of = (\<lambda>_. None), minioNew = (\<lambda>_ _ _ _. Inl (NewError ''bad endpoint'')),
     amqpDial = (\<lambda>_ w. (Inl (NewError ''refused''), w)), listenEnd = None, otherEnd = None, listenFirst = True\<rparr>"

theorem server_startup_witness:
  "\<exists>r. server_run sample_boot (default_config\<lparr>DatabaseDSN := ''db''\<rparr>) [] =
     (r, [SetupTracing, Migrate, ParseDSN, NewPool, PingPool, NewStore, ClosePool, FlushTraces]) \<and> r \<noteq> Inr ()"
proof -
  let ?cfg = "default_config\<lparr>DatabaseDSN := ''db''\<rparr>"
  let ?tr = "[SetupTracing, Migrate, ParseDSN, NewPool, PingPool, NewStore, ClosePool, FlushTraces]"
  have bad: "server_out sample_boot ?cfg NewStore \<noteq> None"
    by (simp add: server_out_def error_of_def s3_New_def s3_settings_def default_config_def)
  obtain r where run: "server_run sample_boot ?cfg [] = (r, ?tr)"
    by (simp add: boot_simps server_out_def sample_boot_def default_config_def error_of_def s3_New_def s3_settings_def)
  with server_startup [OF run] bad show ?thesis by auto
qed

end
