(* ===== verification/Pipeline.thy ===== *)
theory Pipeline
  imports Service Processor Consumer
begin

section \<open>Server and worker together\<close>

text \<open>
  The components composed as the deployment composes them: the server's use cases, the
  messages they publish, and the worker's jobs on them, over the one database, bucket and
  broker. What holds for every interleaving (the history relation), what a client gets
  back after an upload has been processed, what a deletion leaves, and the interleaving
  of the two jobs that leaves more than it should.
\<close>

subsection \<open>The worker's handlers\<close>

definition worker_handlers :: "env \<Rightarrow> string \<Rightarrow> world Handlers" where
  "worker_handlers E b = \<lparr>OnUpload = HandleUpload (world_processor E b),
     OnDelete = HandleDelete (world_processor E b),
     OnUploadDead = Some (UploadFailed (world_processor E b))\<rparr>"

definition upload_event :: "avatar \<Rightarrow> UploadEvent" where
  "upload_event a = \<lparr>upAvatarID = ID a, upUserID = UserID a, upS3Key = S3Key a\<rparr>"

lemma upload_event_sel [simp]:
  "upAvatarID (upload_event a) = ID a" "upS3Key (upload_event a) = S3Key a"
  by (simp_all add: upload_event_def)

text \<open>
  The key column stores the keys the code builds as they are: they are shorter than the
  column, or the insert is refused.
\<close>

definition keys_exact :: "env \<Rightarrow> bool" where
  "keys_exact E \<longleftrightarrow> (\<forall>i k. varchar_in E 1024 (OriginalKey i) = Some k \<longrightarrow> k = OriginalKey i)"

lemma original_not_thumb: "OriginalKey i \<notin> thumb_keyset j"
  by (auto simp: thumb_keyset_def)

lemma Upload_key:
  assumes "keys_exact E" and "good_world E w" and "svc_Upload (world_service E b) uid name data w = (Inr a, w')"
  shows "S3Key a \<notin> thumb_keyset i"
proof -
  obtain x j t where x: "new_row E t (upload_record (world_service E b) uid name data j) = Some x"
    "a = x\<lparr>UploadStatus := UploadStatusUploaded\<rparr>"
    using svc.Upload_ok [OF assms(2,3)] by blast
  have "S3Key x = OriginalKey j"
    using new_row_fields [OF x(1)] assms(1) by (auto simp: keys_exact_def upload_record_def split: prod.splits)
  with x(2) show ?thesis by (simp add: original_not_thumb)
qed

subsection \<open>What is served is what was uploaded\<close>

lemma processed_state:
  assumes "keys_exact E" and "good_world E w"
    and up: "svc_Upload (world_service E b) uid name data w = (Inr a, w1)"
    and job: "HandleUpload (world_processor E b) (upload_event a) w1 = (r, w2)"
      "observed w2 = observed w1 @ [(''upload'', statusOK)]"
  obtains y where "good_world E w2" "row_of (rows (sh w2)) (ID a) = Some y" "same_record a y" "live y"
    "ProcessingStatus y = ProcessingStatusCompleted" "live a" "SizeBytes a = int (length data)"
    "Thumbnails y = [(''100x100'', ThumbnailKey (ID a) 100), (''300x300'', ThumbnailKey (ID a) 300)]"
    "objects b (sh w2) (S3Key a) = Some \<lparr>oType = MimeType a, oData = data\<rparr>"
    "\<And>px. px \<in> {100, 300} \<Longrightarrow> \<exists>t. Generate (world_imaging E) data px = Inr t \<and>
       objects b (sh w2) (ThumbnailKey (ID a) px) = Some \<lparr>oType = ''image/jpeg'', oData = t\<rparr>"
proof -
  obtain now where 1: "good_world E w1" "live a" "SizeBytes a = int (length data)"
    "row_of (rows (sh w1)) = (row_of (rows (sh w)))(ID a \<mapsto> a\<lparr>UpdatedAt := now\<rparr>)"
    "objects b (sh w1) (S3Key a) = Some \<lparr>oType = MimeType a, oData = data\<rparr>"
    using Upload_facts [OF assms(2) up] by auto
  let ?x = "a\<lparr>UpdatedAt := now\<rparr>"
  have row1: "row_of (rows (sh w1)) (upAvatarID (upload_event a)) = Some ?x" using 1(4) by simp
  obtain y n src st where 2: "good_world E w2"
      "row_of (rows (sh w2)) = (row_of (rows (sh w1)))(upAvatarID (upload_event a) \<mapsto> y)"
      "objects b (sh w2) = with_thumbs (world_imaging E) (upAvatarID (upload_event a)) src
        (take n ThumbnailSizes) (objects b (sh w1))"
      "upload_attempt (world_imaging E) (upload_event a) ?x (objects b (sh w1)) y n src st r"
    by (rule world_upload_attempt [OF 1(1) row1 job(1)])
  have same: "same_record a y" "DeletedAt y = DeletedAt a"
    using 2(4) processed_row_fields [of _ ?x y] by (auto simp: upload_attempt_def same_record_def live_def)
  have orig: "objects b (sh w2) (S3Key a) = Some \<lparr>oType = MimeType a, oData = data\<rparr>"
    using 2(3) 1(5) Upload_key [OF assms(1-3)] by (simp add: with_thumbs_outside)
  obtain ob z where 3: "row_of (rows (sh w2)) (ID a) = Some z" "objects b (sh w1) (S3Key a) = Some ob"
    "ProcessingStatus z = ProcessingStatusCompleted"
    "Thumbnails z = [(''100x100'', ThumbnailKey (ID a) 100), (''300x300'', ThumbnailKey (ID a) 300)]"
    "\<forall>px \<in> {100, 300}. \<exists>img t. im_decode E (oData ob) = Inr img \<and> im_encode E (im_fill E img px px) 85 = Inr t \<and>
       objects b (sh w2) (ThumbnailKey (ID a) px) = Some \<lparr>oType = ''image/jpeg'', oData = t\<rparr>"
    using HandleUpload_ok [OF 1(1) row1 job] by auto
  have z: "z = y" using 2(2) 3(1) by simp
  have ob: "oData ob = data" using 3(2) 1(5) by auto
  show thesis
  proof (rule that [OF 2(1)])
    show "row_of (rows (sh w2)) (ID a) = Some y" using 3(1) z by simp
    show "live y" using same(2) 1(2) by (simp add: live_def)
    show "ProcessingStatus y = ProcessingStatusCompleted"
      "Thumbnails y = [(''100x100'', ThumbnailKey (ID a) 100), (''300x300'', ThumbnailKey (ID a) 300)]"
      using 3(3,4) z by simp_all
    fix px :: int
    assume "px \<in> {100, 300}"
    with 3(5) ob show "\<exists>t. Generate (world_imaging E) data px = Inr t \<and>
       objects b (sh w2) (ThumbnailKey (ID a) px) = Some \<lparr>oType = ''image/jpeg'', oData = t\<rparr>"
      by (fastforce simp: Generate_def world_imaging_def jpegQuality_def)
  qed (use same(1) 1(2,3) orig in simp_all)
qed

text \<open>A file the service opened, read to its end at once.\<close>

lemma GetFile_reads:
  assumes "good_world E w" and "svc_GetFile (world_service E b) i w = (Inr f, w3)" and "Body f w3 = ((d, None), w4)"
    and "row_of (rows (sh w)) i = Some y"
  shows "fileContentType f = MimeType y \<and> fileSize f = SizeBytes y \<and>
    (\<exists>x. objects b (sh w) (S3Key y) = Some x \<and> d = oData x)"
proof -
  note run = svc.GetFile_run [OF assms(1,2)]
  have w3: "good_world E w3" "world_view b w3 = world_view b w" using run by blast+
  obtain z where z: "vRow (world_view b w) (ID z) = Some z" "\<forall>x. vRow (world_view b w) i = Some x \<longrightarrow> ID z = i"
    "fileContentType f = MimeType z" "fileSize f = SizeBytes z"
    and rd: "\<forall>w2 d w3. good_world E w2 \<longrightarrow> Body f w2 = ((d, None), w3) \<longrightarrow>
      (\<exists>x. vObj (world_view b w2) (S3Key z) = Some x \<and> d = oData x)"
    using run by blast
  have "\<exists>x. vObj (world_view b w3) (S3Key z) = Some x \<and> d = oData x" using rd w3(1) assms(3) by blast
  moreover have "z = y" using z(1,2) assms(4) by simp
  ultimately show ?thesis using z(3,4) w3(2) by simp
qed

lemma ThumbnailFile_reads:
  assumes "good_world E w" and "svc_ThumbnailFile (world_service E b) i sz w = (Inr f, w3)"
    and "Body f w3 = ((d, None), w4)" and "row_of (rows (sh w)) i = Some y"
  shows "fileContentType f = ''image/jpeg'' \<and>
    (\<exists>key x. map_of (Thumbnails y) sz = Some key \<and> objects b (sh w) key = Some x \<and> d = oData x)"
proof -
  note run = svc.ThumbnailFile_run [OF assms(1,2)]
  have w3: "good_world E w3" "world_view b w3 = world_view b w" using run by blast+
  obtain z key where z: "vRow (world_view b w) (ID z) = Some z" "\<forall>x. vRow (world_view b w) i = Some x \<longrightarrow> ID z = i"
    "map_of (Thumbnails z) sz = Some key" "fileContentType f = ''image/jpeg''"
    and rd: "\<forall>w2 d w3. good_world E w2 \<longrightarrow> Body f w2 = ((d, None), w3) \<longrightarrow>
      (\<exists>x. vObj (world_view b w2) key = Some x \<and> d = oData x)"
    using run by blast
  have "\<exists>x. vObj (world_view b w3) key = Some x \<and> d = oData x" using rd w3(1) assms(3) by blast
  moreover have "z = y" using z(1,2) assms(4) by simp
  ultimately show ?thesis using z(3,4) w3(2) by auto
qed

text \<open>
  C6: what is served is what was uploaded. Once Upload has succeeded and the worker's job
  on its event has been recorded ok, whatever faults happened on the way, GetFile serves
  exactly the uploaded bytes with the stored type and their length, and ThumbnailFile at
  each size serves exactly the JPEG that the thumbnail package makes of them; every one of
  these reads that ends without an error has the right content.
\<close>

theorem served_as_uploaded:
  assumes "keys_exact E" and "good_world E w"
    and "svc_Upload (world_service E b) uid name data w = (Inr a, w1)"
    and "HandleUpload (world_processor E b) (upload_event a) w1 = (r, w2)"
    and "observed w2 = observed w1 @ [(''upload'', statusOK)]"
  shows "(\<forall>f w3 d w4. svc_GetFile (world_service E b) (ID a) w2 = (Inr f, w3) \<longrightarrow> Body f w3 = ((d, None), w4) \<longrightarrow>
      d = data \<and> fileContentType f = MimeType a \<and> fileSize f = int (length data)) \<and>
    (\<forall>px \<in> {100, 300}. \<forall>f w3 d w4. svc_ThumbnailFile (world_service E b) (ID a) (SizeName px) w2 = (Inr f, w3) \<longrightarrow>
      Body f w3 = ((d, None), w4) \<longrightarrow> Generate (world_imaging E) data px = Inr d \<and> fileContentType f = ''image/jpeg'')"
proof (rule processed_state [OF assms], intro conjI ballI allI impI)
  fix y f w3 d w4
  assume p: "good_world E w2" "row_of (rows (sh w2)) (ID a) = Some y" "same_record a y"
    "SizeBytes a = int (length data)" "objects b (sh w2) (S3Key a) = Some \<lparr>oType = MimeType a, oData = data\<rparr>"
    and get: "svc_GetFile (world_service E b) (ID a) w2 = (Inr f, w3)" "Body f w3 = ((d, None), w4)"
  from GetFile_reads [OF p(1) get p(2)] p(3-5)
  show "d = data" "fileContentType f = MimeType a" "fileSize f = int (length data)"
    by (auto simp: same_record_def)
next
  fix y px f w3 d w4
  assume p: "good_world E w2" "row_of (rows (sh w2)) (ID a) = Some y"
    "Thumbnails y = [(''100x100'', ThumbnailKey (ID a) 100), (''300x300'', ThumbnailKey (ID a) 300)]"
    "\<And>px. px \<in> {100, 300} \<Longrightarrow> \<exists>t. Generate (world_imaging E) data px = Inr t \<and>
       objects b (sh w2) (ThumbnailKey (ID a) px) = Some \<lparr>oType = ''image/jpeg'', oData = t\<rparr>"
    and px: "px \<in> {100, 300}"
    and get: "svc_ThumbnailFile (world_service E b) (ID a) (SizeName px) w2 = (Inr f, w3)" "Body f w3 = ((d, None), w4)"
  have names: "SizeName 100 = ''100x100''" "SizeName 300 = ''300x300''" by code_simp+
  obtain key x where k: "map_of (Thumbnails y) (SizeName px) = Some key" "objects b (sh w2) key = Some x" "d = oData x"
    "fileContentType f = ''image/jpeg''"
    using ThumbnailFile_reads [OF p(1) get p(2)] by blast
  then have "key = ThumbnailKey (ID a) px" using p(3) px names by (auto split: if_splits)
  with k(2-4) p(4) [OF px] show "Generate (world_imaging E) data px = Inr d" "fileContentType f = ''image/jpeg''"
    by auto
qed

subsection \<open>The whole way of an upload\<close>

lemma GetFile_answered:
  assumes "good_world E w" and "script w = []" and "row_of (rows (sh w)) i = Some y" and "live y"
    and "objects b (sh w) (S3Key y) = Some ob"
  shows "\<exists>f. svc_GetFile (world_service E b) i w = (Inr f, w) \<and> Body f w = ((oData ob, None), w)"
  using pg_GetByID_answered [OF assms(1-4)] s3_Get_answered [OF assms(2,5)]
  by (simp add: svc_GetFile_def openOriginal_def)

lemma ThumbnailFile_answered:
  assumes "good_world E w" and "script w = []" and "row_of (rows (sh w)) i = Some y" and "live y"
    and "map_of (Thumbnails y) sz = Some key" and "objects b (sh w) key = Some ob"
  shows "\<exists>f. svc_ThumbnailFile (world_service E b) i sz w = (Inr f, w) \<and> Body f w = ((oData ob, None), w)"
  using pg_GetByID_answered [OF assms(1-4)] s3_Get_answered [OF assms(2,6)] assms(5)
  by (simp add: svc_ThumbnailFile_def)

lemma upload_delivered:
  assumes "valid_utf8 (ID a)" "valid_utf8 (UserID a)" "valid_utf8 (S3Key a)"
    and "dBody d = Some (mBody (upload_message E (upload_event a)))"
  shows "handle_upload h d w = OnUpload h (upload_event a) w"
  using assms by (simp add: handle_upload_def upload_message_def upload_roundtrip_clean upload_event_def)

lemma pipeline_run:
  assumes "good_world E w" and "script w = []" and "buckets (sh w) b \<noteq> None"
    and "new_row E (clock w) (upload_record (world_service E b) uid name data (uuid_gen E (next_id w))) = Some a0"
    and "ID a0 \<notin> set (map ID (rows (sh w)))"
    and "Generate (world_imaging E) data 100 = Inr t1" and "Generate (world_imaging E) data 300 = Inr t2"
  shows "\<exists>w1 w2. svc_Upload (world_service E b) uid name data w = (Inr (a0\<lparr>UploadStatus := UploadStatusUploaded\<rparr>), w1) \<and>
    sent (sh w1) = sent (sh w) @ [upload_message E (upload_event (a0\<lparr>UploadStatus := UploadStatusUploaded\<rparr>))] \<and>
    HandleUpload (world_processor E b) (upload_event (a0\<lparr>UploadStatus := UploadStatusUploaded\<rparr>)) w1 = (Inr (), w2) \<and>
    observed w2 = observed w1 @ [(''upload'', statusOK)] \<and> script w2 = []"
proof -
  let ?a = "a0\<lparr>UploadStatus := UploadStatusUploaded\<rparr>"
  let ?m = "upload_message E (upload_event ?a)"
  obtain w1 where up: "svc_Upload (world_service E b) uid name data w = (Inr ?a, w1)"
    and sent1: "sent (sh w1) = sent (sh w) @ [?m]" and q1: "script w1 = []"
    using Upload_answered [OF _ assms(2-5)] good_worldD(1) [OF assms(1)] by (auto simp: upload_event_def)
  obtain now where 1: "good_world E w1" "live ?a" "ProcessingStatus ?a = ProcessingStatusPending"
    "row_of (rows (sh w1)) (ID ?a) = Some (?a\<lparr>UpdatedAt := now\<rparr>)"
    "objects b (sh w1) (S3Key ?a) = Some \<lparr>oType = MimeType ?a, oData = data\<rparr>"
    using Upload_facts [OF assms(1) up] by auto
  obtain w2 where job: "HandleUpload (world_processor E b) (upload_event ?a) w1 = (Inr (), w2)"
    "observed w2 = observed w1 @ [(''upload'', statusOK)]" and q2: "script w2 = []"
    using HandleUpload_answered [OF 1(1) q1, of "upload_event ?a" "?a\<lparr>UpdatedAt := now\<rparr>" b _ t1 t2] 1(2-5) assms(6,7)
    by (auto simp: live_def)
  with up sent1 show ?thesis by blast
qed

text \<open>
  C5: an upload gets all the way. When every call is answered, the values fit the columns,
  the id is new and the image decodes at both sizes: Upload succeeds and publishes one
  message; the consumer's handler of that message succeeds; after it the avatar is live and
  completed, GetFile serves the uploaded bytes, and ThumbnailFile serves both thumbnails.
\<close>

theorem upload_pipeline:
  assumes "keys_exact E" and "good_world E w" and "script w = []" and "buckets (sh w) b \<noteq> None"
    and "new_row E (clock w) (upload_record (world_service E b) uid name data (uuid_gen E (next_id w))) = Some a0"
    and "ID a0 \<notin> set (map ID (rows (sh w)))"
    and "valid_utf8 (ID a0)" "valid_utf8 (UserID a0)" "valid_utf8 (S3Key a0)"
    and "Generate (world_imaging E) data 100 = Inr t1" and "Generate (world_imaging E) data 300 = Inr t2"
  shows "\<exists>a w1 m w2 y. svc_Upload (world_service E b) uid name data w = (Inr a, w1) \<and> sent (sh w1) = sent (sh w) @ [m] \<and>
    (\<forall>d. dBody d = Some (mBody m) \<longrightarrow> handle_upload (worker_handlers E b) d w1 = (Inr (), w2)) \<and>
    row_of (rows (sh w2)) (ID a) = Some y \<and> live y \<and> ProcessingStatus y = ProcessingStatusCompleted \<and>
    (\<exists>f. svc_GetFile (world_service E b) (ID a) w2 = (Inr f, w2) \<and> Body f w2 = ((data, None), w2)) \<and>
    (\<exists>f. svc_ThumbnailFile (world_service E b) (ID a) ''100x100'' w2 = (Inr f, w2) \<and> Body f w2 = ((t1, None), w2)) \<and>
    (\<exists>f. svc_ThumbnailFile (world_service E b) (ID a) ''300x300'' w2 = (Inr f, w2) \<and> Body f w2 = ((t2, None), w2))"
proof -
  let ?a = "a0\<lparr>UploadStatus := UploadStatusUploaded\<rparr>"
  let ?m = "upload_message E (upload_event ?a)"
  obtain w1 w2 where up: "svc_Upload (world_service E b) uid name data w = (Inr ?a, w1)"
    and sent1: "sent (sh w1) = sent (sh w) @ [?m]"
    and job: "HandleUpload (world_processor E b) (upload_event ?a) w1 = (Inr (), w2)"
      "observed w2 = observed w1 @ [(''upload'', statusOK)]" and q2: "script w2 = []"
    using pipeline_run [OF assms(2-6,10,11)] by blast
  have deliver: "handle_upload (worker_handlers E b) d w1 = (Inr (), w2)" if "dBody d = Some (mBody ?m)" for d
    using upload_delivered [OF _ _ _ that, of "worker_handlers E b" w1] assms(7-9) job(1) by (simp add: worker_handlers_def)
  show ?thesis
  proof (rule processed_state [OF assms(1,2) up job])
    fix y
    assume p: "good_world E w2" "row_of (rows (sh w2)) (ID ?a) = Some y" "same_record ?a y" "live y"
      "ProcessingStatus y = ProcessingStatusCompleted"
      "Thumbnails y = [(''100x100'', ThumbnailKey (ID ?a) 100), (''300x300'', ThumbnailKey (ID ?a) 300)]"
      "objects b (sh w2) (S3Key ?a) = Some \<lparr>oType = MimeType ?a, oData = data\<rparr>"
      "\<And>px. px \<in> {100, 300} \<Longrightarrow> \<exists>t. Generate (world_imaging E) data px = Inr t \<and>
         objects b (sh w2) (ThumbnailKey (ID ?a) px) = Some \<lparr>oType = ''image/jpeg'', oData = t\<rparr>"
    have thumbs: "objects b (sh w2) (ThumbnailKey (ID ?a) 100) = Some \<lparr>oType = ''image/jpeg'', oData = t1\<rparr>"
      "objects b (sh w2) (ThumbnailKey (ID ?a) 300) = Some \<lparr>oType = ''image/jpeg'', oData = t2\<rparr>"
      using p(8) [of 100] p(8) [of 300] assms(10,11) by auto
    have key: "S3Key y = S3Key ?a" using p(3) by (simp add: same_record_def)
    have "\<exists>f. svc_GetFile (world_service E b) (ID ?a) w2 = (Inr f, w2) \<and> Body f w2 = ((data, None), w2)"
      using GetFile_answered [OF p(1) q2 p(2,4), of b] p(7) key by simp
    moreover have "\<exists>f. svc_ThumbnailFile (world_service E b) (ID ?a) ''100x100'' w2 = (Inr f, w2) \<and> Body f w2 = ((t1, None), w2)"
      using ThumbnailFile_answered [OF p(1) q2 p(2,4) _ thumbs(1)] p(6) by simp
    moreover have "\<exists>f. svc_ThumbnailFile (world_service E b) (ID ?a) ''300x300'' w2 = (Inr f, w2) \<and> Body f w2 = ((t2, None), w2)"
      using ThumbnailFile_answered [OF p(1) q2 p(2,4) _ thumbs(2)] p(6) by simp
    ultimately show ?thesis
      using up sent1 deliver p(2,4,5) by blast
  qed
qed

subsection \<open>The whole way of a deletion\<close>

text \<open>
  What every read answers about an avatar that is gone: not found, or, where the call to the
  database fails, the error of that call.
\<close>

definition unreadable :: "'a res \<Rightarrow> bool" where
  "unreadable r \<longleftrightarrow> r = Inl ErrNotFound \<or> (\<exists>e. r = Inl (Wrapf ''scan avatar'' (Net e)))"

lemma deleted_unreadable:
  assumes good: "good_world E w" and row: "row_of (rows (sh w)) i = Some y" and dead: "\<not> live y"
    and literal: "uuid_in E j = Some i"
  shows "unreadable (fst (svc_GetFile (world_service E b) j w))"
    and "unreadable (fst (svc_Metadata (world_service E b) j w))"
    and "unreadable (fst (svc_ThumbnailFile (world_service E b) j sz w))"
    and "unreadable (fst (svc_Delete (world_service E b) j req w))"
proof -
  obtain r w' where get: "pg_GetByID E j w = (r, w')" by fastforce
  have "unreadable r"
    using pg_GetByID_deleted [OF assms get] by (simp add: unreadable_def)
  then obtain e where "r = Inl e" "unreadable (Inl e :: world File res)" "unreadable (Inl e :: avatar res)" "unreadable (Inl e :: unit res)"
    by (auto simp: unreadable_def)
  with get show "unreadable (fst (svc_GetFile (world_service E b) j w))"
    "unreadable (fst (svc_Metadata (world_service E b) j w))"
    "unreadable (fst (svc_ThumbnailFile (world_service E b) j sz w))"
    "unreadable (fst (svc_Delete (world_service E b) j req w))"
    by (simp_all add: svc_GetFile_def svc_Metadata_def svc_ThumbnailFile_def svc_Delete_def)
qed

lemma deleted_not_latest:
  assumes good: "good_world E w" and row: "row_of (rows (sh w)) i = Some y" and dead: "\<not> live y"
    and run: "svc_LatestFile (world_service E b) uid w = (Inr f, w1)"
  shows "\<exists>z. row_of (rows (sh w)) (ID z) = Some z \<and> live z \<and> UserID z = uid \<and> ID z \<noteq> i \<and>
    (\<forall>w2 d w3. good_world E w2 \<longrightarrow> Body f w2 = ((d, None), w3) \<longrightarrow>
      (\<exists>x. objects b (sh w2) (S3Key z) = Some x \<and> d = oData x))"
proof -
  obtain z w0 body where g: "pg_LatestByUser E uid w = (Inr z, w0)" and o': "s3_Get (world_store b) (S3Key z) w0 = (Inr body, w1)"
    and f: "f = \<lparr>Body = body, fileContentType = MimeType z, fileSize = SizeBytes z\<rparr>"
    using run by (auto simp: svc_LatestFile_def openOriginal_def split: prod.splits sum.splits if_splits)
  have z: "good_world E w0" "row_of (rows (sh w)) (ID z) = Some z" "live z" "UserID z = uid"
    using pg_LatestByUser_step [OF good g, of b] by simp_all
  have "ID z \<noteq> i" using z(2,3) row dead by auto
  moreover have "\<exists>x. objects b (sh w2) (S3Key z) = Some x \<and> d = oData x"
    if "good_world E w2" "Body f w2 = ((d, None), w3)" for w2 d w3
    using store.read_law [OF z(1) o' that(1), of d None w3] that(2) f by auto
  ultimately show ?thesis using z(2-4) by blast
qed

text \<open>
  C7: a deletion leaves nothing behind. Once Delete has succeeded for a stored avatar and
  the worker's job on its event has returned no error, whatever faults happened on the
  way: the requester was the owner, the row is deleted and marked so, the original and
  every listed thumbnail are gone, and no other row and no other object has changed. No
  read gives the avatar any more, however its id is written: the file, the metadata, the
  thumbnails and a second deletion are answered not found, unless the call to the database
  fails; no list of any user contains it; and the file served for a user is always that of
  another, live avatar.
\<close>

theorem delete_pipeline:
  assumes "good_world E w" and "row_of (rows (sh w)) i = Some a"
    and "svc_Delete (world_service E b) i req w = (Inr (), w1)"
    and "HandleDelete (world_processor E b) (delete_event a) w1 = (Inr (), w2)"
  shows "UserID a = req \<and>
    (\<exists>y. row_of (rows (sh w2)) = (row_of (rows (sh w)))(i \<mapsto> y) \<and> \<not> live y \<and>
       ProcessingStatus y = ProcessingStatusDeleted) \<and>
    (\<forall>k. objects b (sh w2) k = (if k = S3Key a \<or> k \<in> snd ` set (Thumbnails a) then None else objects b (sh w) k)) \<and>
    (\<forall>j. uuid_in E j = Some i \<longrightarrow> unreadable (fst (svc_GetFile (world_service E b) j w2)) \<and>
       unreadable (fst (svc_Metadata (world_service E b) j w2)) \<and>
       (\<forall>sz. unreadable (fst (svc_ThumbnailFile (world_service E b) j sz w2))) \<and>
       (\<forall>req. unreadable (fst (svc_Delete (world_service E b) j req w2)))) \<and>
    (\<forall>uid as w3. svc_List (world_service E b) uid w2 = (Inr as, w3) \<longrightarrow> i \<notin> ID ` set as) \<and>
    (\<forall>uid f w3. svc_LatestFile (world_service E b) uid w2 = (Inr f, w3) \<longrightarrow>
       (\<exists>z. row_of (rows (sh w2)) (ID z) = Some z \<and> live z \<and> UserID z = uid \<and> ID z \<noteq> i \<and>
          (\<forall>w4 d w5. good_world E w4 \<longrightarrow> Body f w4 = ((d, None), w5) \<longrightarrow>
            (\<exists>x. objects b (sh w4) (S3Key z) = Some x \<and> d = oData x))))"
proof -
  have ID: "ID a = i" using row_of_Some [OF assms(2)] by simp
  obtain x w0 where get: "pg_GetByID E i w = (Inr x, w0)" and del: "deleteAvatar (world_service E b) x w0 = (Inr (), w1)"
    and owner: "UserID x = req"
    using assms(3) by (auto simp: svc_Delete_def split: prod.splits sum.splits if_splits)
  have w0: "good_world E w0" "world_view b w0 = world_view b w"
    using pgrow.row_law [OF assms(1) get] by auto
  have "ID x = i" "row_of (rows (sh w)) (ID x) = Some x" "live x"
    using pgrow.row_asked [OF assms(1) get, where x = a] pgrow.row_found [OF assms(1) get] assms(2) by auto
  then have x: "x = a" "live a" using assms(2) by simp_all
  have row0: "vRow (world_view b w0) (ID a) = Some a" using w0(2) assms(2) ID by simp
  obtain now msgs where g1: "good_world E w1" and v1: "world_view b w1 = (world_view b w0)\<lparr>
      vRow := (vRow (world_view b w0))(ID a \<mapsto> deleted_at now a), vMsgs := vMsgs (world_view b w0) @ msgs\<rparr>"
    using svc.deleteAvatar_run [OF w0(1) row0 x(2) del [unfolded x(1)]] by blast
  note d1 = world_viewD [OF v1]
  have row1: "row_of (rows (sh w1)) (delAvatarID (delete_event a)) = Some (deleted_at now a)"
    using d1(1) by (simp add: delete_event_def)
  obtain y gone st where g2: "good_world E w2" and v2: "world_view b w2 = (world_view b w1)\<lparr>
      vRow := (vRow (world_view b w1))(delAvatarID (delete_event a) \<mapsto> y), vObj := (vObj (world_view b w1)) |` (- set gone),
      vObs := vObs (world_view b w1) @ [(''delete'', st)]\<rparr>"
    and y: "y = deleted_at now a \<or> (\<exists>now'. y = (deleted_at now a)\<lparr>ProcessingStatus := ProcessingStatusDeleted, UpdatedAt := now'\<rparr>)"
      "gone = delS3Keys (delete_event a)" "ProcessingStatus y = ProcessingStatusDeleted"
    using proc.HandleDelete_run [OF g1 _ assms(4), of "deleted_at now a"] row1 by auto
  note d2 = world_viewD [OF v2]
  have dead: "\<not> live y" using y(1) by (auto simp: live_def deleted_at_def)
  have rows2: "row_of (rows (sh w2)) = (row_of (rows (sh w)))(i \<mapsto> y)"
    using d2(1) d1(1) ID w0(2) by (simp add: delete_event_def)
  have objs: "objects b (sh w2) k = (if k = S3Key a \<or> k \<in> snd ` set (Thumbnails a) then None else objects b (sh w) k)" for k
    using d2(2) d1(2) y(2) w0(2) by (simp add: delete_event_def restrict_map_def)
  have row2: "row_of (rows (sh w2)) i = Some y" using rows2 by simp
  note unread = deleted_unreadable [OF g2 row2 dead] and latest = deleted_not_latest [OF g2 row2 dead]
  have "i \<notin> ID ` set as" if "svc_List (world_service E b) uid w2 = (Inr as, w3)" for uid as w3
    using pg_ListByUser_deleted [OF g2 row2 dead] that by (simp add: svc_List_def)
  with owner x rows2 dead y(3) objs unread latest show ?thesis by blast
qed

subsection \<open>Deletions without disturbance\<close>

lemma pg_exec_guarded:
  assumes "good_world E w" and "script w = []" and "row_of (rows (sh w)) i = Some x" and "c x"
  shows "pg_exec (sql_update E i True c upd) w =
    (Inr (), w\<lparr>sh := (sh w)\<lparr>rows := update_where (\<lambda>a. ID a = i \<and> c a) (upd (clock w)) (rows (sh w))\<rparr>\<rparr>)"
  using filter_row_of [OF good_worldD(4) [OF assms(1)] assms(3), of c] uuid_of_row [OF assms(1,3)] assms(2,4)
  by (simp add: pg_exec_def remote_answered sql_update_def Let_def)

lemma table_ok_update_where:
  assumes "table_ok E rs" and "\<And>a. ID (f a) = ID a" and "\<And>a. row_ok E a \<Longrightarrow> row_ok E (f a)"
  shows "table_ok E (update_where q f rs)"
proof -
  have "map ID (update_where q f rs) = map ID rs" using assms(2) by (induction rs) (auto simp: update_where_def)
  then have "distinct (map ID (update_where q f rs))" using assms(1) by (simp only: table_ok_def)
  moreover have "list_all (row_ok E) (update_where q f rs)"
    using assms(1,3) by (auto simp: table_ok_def list_all_iff update_where_def)
  ultimately show ?thesis by (simp only: table_ok_def)
qed

lemma Delete_answered:
  assumes "good_world E w" and "script w = []" and "row_of (rows (sh w)) i = Some x" and "live x"
  shows "svc_Delete (world_service E b) i (UserID x) w = (Inr (), w\<lparr>sh := (sh w)\<lparr>
    rows := update_where (\<lambda>a. ID a = i \<and> live a) (deleted_at (clock w)) (rows (sh w)),
    sent := sent (sh w) @ [delete_message E (delete_event x)]\<rparr>\<rparr>)"
proof -
  have ID: "ID x = i" using row_of_Some [OF assms(3)] by simp
  have del: "pg_SoftDelete E i w = (Inr (), w\<lparr>sh := (sh w)\<lparr>
      rows := update_where (\<lambda>a. ID a = i \<and> live a) (deleted_at (clock w)) (rows (sh w))\<rparr>\<rparr>)"
    unfolding pg_SoftDelete_def deleted_at_def [abs_def] by (rule pg_exec_guarded [where c = live, OF assms])
  show ?thesis
    using pg_GetByID_answered [OF assms] del assms(2)
    by (simp add: svc_Delete_def deleteAvatar_def ID pb_publish_remote remote_answered act_publish_def delete_event_def)
qed

lemma soft_deleted_state:
  assumes "good_world E w" and "row_of (rows (sh w)) i = Some x" and "live x"
    and "rows (sh w1) = update_where (\<lambda>a. ID a = i \<and> live a) (deleted_at now) (rows (sh w))" and "script w1 = []"
  shows "good_world E w1" and "row_of (rows (sh w1)) i = Some (deleted_at now x)"
proof -
  note g = good_worldD [OF assms(1)]
  have "table_ok E (rows (sh w1))"
    unfolding assms(4) by (rule table_ok_update_where [OF g(3)]) (simp_all add: deleted_at_def row_ok_def)
  with g(1) assms(5) show "good_world E w1" by (simp add: good_world_table)
  show "row_of (rows (sh w1)) i = Some (deleted_at now x)"
    using row_of_update_where [OF g(4) assms(2), of "deleted_at now" live] assms(3,4) by (simp add: deleted_at_def)
qed

lemma delete_run:
  assumes "good_world E w" and "script w = []" and "row_of (rows (sh w)) i = Some x" and "live x"
    and "buckets (sh w) b \<noteq> None"
  shows "\<exists>w1 w2. svc_Delete (world_service E b) i (UserID x) w = (Inr (), w1) \<and>
    HandleDelete (world_processor E b) (delete_event x) w1 = (Inr (), w2)"
proof -
  obtain m where m: "buckets (sh w) b = Some m" using assms(5) by blast
  have ID: "ID x = i" using row_of_Some [OF assms(3)] by simp
  obtain w1 where w1: "svc_Delete (world_service E b) i (UserID x) w = (Inr (), w1)" "script w1 = []"
    "rows (sh w1) = update_where (\<lambda>a. ID a = i \<and> live a) (deleted_at (clock w)) (rows (sh w))"
    "buckets (sh w1) b = Some m"
    using Delete_answered [OF assms(1-4), of b] assms(2) m by simp
  note st = soft_deleted_state [OF assms(1,3,4) w1(3,2)]
  have "row_of (rows (sh w1)) (delAvatarID (delete_event x)) = Some (deleted_at (clock w) x)"
    using st(2) ID by (simp add: delete_event_def)
  from HandleDelete_answered [OF st(1) w1(2) this w1(4)] w1(1) show ?thesis by blast
qed

subsection \<open>Every interleaving\<close>

text \<open>The operations that change the shared state, as the two binaries run them.\<close>

datatype job =
    UploadJob string string bytes
  | DeleteJob string string
  | DeleteLatestJob string string
  | UploadEventJob UploadEvent
  | DeleteEventJob DeleteEvent
  | UploadDeadJob UploadEvent

fun run_job :: "env \<Rightarrow> string \<Rightarrow> job \<Rightarrow> world \<Rightarrow> world" where
  "run_job E b (UploadJob uid name data) w = snd (svc_Upload (world_service E b) uid name data w)"
| "run_job E b (DeleteJob i req) w = snd (svc_Delete (world_service E b) i req w)"
| "run_job E b (DeleteLatestJob uid req) w = snd (svc_DeleteLatest (world_service E b) uid req w)"
| "run_job E b (UploadEventJob ev) w = snd (HandleUpload (world_processor E b) ev w)"
| "run_job E b (DeleteEventJob dv) w = snd (HandleDelete (world_processor E b) dv w)"
| "run_job E b (UploadDeadJob ev) w = UploadFailed (world_processor E b) ev w"

lemma run_job_keeps: "upheld (history E) w (run_job E b j w)"
  using svc_keeps_history [of E b] proc_keeps_history [of E b] pg_keeps_history(6)
  by (cases j) (simp_all add: keeps_def UploadFailed_def)

lemma run_jobs_keep: "upheld (history E) w (fold (run_job E b) js w)"
proof (induction js arbitrary: w)
  case (Cons j js)
  show ?case
    using hist.upheld_trans [OF run_job_keeps Cons.IH] by simp
qed (simp add: hist.upheld_refl)

text \<open>
  C8: what no interleaving undoes. Run any uploads, deletions and worker jobs, with any
  faults, while other instances of server and worker take turns between any two calls:
  the table only grows; a row keeps its id, owner, file data and key, and once deleted it
  stays deleted with the same time; an accepted message is never lost from the record; and
  the table stays well-formed, ids unique and every value within its column.
\<close>

theorem history_kept:
  assumes "others_keep (history E) w"
  shows "let s = sh w; s' = sh (fold (run_job E b) js w) in
    prefix (sent s) (sent s') \<and> (env_ok E \<and> table_ok E (rows s) \<longrightarrow> table_ok E (rows s')) \<and>
    length (rows s) \<le> length (rows s') \<and>
    (\<forall>n < length (rows s). let a = rows s ! n; a' = rows s' ! n in
       ID a' = ID a \<and> UserID a' = UserID a \<and> S3Key a' = S3Key a \<and> SizeBytes a' = SizeBytes a \<and>
       (DeletedAt a \<noteq> None \<longrightarrow> DeletedAt a' = DeletedAt a))"
proof -
  have h: "history E (sh w) (sh (fold (run_job E b) js w))"
    using run_jobs_keep assms by (simp add: upheld_def)
  then obtain old new where rs: "rows (sh (fold (run_job E b) js w)) = old @ new"
    and same: "list_all2 same_record (rows (sh w)) old"
    by (auto simp: history_def table_extends_def)
  have len: "length old = length (rows (sh w))" using same by (simp add: list_all2_lengthD)
  have "same_record (rows (sh w) ! n) (rows (sh (fold (run_job E b) js w)) ! n)" if "n < length (rows (sh w))" for n
    using same that by (simp add: rs nth_append len list_all2_nthD)
  with h rs len show ?thesis
    by (auto simp: Let_def history_def same_record_def live_def)
qed

subsection \<open>Concrete runs\<close>

lemma keys_exact_sample [simp]: "keys_exact sample_env"
  by (simp add: keys_exact_def sample_env_def)

lemma sample_generate: "\<exists>t. Generate (world_imaging sample_env) ''abcd'' px = Inr t"
  by (simp add: Generate_def world_imaging_def sample_env_def)

lemma sample_upload_row:
  obtains a where "new_row sample_env (clock (sample_world sample_rows Map.empty [])) (upload_record (world_service sample_env ''b'')
      ''ann'' ''n'' ''abcd'' (uuid_gen sample_env (next_id (sample_world sample_rows Map.empty [])))) = Some a"
    "ID a \<notin> set (map ID sample_rows)" "valid_utf8 (ID a)" "valid_utf8 (UserID a)" "valid_utf8 (S3Key a)"
proof (rule that)
  show "new_row sample_env (clock (sample_world sample_rows Map.empty [])) (upload_record (world_service sample_env ''b'')
      ''ann'' ''n'' ''abcd'' (uuid_gen sample_env (next_id (sample_world sample_rows Map.empty [])))) =
    Some \<lparr>ID = ''id-7'', UserID = ''ann'', FileName = ''n'', MimeType = ''image/png'', SizeBytes = 4,
     Width = 2, Height = 2, S3Key = OriginalKey ''id-7'', Thumbnails = [], UploadStatus = ''uploading'',
     ProcessingStatus = ''pending'', CreatedAt = 50, UpdatedAt = 50, DeletedAt = None\<rparr>" (is "_ = Some ?a")
    by (simp add: sample_fresh_id sample_new_row del: sample_world_sel(6) One_nat_def)
qed (auto simp: sample_rows_def OriginalKey_def intro!: valid_utf8_ascii)

theorem upload_pipeline_witness:
  "\<exists>w1 w2 a f. svc_Upload (world_service sample_env ''b'') ''ann'' ''n'' ''abcd'' (sample_world sample_rows Map.empty []) = (Inr a, w1) \<and>
    svc_GetFile (world_service sample_env ''b'') (ID a) w2 = (Inr f, w2) \<and> Body f w2 = ((''abcd'', None), w2)"
proof -
  let ?w = "sample_world sample_rows Map.empty []"
  obtain t1 t2 where t: "Generate (world_imaging sample_env) ''abcd'' 100 = Inr t1"
    "Generate (world_imaging sample_env) ''abcd'' 300 = Inr t2" using sample_generate by metis
  obtain a0 where a0: "new_row sample_env (clock ?w) (upload_record (world_service sample_env ''b'') ''ann'' ''n'' ''abcd''
      (uuid_gen sample_env (next_id ?w))) = Some a0"
    "ID a0 \<notin> set (map ID sample_rows)" "valid_utf8 (ID a0)" "valid_utf8 (UserID a0)" "valid_utf8 (S3Key a0)"
    by (rule sample_upload_row)
  have "ID a0 \<notin> set (map ID (rows (sh ?w)))" using a0(2) by simp
  from upload_pipeline [OF keys_exact_sample good_sample_world [OF table_ok_sample_rows] _ _ a0(1) this a0(3-5) t]
  show ?thesis by (simp del: sample_world_sel(6)) blast
qed

text \<open>The upload of the witness above and its job, as one run.\<close>

lemma sample_pipeline:
  obtains a w1 w2 where "svc_Upload (world_service sample_env ''b'') ''ann'' ''n'' ''abcd'' (sample_world sample_rows Map.empty []) = (Inr a, w1)"
    "HandleUpload (world_processor sample_env ''b'') (upload_event a) w1 = (Inr (), w2)"
    "observed w2 = observed w1 @ [(''upload'', statusOK)]" "script w2 = []"
proof -
  let ?w = "sample_world sample_rows Map.empty []"
  obtain t1 t2 where t: "Generate (world_imaging sample_env) ''abcd'' 100 = Inr t1"
    "Generate (world_imaging sample_env) ''abcd'' 300 = Inr t2" using sample_generate by metis
  obtain a0 where a0: "new_row sample_env (clock ?w) (upload_record (world_service sample_env ''b'') ''ann'' ''n'' ''abcd''
      (uuid_gen sample_env (next_id ?w))) = Some a0" "ID a0 \<notin> set (map ID sample_rows)"
    by (rule sample_upload_row)
  have new: "ID a0 \<notin> set (map ID (rows (sh ?w)))" using a0(2) by simp
  have bucket: "buckets (sh ?w) ''b'' \<noteq> None" by simp
  from pipeline_run [OF good_sample_world [OF table_ok_sample_rows] _ bucket a0(1) new t] that show thesis by simp blast
qed

theorem served_as_uploaded_witness:
  "\<exists>a w1 w2 f. svc_Upload (world_service sample_env ''b'') ''ann'' ''n'' ''abcd'' (sample_world sample_rows Map.empty []) = (Inr a, w1) \<and>
    HandleUpload (world_processor sample_env ''b'') (upload_event a) w1 = (Inr (), w2) \<and>
    svc_GetFile (world_service sample_env ''b'') (ID a) w2 = (Inr f, w2) \<and> fileSize f = 4 \<and> fileContentType f = MimeType a"
proof -
  obtain a w1 w2 where run: "svc_Upload (world_service sample_env ''b'') ''ann'' ''n'' ''abcd'' (sample_world sample_rows Map.empty []) = (Inr a, w1)"
    "HandleUpload (world_processor sample_env ''b'') (upload_event a) w1 = (Inr (), w2)"
    "observed w2 = observed w1 @ [(''upload'', statusOK)]" and q: "script w2 = []"
    by (rule sample_pipeline)
  note good = good_sample_world [OF table_ok_sample_rows]
  obtain f where f: "svc_GetFile (world_service sample_env ''b'') (ID a) w2 = (Inr f, w2)"
    "Body f w2 = ((''abcd'', None), w2)"
  proof (rule processed_state [OF keys_exact_sample good run])
    fix y
    assume p: "good_world sample_env w2" "row_of (rows (sh w2)) (ID a) = Some y" "same_record a y" "live y"
      "objects ''b'' (sh w2) (S3Key a) = Some \<lparr>oType = MimeType a, oData = ''abcd''\<rparr>"
    have "S3Key y = S3Key a" using p(3) by (simp add: same_record_def)
    with GetFile_answered [OF p(1) q p(2,4), of "''b''"] p(5) that show thesis by auto
  qed
  from served_as_uploaded [OF keys_exact_sample good run, THEN conjunct1, rule_format, OF f]
  have "fileSize f = 4 \<and> fileContentType f = MimeType a" by simp
  with run(1,2) f(1) show ?thesis by blast
qed

theorem delete_pipeline_witness:
  "\<exists>w1 w2. svc_Delete (world_service sample_env ''b'') ''a1'' ''ann'' (sample_stored ''abcd'') = (Inr (), w1) \<and>
    HandleDelete (world_processor sample_env ''b'') (delete_event (sample_row ''a1'' 3 None)) w1 = (Inr (), w2) \<and>
    objects ''b'' (sh w2) (OriginalKey ''a1'') = None"
proof -
  have key: "S3Key (sample_row ''a1'' 3 None) = OriginalKey ''a1''" by (simp add: sample_row_def)
  obtain w1 w2 where w1: "svc_Delete (world_service sample_env ''b'') ''a1'' ''ann'' (sample_stored ''abcd'') = (Inr (), w1)"
    and w2: "HandleDelete (world_processor sample_env ''b'') (delete_event (sample_row ''a1'' 3 None)) w1 = (Inr (), w2)"
    using delete_run [OF sample_good _ sample_row_a1, of "''abcd''" "''b''"] by auto
  from delete_pipeline [OF sample_good sample_row_a1 w1 w2]
  have "objects ''b'' (sh w2) (S3Key (sample_row ''a1'' 3 None)) = None" by simp
  with w1 w2 key show ?thesis by auto
qed

theorem history_kept_witness:
  "\<exists>js w. length js = 2 \<and> others_keep (history sample_env) w \<and> script w \<noteq> [] \<and>
    prefix (sent (sh w)) (sent (sh (fold (run_job sample_env ''b'') js w)))"
proof -
  let ?w = "sample_world sample_rows Map.empty [(\<lambda>s. s, 51, Lost (NetMsg ''timeout''))]"
  have o: "others_keep (history sample_env) ?w" by (simp add: others_keep_def hist.G_refl)
  from history_kept [OF o, of "''b''" "[DeleteJob ''a1'' ''ann'', UploadJob ''ann'' ''n'' ''abcd'']"]
  show ?thesis
    by (intro exI [of _ "[DeleteJob ''a1'' ''ann'', UploadJob ''ann'' ''n'' ''abcd'']"] exI [of _ ?w])
       (simp add: o Let_def)
qed

end
