(* ===== verification/Race.thy ===== *)
theory Race
  imports Pipeline
begin

section \<open>A deletion in the middle of an upload job\<close>

text \<open>
  An interleaving of the two jobs of one avatar that leaves more than it should: the
  whole deletion, the request and the worker's job on it, falls between the download of
  the original and the store of the first thumbnail. The queues of the two events are
  consumed concurrently, so nothing orders them. The theories before state what every
  interleaving keeps; this one shows what is not kept.
\<close>

subsection \<open>The deletion as one turn of the others\<close>

text \<open>
  The deletion of the avatar \<open>x\<close> by its owner: the service's Delete, then the worker's job
  on the event it publishes, as other instances run them.
\<close>

definition deletion :: "env \<Rightarrow> string \<Rightarrow> avatar \<Rightarrow> int \<Rightarrow> shared \<Rightarrow> shared" where
  "deletion E b x now s =
     (let w = \<lparr>sh = s, script = [], clock = now, next_id = 0, observed = []\<rparr>;
          w1 = snd (svc_Delete (world_service E b) (ID x) (UserID x) w) in
      sh (snd (HandleDelete (world_processor E b) (delete_event x) w1)))"

lemma deletion_effect:
  assumes "env_ok E" and "table_ok E (rows s)" and "row_of (rows s) (ID x) = Some z" and "live z"
    and "UserID z = UserID x" and "buckets s b = Some m"
  obtains y where "table_ok E (rows (deletion E b x now s))" "row_of (rows (deletion E b x now s)) (ID x) = Some y"
    "\<not> live y" "buckets (deletion E b x now s) b = Some (m |` (- set (delS3Keys (delete_event x))))"
proof -
  define w where "w = \<lparr>sh = s, script = [], clock = now, next_id = 0, observed = []\<rparr>"
  define rs1 where "rs1 = update_where (\<lambda>a. ID a = ID x \<and> live a) (deleted_at now) (rows s)"
  define w1 where "w1 = w\<lparr>sh := s\<lparr>rows := rs1, sent := sent s @ [delete_message E (delete_event z)]\<rparr>\<rparr>"
  define rs2 where "rs2 = update_where (\<lambda>a. ID a = ID x) (marked_deleted now) rs1"
  have good: "good_world E w" using assms(1,2) by (simp add: good_world_table w_def)
  have del: "svc_Delete (world_service E b) (ID x) (UserID x) w = (Inr (), w1)"
    using Delete_answered [OF good, of "ID x" z b] assms(3-5) by (simp add: w_def w1_def rs1_def)
  have good1: "good_world E w1" and row1: "row_of rs1 (ID x) = Some (deleted_at now z)"
    using soft_deleted_state [OF good, of "ID x" z w1 now] assms(3,4) by (simp_all add: w1_def w_def rs1_def)
  have ok1: "table_ok E rs1" using good_worldD(3) [OF good1] by (simp add: w1_def)
  have job: "sh (snd (HandleDelete (world_processor E b) (delete_event x) w1)) =
      (sh w1)\<lparr>rows := rs2, buckets := (buckets s)(b \<mapsto> m |` (- set (delS3Keys (delete_event x))))\<rparr>"
    using HandleDelete_answered [OF good1, of "delete_event x" "deleted_at now z" b m] row1 assms(6)
    by (simp add: w1_def w_def rs2_def delete_event_def)
  have eq: "deletion E b x now s =
      (sh w1)\<lparr>rows := rs2, buckets := (buckets s)(b \<mapsto> m |` (- set (delS3Keys (delete_event x))))\<rparr>"
    using del job by (simp add: deletion_def Let_def w_def [symmetric])
  have ok2: "table_ok E rs2"
    unfolding rs2_def
    by (rule table_ok_update_where [OF ok1]) (simp_all add: marked_deleted_def row_ok_def processing_status_enum_def)
  have "row_of rs2 (ID x) = Some (marked_deleted now (deleted_at now z))"
    using row_of_update_where [of rs1 "ID x" "deleted_at now z" "marked_deleted now" "\<lambda>_. True"] ok1 row1
    by (simp add: rs2_def table_ok_def marked_deleted_def)
  with ok2 show thesis
    by (intro that [of "marked_deleted now (deleted_at now z)"])
       (simp_all add: eq marked_deleted_def deleted_at_def live_def)
qed

subsection \<open>One turn at a time\<close>

text \<open>
  A turn in which the others do nothing, and how a call passes through it: as without a
  script, but for the turns that remain. A turn that is the last of the script amounts to
  an undisturbed call on what the others leave.
\<close>

definition idle :: "int \<Rightarrow> turn" where
  "idle now = ((\<lambda>s. s), now, Answered)"

lemma remote_idle:
  "script w = [] \<Longrightarrow> remote act (w\<lparr>script := idle (clock w) # ts\<rparr>) =
     (case remote act w of (r, w1) \<Rightarrow> (r, w1\<lparr>script := ts\<rparr>))"
  by (cases w) (simp add: remote_def take_turn_def idle_def case_prod_unfold Let_def)

lemma remote_last_turn:
  "remote act (w\<lparr>script := [(f, now, Answered)]\<rparr>) = remote act (w\<lparr>sh := f (sh w), clock := now, script := []\<rparr>)"
  by (cases w) (simp add: remote_def take_turn_def)

lemma calls_idle:
  assumes "script w = []"
  shows "pg_GetByID E i (w\<lparr>script := idle (clock w) # ts\<rparr>) = (case pg_GetByID E i w of (r, w1) \<Rightarrow> (r, w1\<lparr>script := ts\<rparr>))"
    and "pg_exec stmt (w\<lparr>script := idle (clock w) # ts\<rparr>) = (case pg_exec stmt w of (r, w1) \<Rightarrow> (r, w1\<lparr>script := ts\<rparr>))"
  using assms
  by (simp_all add: pg_GetByID_def pg_exec_def remote_idle case_prod_unfold split: sum.splits)

lemma s3_Get_idle:
  assumes "script w = []" and "objects b (sh w) k = Some ob"
  shows "s3_Get (world_store b) k (w\<lparr>script := idle (clock w) # idle (clock w) # ts\<rparr>) =
      (Inr (oRead (world_object b k)), w\<lparr>script := idle (clock w) # ts\<rparr>)"
    and "oRead (world_object b k) (w\<lparr>script := idle (clock w) # ts\<rparr>) = ((oData ob, None), w\<lparr>script := ts\<rparr>)"
  using assms
  by (auto simp: s3_Get_def world_object_def remote_idle remote_answered act_read_def objects_def split: option.splits)

lemma make_thumbs_last_turn:
  assumes "Generate (world_imaging E) src 100 = Inr t1"
  shows "make_thumbs (world_processor E b) ev src (w\<lparr>script := [(f, now, Answered)]\<rparr>) =
    make_thumbs (world_processor E b) ev src (w\<lparr>sh := f (sh w), clock := now, script := []\<rparr>)"
  using assms by (simp add: make_thumbs_def ThumbnailSizes_def s3_Put_def remote_last_turn)

definition race_script :: "env \<Rightarrow> string \<Rightarrow> avatar \<Rightarrow> int \<Rightarrow> int \<Rightarrow> turn list" where
  "race_script E b x t now = replicate 4 (idle t) @ [(deletion E b x now, now, Answered)]"

text \<open>
  C37: a deletion can fall into a running upload job and be undone in part. For every stored
  pending avatar whose original decodes there is an interleaving, all calls answered, in
  which the owner's deletion and the worker's job on it run completely while the upload
  job holds the original: the upload job then still succeeds, stores both thumbnails of
  the deleted avatar, which no later event names, and turns the row's processing status
  from deleted back to completed.
\<close>

theorem delete_race_leaks:
  assumes "good_world E w" and "script w = []" and "row_of (rows (sh w)) (upAvatarID ev) = Some x"
    and "live x" and "ProcessingStatus x = ProcessingStatusPending"
    and "S3Key x = upS3Key ev" and "objects b (sh w) (upS3Key ev) = Some ob"
    and "upS3Key ev \<notin> thumb_keyset (upAvatarID ev)"
    and "Generate (world_imaging E) (oData ob) 100 = Inr t1" and "Generate (world_imaging E) (oData ob) 300 = Inr t2"
  shows "\<exists>w' y. HandleUpload (world_processor E b) ev (w\<lparr>script := race_script E b x (clock w) now\<rparr>) = (Inr (), w') \<and>
    row_of (rows (sh w')) (upAvatarID ev) = Some y \<and> \<not> live y \<and> ProcessingStatus y = ProcessingStatusCompleted \<and>
    objects b (sh w') (upS3Key ev) = None \<and>
    objects b (sh w') (ThumbnailKey (upAvatarID ev) 100) = Some \<lparr>oType = ''image/jpeg'', oData = t1\<rparr> \<and>
    objects b (sh w') (ThumbnailKey (upAvatarID ev) 300) = Some \<lparr>oType = ''image/jpeg'', oData = t2\<rparr>"
proof -
  let ?i = "upAvatarID ev" and ?p = "world_processor E b" and ?turn = "(deletion E b x now, now, Answered)"
  let ?upd = "\<lambda>a. a\<lparr>ProcessingStatus := ProcessingStatusProcessing, UpdatedAt := clock w\<rparr>"
  obtain m where m: "buckets (sh w) b = Some m" using assms(7) by (auto simp: objects_def split: option.splits)
  have ID: "ID x = ?i" using row_of_Some [OF assms(3)] by simp
  define rs1 where "rs1 = update_where (\<lambda>a. ID a = ?i) ?upd (rows (sh w))"
  define w1 where "w1 = w\<lparr>sh := (sh w)\<lparr>rows := rs1\<rparr>\<rparr>"
  have quiet1: "script w1 = []" "clock w1 = clock w" and ob1: "objects b (sh w1) (upS3Key ev) = Some ob"
    using assms(2,7) by (simp_all add: w1_def objects_def)
  have ok1: "table_ok E rs1"
    unfolding rs1_def using good_worldD(3) [OF assms(1)]
    by (rule table_ok_update_where) (simp_all add: row_ok_def processing_status_enum_def)
  have row1: "row_of rs1 ?i = Some (?upd x)"
    using row_of_update_where [OF good_worldD(4) [OF assms(1)] assms(3), of ?upd "\<lambda>_. True"] by (simp add: rs1_def)
  have st: "pg_SetProcessingStatus E ?i ProcessingStatusProcessing w = (Inr (), w1)"
    using pg_exec_answered [OF assms(1-3), of "\<lambda>now a. a\<lparr>ProcessingStatus := ProcessingStatusProcessing, UpdatedAt := now\<rparr>"]
    by (simp add: pg_SetProcessingStatus_def w1_def rs1_def processing_status_enum_def)
  obtain y where del: "table_ok E (rows (deletion E b x now (sh w1)))" "row_of (rows (deletion E b x now (sh w1))) ?i = Some y"
    "\<not> live y" "buckets (deletion E b x now (sh w1)) b = Some (m |` (- set (delS3Keys (delete_event x))))"
    using deletion_effect [of E "sh w1" x "?upd x" b m now] good_worldD(1) [OF assms(1)] ok1 row1 assms(4) m
    by (auto simp: w1_def ID live_def)
  define w2 where "w2 = w1\<lparr>sh := deletion E b x now (sh w1), clock := now, script := []\<rparr>"
  have good2: "good_world E w2" using good_worldD(1) [OF assms(1)] del(1) quiet1 by (simp add: good_world_table w2_def)
  obtain w3 where w3: "make_thumbs ?p ev (oData ob) w2 = ((Inr (), statusOK), w3)" "sh w3 = (sh w2)\<lparr>
    rows := update_where (\<lambda>a. ID a = ?i) (\<lambda>a. a\<lparr>Thumbnails := thumb_keys ?i ThumbnailSizes,
      ProcessingStatus := ProcessingStatusCompleted, UpdatedAt := now\<rparr>) (rows (sh w2)),
    buckets := (buckets (sh w2))(b \<mapsto> (m |` (- set (delS3Keys (delete_event x))))(
      ThumbnailKey ?i 100 \<mapsto> \<lparr>oType = ''image/jpeg'', oData = t1\<rparr>,
      ThumbnailKey ?i 300 \<mapsto> \<lparr>oType = ''image/jpeg'', oData = t2\<rparr>))\<rparr>"
    using make_thumbs_answered [OF good2 _ _ _ assms(9,10), where b = b] del(2,4) quiet1 by (simp add: w2_def)
  have "make_thumbs ?p ev (oData ob) (w1\<lparr>script := [?turn]\<rparr>) = ((Inr (), statusOK), w3)"
    using make_thumbs_last_turn [OF assms(9)] w3(1) by (simp only: w2_def)
  then have "process_avatar ?p ev (w\<lparr>script := idle (clock w) # idle (clock w) # idle (clock w) # [?turn]\<rparr>) = ((Inr (), statusOK), w3)"
    using st s3_Get_idle [OF quiet1(1) ob1, of "[?turn]"] quiet1(2)
    by (simp add: process_avatar_def pg_SetProcessingStatus_def calls_idle [OF assms(2)])
  then have "HandleUpload ?p ev (w\<lparr>script := race_script E b x (clock w) now\<rparr>) = (Inr (), w3\<lparr>observed := observed w3 @ [(''upload'', statusOK)]\<rparr>)"
    using pg_GetByID_answered [OF assms(1-4)] assms(5)
    by (simp add: HandleUpload_def upload_body_def race_script_def numeral_eq_Suc calls_idle [OF assms(2)])
  moreover have "upS3Key ev \<in> set (delS3Keys (delete_event x))" "upS3Key ev \<noteq> ThumbnailKey ?i 100" "upS3Key ev \<noteq> ThumbnailKey ?i 300"
    using assms(6,8) by (auto simp: delete_event_def thumb_keyset_def ThumbnailSizes_def)
  moreover have "row_of (rows (sh w3)) ?i = Some (y\<lparr>Thumbnails := thumb_keys ?i ThumbnailSizes,
      ProcessingStatus := ProcessingStatusCompleted, UpdatedAt := now\<rparr>)"
    using row_of_update_where [OF good_worldD(4) [OF good2], of ?i y "\<lambda>a. a\<lparr>Thumbnails := thumb_keys ?i ThumbnailSizes,
      ProcessingStatus := ProcessingStatusCompleted, UpdatedAt := now\<rparr>" "\<lambda>_. True"] del(2)
    by (simp add: w3(2) w2_def)
  ultimately show ?thesis
    using del(3) by (simp add: w3(2) objects_def live_def)
qed

theorem delete_race_leaks_witness:
  "\<exists>w' y. HandleUpload (world_processor sample_env ''b'') sample_event ((sample_stored ''abcd'')\<lparr>script :=
      race_script sample_env ''b'' (sample_row ''a1'' 3 None) 50 55\<rparr>) = (Inr (), w') \<and>
    row_of (rows (sh w')) ''a1'' = Some y \<and> \<not> live y \<and> ProcessingStatus y = ''completed'' \<and>
    objects ''b'' (sh w') (ThumbnailKey ''a1'' 100) \<noteq> None"
proof -
  obtain t1 t2 where t: "Generate (world_imaging sample_env) ''abcd'' 100 = Inr t1"
    "Generate (world_imaging sample_env) ''abcd'' 300 = Inr t2" using sample_generate by metis
  let ?ob = "\<lparr>oType = ''image/png'', oData = ''abcd''\<rparr>"
  have row: "row_of (rows (sh (sample_stored ''abcd''))) (upAvatarID sample_event) = Some (sample_row ''a1'' 3 None)"
    by (simp add: row_of_def sample_rows_def)
  have key: "upS3Key sample_event \<notin> thumb_keyset (upAvatarID sample_event)" by (simp add: original_not_thumb)
  have g: "Generate (world_imaging sample_env) (oData ?ob) 100 = Inr t1" "Generate (world_imaging sample_env) (oData ?ob) 300 = Inr t2"
    using t by simp_all
  show ?thesis
    using delete_race_leaks [OF sample_good _ row _ _ _ _ key g, of "''b''" 55] by (simp add: sample_row_def live_def) blast
qed

end
