(* ===== verification/Listener.thy ===== *)
theory Listener
  imports Startup
begin

section \<open>The listening server (internal/server/httpserver/server.go, cmd/server)\<close>

text \<open>
  \<^verbatim>\<open>Server.ListenAndServe\<close>, \<^verbatim>\<open>Shutdown\<close> and \<^verbatim>\<open>Addr\<close>, and the two goroutines in which
  \<^verbatim>\<open>cmd/server\<close> runs them, as a step relation: at any moment a signal may arrive, the listener
  may fail, connections come and go. Of net/http the model has what is documented of
  \<^verbatim>\<open>Serve\<close> and \<^verbatim>\<open>Shutdown\<close>: a server that was shut down refuses to serve and makes a
  running \<^verbatim>\<open>Serve\<close> return \<^verbatim>\<open>ErrServerClosed\<close>; \<^verbatim>\<open>Shutdown\<close> closes the listener, waits until
  \<^verbatim>\<open>Serve\<close> has let go of it and no connection is active, and then returns the error of
  closing the listener, if any; it returns the error of its context when the deadline
  passes while connections are still active.
\<close>

subsection \<open>States\<close>

text \<open>The goroutine of ListenAndServe, before and after each of its three statements.\<close>

datatype serving = Listening | Bound | Accepting | Served "go_error option"

text \<open>The goroutine that waits for the end of the group's context and shuts down.\<close>

datatype stopping = Waiting | Draining | Stopped "go_error option"

record http_server =
  srvConfigured :: string
  srvReadHeaderTimeout :: nat
  srvAddr :: "string option"
  inShutdown :: bool
  closeErr :: "go_error option"
  active :: nat

record lifecycle =
  srv :: http_server
  serving_go :: serving
  stopping_go :: stopping
  signalled :: bool
  groupErr :: "go_error option"

definition readHeaderTimeout :: nat where "readHeaderTimeout = 5"

definition http_New :: "string \<Rightarrow> http_server" where
  "http_New addr = \<lparr>srvConfigured = addr, srvReadHeaderTimeout = readHeaderTimeout, srvAddr = None,
     inShutdown = False, closeErr = None, active = 0\<rparr>"

definition Addr :: "http_server \<Rightarrow> string option" where
  "Addr s = srvAddr s"

definition launched :: "Config \<Rightarrow> lifecycle" where
  "launched cfg = \<lparr>srv = http_New (RunAddress cfg), serving_go = Listening, stopping_go = Waiting,
     signalled = False, groupErr = None\<rparr>"

text \<open>The context of the group: done at a signal, or once a goroutine has returned an error.\<close>

definition group_done :: "lifecycle \<Rightarrow> bool" where
  "group_done g \<longleftrightarrow> signalled g \<or> groupErr g \<noteq> None"

definition returns :: "go_error option \<Rightarrow> lifecycle \<Rightarrow> lifecycle" where
  "returns e g = g\<lparr>groupErr := (case groupErr g of None \<Rightarrow> e | Some e0 \<Rightarrow> Some e0)\<rparr>"

subsection \<open>Steps\<close>

definition DeadlineExceeded :: go_error where
  "DeadlineExceeded = Net (NetMsg ''context deadline exceeded'')"

text \<open>
  What ListenAndServe does next: listen (the address the system binds is its choice),
  publish the address, serve. The system may refuse to listen.
\<close>

inductive ListenAndServe_step :: "http_server \<times> serving \<Rightarrow> http_server \<times> serving \<Rightarrow> bool" where
  listen_fails: "ListenAndServe_step (s, Listening) (s, Served (Some (Net x)))"
| listens: "ListenAndServe_step (s, Listening) (s\<lparr>srvAddr := Some a\<rparr>, Bound)"
| refuses: "inShutdown s \<Longrightarrow> ListenAndServe_step (s, Bound) (s, Served (Some ErrServerClosed))"
| serves: "\<not> inShutdown s \<Longrightarrow> ListenAndServe_step (s, Bound) (s, Accepting)"
| closed: "inShutdown s \<Longrightarrow> ListenAndServe_step (s, Accepting) (s, Served (Some ErrServerClosed))"

text \<open>
  Shutdown with a deadline: the first step closes the listener, with the outcome the system
  gives it; it ends when nothing is active or when the deadline has passed.
\<close>

inductive Shutdown_step :: "serving \<Rightarrow> http_server \<times> stopping \<Rightarrow> http_server \<times> stopping \<Rightarrow> bool" where
  shuts: "Shutdown_step v (s, Waiting) (s\<lparr>inShutdown := True, closeErr := e\<rparr>, Draining)"
| drained: "v \<noteq> Accepting \<Longrightarrow> active s = 0 \<Longrightarrow> Shutdown_step v (s, Draining) (s, Stopped (closeErr s))"
| deadline: "v \<noteq> Accepting \<Longrightarrow> active s \<noteq> 0 \<Longrightarrow> Shutdown_step v (s, Draining) (s, Stopped (Some DeadlineExceeded))"

text \<open>
  The group: the goroutine of ListenAndServe drops \<^verbatim>\<open>ErrServerClosed\<close>; the other one starts
  when the context is done. \<open>own_step\<close> are the steps of the program, \<open>env_step\<close> those of its
  surroundings.
\<close>

fun reported :: "serving \<Rightarrow> serving" where
  "reported (Served e) = Served (listen_result e)"
| "reported v = v"

fun serve_error :: "serving \<Rightarrow> go_error option" where
  "serve_error (Served e) = e"
| "serve_error _ = None"

fun stop_error :: "stopping \<Rightarrow> go_error option" where
  "stop_error (Stopped e) = e"
| "stop_error _ = None"

inductive own_step :: "lifecycle \<Rightarrow> lifecycle \<Rightarrow> bool" where
  serving_goes: "ListenAndServe_step (srv g, serving_go g) (s, v) \<Longrightarrow>
    own_step g (returns (serve_error (reported v)) (g\<lparr>srv := s, serving_go := reported v\<rparr>))"
| stopping_goes: "group_done g \<Longrightarrow> Shutdown_step (serving_go g) (srv g, stopping_go g) (s, t) \<Longrightarrow>
    own_step g (returns (stop_error t) (g\<lparr>srv := s, stopping_go := t\<rparr>))"

inductive env_step :: "lifecycle \<Rightarrow> lifecycle \<Rightarrow> bool" where
  signal: "env_step g (g\<lparr>signalled := True\<rparr>)"
| accept_fails: "serving_go g = Accepting \<Longrightarrow> \<not> inShutdown (srv g) \<Longrightarrow>
    env_step g (returns (listen_result (Some (Net x))) (g\<lparr>serving_go := Served (listen_result (Some (Net x)))\<rparr>))"
| connects: "serving_go g = Accepting \<Longrightarrow> env_step g (g\<lparr>srv := (srv g)\<lparr>active := Suc (active (srv g))\<rparr>\<rparr>)"
| finishes: "active (srv g) = Suc n \<Longrightarrow> env_step g (g\<lparr>srv := (srv g)\<lparr>active := n\<rparr>\<rparr>)"

definition life_step :: "lifecycle \<Rightarrow> lifecycle \<Rightarrow> bool" where
  "life_step g g' \<longleftrightarrow> own_step g g' \<or> env_step g g'"

inductive_simps listen_simps: "ListenAndServe_step (s, v) p"
inductive_simps shutdown_simps: "Shutdown_step v (s, t) p"
inductive_cases own_stepE: "own_step g g'"
inductive_cases env_stepE: "env_step g g'"

definition all_returned :: "lifecycle \<Rightarrow> bool" where
  "all_returned g \<longleftrightarrow> (\<exists>e. serving_go g = Served e) \<and> (\<exists>e. stopping_go g = Stopped e)"

subsection \<open>What every reachable state satisfies\<close>

definition life_inv :: "lifecycle \<Rightarrow> bool" where
  "life_inv g \<longleftrightarrow>
     (stopping_go g = Waiting \<longleftrightarrow> \<not> inShutdown (srv g)) \<and>
     (inShutdown (srv g) \<longrightarrow> group_done g) \<and>
     (\<forall>e. serving_go g = Served e \<longrightarrow> group_done g) \<and>
     (serving_go g = Listening \<longrightarrow> srvAddr (srv g) = None) \<and>
     (serving_go g \<in> {Bound, Accepting} \<longrightarrow> srvAddr (srv g) \<noteq> None) \<and>
     (\<forall>e. stopping_go g = Stopped e \<longrightarrow> serving_go g \<noteq> Accepting \<and>
        (active (srv g) \<noteq> 0 \<longrightarrow> e = Some DeadlineExceeded)) \<and>
     (groupErr g = None \<longrightarrow> serve_error (serving_go g) = None \<and> stop_error (stopping_go g) = None) \<and>
     (\<forall>e. groupErr g = Some e \<longrightarrow> serve_error (serving_go g) = Some e \<or> stop_error (stopping_go g) = Some e)"

lemma listen_result_simps [simp]:
  "listen_result (Some ErrServerClosed) = None" "listen_result (Some (Net x)) = Some (Net x)" "listen_result None = None"
  by (simp_all add: listen_result_def)

lemma life_inv_launched: "life_inv (launched cfg)"
  by (simp add: life_inv_def launched_def http_New_def)

lemma life_inv_own: "own_step g g' \<Longrightarrow> life_inv g \<Longrightarrow> life_inv g'"
  by (erule own_stepE; cases "serving_go g"; cases "stopping_go g")
     (auto simp: life_inv_def returns_def group_done_def listen_simps shutdown_simps split: option.splits)

lemma life_inv_env: "env_step g g' \<Longrightarrow> life_inv g \<Longrightarrow> life_inv g'"
  by (erule env_stepE) (auto simp: life_inv_def returns_def group_done_def split: option.splits)

lemma life_inv_reachable: "life_step\<^sup>*\<^sup>* (launched cfg) g \<Longrightarrow> life_inv g"
  by (induction rule: rtranclp_induct) (auto simp: life_step_def intro: life_inv_launched life_inv_own life_inv_env)

lemma addr_stays: "life_step g g' \<Longrightarrow> life_inv g \<Longrightarrow> Addr (srv g) = Some a \<Longrightarrow> Addr (srv g') = Some a"
  unfolding life_step_def
  by (elim disjE own_stepE env_stepE; cases "serving_go g"; cases "stopping_go g")
     (auto simp: life_inv_def Addr_def returns_def listen_simps shutdown_simps)

text \<open>
  C34: the server neither ends in silence nor cuts a request in silence. Whatever the
  interleaving of the two goroutines, signals, connections and failures: the group's
  result is the first error of its members; it is no error only if a signal asked for the
  end and no connection is left active; and Addr knows the bound address from before the
  first connection on and never changes it.
\<close>

theorem server_lifecycle:
  assumes "life_step\<^sup>*\<^sup>* (launched cfg) g"
  shows "(all_returned g \<longrightarrow> groupErr g \<in> {group_Wait [serve_error (serving_go g), stop_error (stopping_go g)],
        group_Wait [stop_error (stopping_go g), serve_error (serving_go g)]}) \<and>
    (all_returned g \<longrightarrow> groupErr g = None \<longrightarrow> signalled g \<and> active (srv g) = 0) \<and>
    (serving_go g \<in> {Bound, Accepting} \<longrightarrow> Addr (srv g) \<noteq> None) \<and>
    (\<forall>g' a. life_step g g' \<longrightarrow> Addr (srv g) = Some a \<longrightarrow> Addr (srv g') = Some a)"
proof (intro conjI impI allI)
  note inv = life_inv_reachable [OF assms]
  show "groupErr g \<in> {group_Wait [serve_error (serving_go g), stop_error (stopping_go g)],
        group_Wait [stop_error (stopping_go g), serve_error (serving_go g)]}"
    using inv
    by (cases "groupErr g"; cases "serve_error (serving_go g)"; cases "stop_error (stopping_go g)")
       (auto simp: life_inv_def)
  assume "all_returned g" "groupErr g = None"
  with inv show "signalled g" "active (srv g) = 0"
    by (auto simp: life_inv_def all_returned_def group_done_def)
next
  assume "serving_go g \<in> {Bound, Accepting}"
  with life_inv_reachable [OF assms] show "Addr (srv g) \<noteq> None" by (auto simp: life_inv_def Addr_def)
qed (use addr_stays life_inv_reachable [OF assms] in blast)

subsection \<open>The server stops\<close>

text \<open>How many steps the two goroutines still have.\<close>

fun steps_left :: "serving \<Rightarrow> nat" where
  "steps_left Listening = 3"
| "steps_left Bound = 2"
| "steps_left Accepting = 1"
| "steps_left (Served _) = 0"

fun stops_left :: "stopping \<Rightarrow> nat" where
  "stops_left Waiting = 2"
| "stops_left Draining = 1"
| "stops_left (Stopped _) = 0"

lemma own_step_left:
  "own_step g g' \<Longrightarrow> steps_left (serving_go g') + stops_left (stopping_go g') < steps_left (serving_go g) + stops_left (stopping_go g)"
  by (erule own_stepE; cases "serving_go g"; cases "stopping_go g") (auto simp: returns_def listen_simps shutdown_simps)

lemma own_steps_left:
  "(own_step ^^ n) g g' \<Longrightarrow> n + steps_left (serving_go g') + stops_left (stopping_go g') \<le> steps_left (serving_go g) + stops_left (stopping_go g)"
  by (induction n arbitrary: g') (auto dest!: own_step_left, fastforce)

lemma own_step_done: "own_step g g' \<Longrightarrow> group_done g \<Longrightarrow> group_done g'"
  by (erule own_stepE) (auto simp: group_done_def returns_def split: option.splits)

lemma own_progress:
  assumes "life_inv g" and "group_done g" and "\<not> all_returned g"
  shows "\<exists>g'. own_step g g'"
proof -
  have "\<exists>p. ListenAndServe_step (srv g, serving_go g) p" if "\<forall>e. serving_go g \<noteq> Served e" "serving_go g = Accepting \<longrightarrow> inShutdown (srv g)"
    using that by (cases "serving_go g"; cases "inShutdown (srv g)") (auto simp: listen_simps)
  moreover have "\<exists>p. Shutdown_step (serving_go g) (srv g, stopping_go g) p"
    if "\<forall>e. stopping_go g \<noteq> Stopped e" "serving_go g = Accepting \<longrightarrow> stopping_go g = Waiting"
    using that by (cases "stopping_go g"; cases "active (srv g)") (auto simp: shutdown_simps)
  moreover have "stopping_go g = Waiting \<longleftrightarrow> \<not> inShutdown (srv g)" using assms(1) by (simp add: life_inv_def)
  ultimately have "(\<exists>s v. ListenAndServe_step (srv g, serving_go g) (s, v)) \<or> (\<exists>s t. Shutdown_step (serving_go g) (srv g, stopping_go g) (s, t))"
    using assms(3) by (cases "serving_go g"; cases "stopping_go g") (auto simp: all_returned_def)
  then show ?thesis
  proof (elim disjE exE)
    fix s v
    assume "ListenAndServe_step (srv g, serving_go g) (s, v)"
    then show ?thesis using serving_goes by blast
  next
    fix s t
    assume "Shutdown_step (serving_go g) (srv g, stopping_go g) (s, t)"
    then show ?thesis using stopping_goes [OF assms(2)] by blast
  qed
qed

lemma own_finish:
  assumes "life_inv g" and "group_done g"
  shows "\<exists>m g'. (own_step ^^ m) g g' \<and> all_returned g'"
  using assms
proof (induction "steps_left (serving_go g) + stops_left (stopping_go g)" arbitrary: g rule: less_induct)
  case less
  show ?case
  proof (cases "all_returned g")
    case True
    then show ?thesis by (intro exI [of _ 0] exI [of _ g]) simp
  next
    case False
    obtain h where h: "own_step g h" using own_progress [OF less.prems False] by blast
    obtain m g' where "(own_step ^^ m) h g'" "all_returned g'"
      using less.hyps [OF own_step_left [OF h] life_inv_own [OF h less.prems(1)] own_step_done [OF h less.prems(2)]] by blast
    with relpowp_Suc_I2 [of own_step g h m g'] h show ?thesis by blast
  qed
qed

text \<open>
  C35: the server stops. Once its context is done, by a signal or by the failure of one of
  the goroutines, at most five steps of its own remain, however they are ordered, whether
  or not clients ever finish; and as long as they have not both returned, a next step is
  possible, so every such run can be completed.
\<close>

theorem server_stops:
  assumes "life_step\<^sup>*\<^sup>* (launched cfg) g" and "group_done g" and "(own_step ^^ n) g g'"
  shows "n \<le> 5 \<and> (\<not> all_returned g' \<longrightarrow> (\<exists>h. own_step g' h)) \<and> (\<exists>m h. (own_step ^^ m) g' h \<and> all_returned h)"
proof -
  have "life_inv g' \<and> group_done g'"
    using assms(3)
    by (induction n arbitrary: g')
       (auto simp: life_inv_reachable [OF assms(1)] assms(2) dest: life_inv_own own_step_done)
  moreover have "steps_left (serving_go g) \<le> 3" "stops_left (stopping_go g) \<le> 2"
    by (cases "serving_go g"; simp) (cases "stopping_go g"; simp)
  then have "n \<le> 5" using own_steps_left [OF assms(3)] by linarith
  ultimately show ?thesis using own_progress own_finish by blast
qed

subsection \<open>A concrete run\<close>

text \<open>The signal comes before the server listens: it binds its address, and then refuses to serve.\<close>

definition stage :: "http_server \<Rightarrow> serving \<Rightarrow> stopping \<Rightarrow> lifecycle" where
  "stage s v t = \<lparr>srv = s, serving_go = v, stopping_go = t, signalled = True, groupErr = None\<rparr>"

lemma stage_serving:
  "ListenAndServe_step (s, v) (s', v') \<Longrightarrow> reported v' = v'' \<Longrightarrow> serve_error v'' = None \<Longrightarrow>
   life_step (stage s v t) (stage s' v'' t)"
  using serving_goes [of "stage s v t" s' v'] by (simp add: life_step_def stage_def returns_def)

lemma stage_stopping:
  "Shutdown_step v (s, t) (s', t') \<Longrightarrow> stop_error t' = None \<Longrightarrow> life_step (stage s v t) (stage s' v t')"
  using stopping_goes [of "stage s v t" s' t'] by (simp add: life_step_def stage_def returns_def group_done_def)

lemma early_signal:
  "life_step (launched default_config) (stage (http_New '':8080'') Listening Waiting)"
  "life_step\<^sup>*\<^sup>* (stage (http_New '':8080'') Listening Waiting)
     (stage ((http_New '':8080'')\<lparr>inShutdown := True, srvAddr := Some ''a''\<rparr>) (Served None) (Stopped None))"
proof -
  let ?s0 = "http_New '':8080''"
  let ?s1 = "?s0\<lparr>inShutdown := True, closeErr := None\<rparr>"
  let ?s2 = "?s1\<lparr>srvAddr := Some ''a''\<rparr>"
  have "stage ?s0 Listening Waiting = (launched default_config)\<lparr>signalled := True\<rparr>"
    by (simp add: stage_def launched_def default_config_def)
  then show "life_step (launched default_config) (stage ?s0 Listening Waiting)"
    by (simp add: life_step_def env_step.intros)
  have a: "life_step (stage ?s0 Listening Waiting) (stage ?s1 Listening Draining)"
    by (rule stage_stopping) (auto simp: shutdown_simps)
  have b: "life_step (stage ?s1 Listening Draining) (stage ?s2 Bound Draining)"
    by (rule stage_serving [where v' = Bound]) (auto simp: listen_simps)
  have c: "life_step (stage ?s2 Bound Draining) (stage ?s2 (Served None) Draining)"
    by (rule stage_serving [where v' = "Served (Some ErrServerClosed)"]) (auto simp: listen_simps)
  have d: "life_step (stage ?s2 (Served None) Draining) (stage ?s2 (Served None) (Stopped None))"
    by (rule stage_stopping) (auto simp: shutdown_simps http_New_def)
  have eq: "?s2 = ?s0\<lparr>inShutdown := True, srvAddr := Some ''a''\<rparr>" by (simp add: http_New_def)
  have "life_step\<^sup>*\<^sup>* (stage ?s0 Listening Waiting) (stage ?s2 (Served None) (Stopped None))"
    by (rule converse_rtranclp_into_rtranclp [OF a converse_rtranclp_into_rtranclp [OF b
        converse_rtranclp_into_rtranclp [OF c r_into_rtranclp [of life_step, OF d]]]])
  then show "life_step\<^sup>*\<^sup>* (stage ?s0 Listening Waiting)
      (stage (?s0\<lparr>inShutdown := True, srvAddr := Some ''a''\<rparr>) (Served None) (Stopped None))"
    by (simp only: eq)
qed

theorem server_lifecycle_witness:
  "\<exists>g. life_step\<^sup>*\<^sup>* (launched default_config) g \<and> all_returned g \<and> groupErr g = None \<and> signalled g \<and> active (srv g) = 0"
proof -
  let ?g = "stage ((http_New '':8080'')\<lparr>inShutdown := True, srvAddr := Some ''a''\<rparr>) (Served None) (Stopped None)"
  have g: "life_step\<^sup>*\<^sup>* (launched default_config) ?g" by (rule converse_rtranclp_into_rtranclp [OF early_signal])
  moreover have "all_returned ?g" "groupErr ?g = None" by (simp_all add: all_returned_def stage_def)
  ultimately show ?thesis using server_lifecycle [OF g] by blast
qed

theorem server_stops_witness:
  "\<exists>g m h. life_step\<^sup>*\<^sup>* (launched default_config) g \<and> (own_step ^^ m) g h \<and> all_returned h"
proof -
  let ?g = "stage (http_New '':8080'') Listening Waiting"
  have "life_step\<^sup>*\<^sup>* (launched default_config) ?g" using early_signal(1) by blast
  moreover have "group_done ?g" "(own_step ^^ 0) ?g ?g" by (simp_all add: group_done_def stage_def)
  ultimately show ?thesis using server_stops by blast
qed

end
