(* ===== verification/Catalogue.thy ===== *)
theory Catalogue
  imports Pipeline
begin

section \<open>What the service is to its users\<close>

text \<open>
  The abstract specification of the whole system: a catalogue that maps the id of every
  avatar to its owner, content type, time and bytes. Uploads add an entry, deletions of the owner
  remove it, the jobs of the worker change nothing. The theory shows that the table, the
  bucket and the queues implement it: in every reachable state, with any faults, each
  operation of server and worker is a step of the specification or leaves the catalogue as
  it is, and what a file request streams is the entry's content.
\<close>

subsection \<open>The specification\<close>

record entry =
  owner :: string
  kind :: string
  since :: int
  content :: "bytes option"

type_synonym catalogue = "string \<rightharpoonup> entry"

text \<open>
  The steps: an upload adds an entry under a new id, with the client's bytes, or, when it
  reports an error after the fact, possibly without; the owner's request removes one, the
  one asked for or the newest of the user's own. A request that is refused or fails may
  leave everything as it is; that one that reports success has had its effect is stated
  beside the steps, with the result it returns.
\<close>

inductive spec_step :: "env \<Rightarrow> job \<Rightarrow> catalogue \<Rightarrow> catalogue \<Rightarrow> bool" for E where
  stays: "spec_step E j c c"
| adds: "c i = None \<Longrightarrow> varchar_in E 255 uid = Some (owner e) \<Longrightarrow> content e \<in> {None, Some data} \<Longrightarrow>
    spec_step E (UploadJob uid name data) c (c(i \<mapsto> e))"
| removes: "uuid_in E i = Some u \<Longrightarrow> c u = Some e \<Longrightarrow> owner e = req \<Longrightarrow>
    spec_step E (DeleteJob i req) c (c(u := None))"
| removes_latest: "c u = Some e \<Longrightarrow> owner e = req \<Longrightarrow>
    (\<And>i f. c i = Some f \<Longrightarrow> owner f = req \<Longrightarrow> since f \<le> since e) \<Longrightarrow>
    spec_step E (DeleteLatestJob req req) c (c(u := None))"

subsection \<open>The abstraction\<close>

definition entry_of :: "(string \<rightharpoonup> object) \<Rightarrow> avatar \<Rightarrow> entry" where
  "entry_of objs a = \<lparr>owner = UserID a, kind = MimeType a, since = CreatedAt a,
     content = map_option oData (objs (S3Key a))\<rparr>"

definition abstract :: "view \<Rightarrow> catalogue" where
  "abstract v i = (case vRow v i of None \<Rightarrow> None
     | Some a \<Rightarrow> if live a then Some (entry_of (vObj v) a) else None)"

subsection \<open>What the components keep together\<close>

text \<open>
  PostgreSQL reads only plain ASCII as a UUID, and a key that is stored is stored as it is.
\<close>

definition ids_plain :: "env \<Rightarrow> bool" where
  "ids_plain E \<longleftrightarrow> (\<forall>i u. uuid_in E i = Some u \<longrightarrow>
     list_all (\<lambda>c. of_char c < (128 :: nat)) i \<and> list_all (\<lambda>c. of_char c < (128 :: nat)) u)"

text \<open>The keys that belong to one avatar. Keys of different avatars are different.\<close>

definition own_keys :: "env \<Rightarrow> string \<Rightarrow> string set" where
  "own_keys E u = {OriginalKey i | i. uuid_in E i = Some u} \<union> thumb_keyset u"

lemma own_keys_disjoint: "k \<in> own_keys E u \<Longrightarrow> k \<in> own_keys E u' \<Longrightarrow> u = u'"
  by (auto simp: own_keys_def thumb_keyset_def)

definition row_keyed :: "env \<Rightarrow> avatar \<Rightarrow> bool" where
  "row_keyed E a \<longleftrightarrow> (\<exists>i. uuid_in E i = Some (ID a) \<and> S3Key a = OriginalKey i) \<and>
     snd ` set (Thumbnails a) \<subseteq> thumb_keyset (ID a)"

lemma row_keyed_own: "row_keyed E a \<Longrightarrow> set (delS3Keys (delete_event a)) \<subseteq> own_keys E (ID a)"
  by (auto simp: row_keyed_def own_keys_def delete_event_def)

text \<open>
  Every message that was accepted tells of a row: an upload event of its key, a delete
  event of a deleted row and of keys of its own.
\<close>

definition known_msg :: "env \<Rightarrow> (string \<rightharpoonup> avatar) \<Rightarrow> message \<Rightarrow> bool" where
  "known_msg E rw m \<longleftrightarrow> (\<exists>a. rw (ID a) = Some a \<and>
     (m = upload_message E (upload_event a) \<or>
      \<not> live a \<and> (\<exists>ks. set ks \<subseteq> own_keys E (ID a) \<and> m = delete_message E \<lparr>delAvatarID = ID a, delS3Keys = ks\<rparr>)))"

definition keyed :: "env \<Rightarrow> view \<Rightarrow> bool" where
  "keyed E v \<longleftrightarrow> (\<forall>i a. vRow v i = Some a \<longrightarrow> ID a = i \<and> row_keyed E a) \<and>
     (\<forall>i. vObj v (OriginalKey i) \<noteq> None \<longrightarrow> (\<exists>a. vRow v (ID a) = Some a \<and> S3Key a = OriginalKey i)) \<and>
     (\<forall>m \<in> set (vMsgs v). known_msg E (vRow v) m)"

lemma keyedD:
  assumes "keyed E v"
  shows "vRow v i = Some a \<Longrightarrow> ID a = i \<and> row_keyed E a"
    and "vObj v (OriginalKey j) \<noteq> None \<Longrightarrow> \<exists>a. vRow v (ID a) = Some a \<and> S3Key a = OriginalKey j"
    and "m \<in> set (vMsgs v) \<Longrightarrow> known_msg E (vRow v) m"
  using assms unfolding keyed_def by blast+

text \<open>A row may change, but not its identity; a deleted row stays deleted.\<close>

lemma known_msg_update:
  assumes "known_msg E rw m" and "rw i = Some x" and "same_record x y"
  shows "known_msg E (rw(i \<mapsto> y)) m"
proof -
  obtain a where a: "rw (ID a) = Some a" and m: "m = upload_message E (upload_event a) \<or>
      \<not> live a \<and> (\<exists>ks. set ks \<subseteq> own_keys E (ID a) \<and> m = delete_message E \<lparr>delAvatarID = ID a, delS3Keys = ks\<rparr>)"
    using assms(1) by (auto simp: known_msg_def)
  show ?thesis
  proof (cases "ID a = i")
    case True
    then have "x = a" using a assms(2) by simp
    then have y: "ID y = ID a" "upload_event y = upload_event a" "\<not> live a \<Longrightarrow> \<not> live y"
      using assms(3) by (auto simp: same_record_def upload_event_def live_def)
    with m True show ?thesis unfolding known_msg_def by (intro exI [of _ y]) auto
  next
    case False
    with a m show ?thesis unfolding known_msg_def by (intro exI [of _ a]) simp
  qed
qed

lemma keyed_update:
  assumes "keyed E v" and "vRow v i = Some x" and "same_record x y" and "row_keyed E y"
    and "vRow v' = (vRow v)(i \<mapsto> y)" and "\<And>j. vObj v' (OriginalKey j) \<noteq> None \<Longrightarrow> vObj v (OriginalKey j) \<noteq> None"
    and "vMsgs v' = vMsgs v @ ms" and "\<And>m. m \<in> set ms \<Longrightarrow> known_msg E (vRow v') m"
  shows "keyed E v'"
  unfolding keyed_def
proof (intro conjI allI impI ballI)
  have x: "ID x = i" "row_keyed E x" using assms(1,2) by (auto simp: keyed_def)
  fix j a
  assume "vRow v' j = Some a"
  then show "ID a = j" "row_keyed E a"
    using assms(1,4,5) x(1) assms(3) by (auto simp: keyed_def same_record_def split: if_splits)
next
  fix j
  assume "vObj v' (OriginalKey j) \<noteq> None"
  then obtain a where a: "vRow v (ID a) = Some a" "S3Key a = OriginalKey j"
    using keyedD(2) [OF assms(1) assms(6)] by blast
  have x: "ID x = i" using keyedD(1) [OF assms(1,2)] by simp
  show "\<exists>a. vRow v' (ID a) = Some a \<and> S3Key a = OriginalKey j"
  proof (cases "ID a = i")
    case True
    then have "x = a" using a assms(2) by simp
    with assms(3) a True show ?thesis by (intro exI [of _ y]) (simp add: assms(5) same_record_def)
  next
    case False
    with a show ?thesis by (intro exI [of _ a]) (simp add: assms(5))
  qed
next
  fix m
  assume "m \<in> set (vMsgs v')"
  then show "known_msg E (vRow v') m"
    using assms(1,7,8) known_msg_update [where rw = "vRow v", OF _ assms(2,3)] by (auto simp: keyed_def assms(5))
qed

lemma abstract_unchanged:
  assumes "keyed E v" and "vRow v i = Some x" and "same_record x y" and "DeletedAt y = DeletedAt x"
    and "vRow v' = (vRow v)(i \<mapsto> y)"
    and "\<And>j a. vRow v j = Some a \<Longrightarrow> live a \<Longrightarrow> vObj v' (S3Key a) = vObj v (S3Key a)"
  shows "abstract v' = abstract v"
proof
  fix j
  show "abstract v' j = abstract v j"
    using assms(2-6)
    by (cases "j = i"; cases "vRow v j") (auto simp: abstract_def entry_of_def same_record_def live_def)
qed

lemma abstract_deleted:
  assumes "vRow v i = Some x" and "\<not> live y" and "vRow v' = (vRow v)(i \<mapsto> y)" and "vObj v' = vObj v"
  shows "abstract v' = (abstract v)(i := None)"
proof
  fix j
  show "abstract v' j = ((abstract v)(i := None)) j"
    using assms(2) by (simp add: abstract_def entry_of_def assms(3,4) split: option.split)
qed

text \<open>A new row comes under a key that no object has, and no live row shares.\<close>

lemma fresh_key:
  assumes "keyed E v" and "vRow v (ID a) = None" and "uuid_in E j = Some (ID a)" and "S3Key a = OriginalKey j"
  shows "vObj v (S3Key a) = None" and "vRow v i = Some x \<Longrightarrow> S3Key x \<noteq> S3Key a"
proof -
  show other: "S3Key x \<noteq> S3Key a" if "vRow v i = Some x" for i x
  proof
    assume "S3Key x = S3Key a"
    moreover have "row_keyed E x" "ID x = i" using assms(1) that by (auto simp: keyed_def)
    ultimately have "uuid_in E j = Some i" using assms(4) by (auto simp: row_keyed_def)
    with assms(2,3) that show False by simp
  qed
  show "vObj v (S3Key a) = None"
  proof (rule ccontr)
    assume "vObj v (S3Key a) \<noteq> None"
    then obtain x where "vRow v (ID x) = Some x" "S3Key x = OriginalKey j"
      using keyedD(2) [OF assms(1), of j] assms(4) by auto
    with other [of "ID x" x] assms(4) show False by simp
  qed
qed

lemma keyed_insert:
  assumes "keyed E v" and "vRow v (ID a) = None" and "uuid_in E j = Some (ID a)" and "S3Key a = OriginalKey j"
    and "Thumbnails a = []" and "live a" and "vRow v' = (vRow v)(ID a \<mapsto> a)"
    and "vObj v' = vObj v \<or> vObj v' = (vObj v)(S3Key a \<mapsto> ob)" and "vMsgs v' = vMsgs v @ ms"
    and "\<And>m. m \<in> set ms \<Longrightarrow> known_msg E (vRow v') m"
  shows "keyed E v'" and "abstract v' = (abstract v)(ID a \<mapsto> entry_of (vObj v') a)"
    and "content (entry_of (vObj v') a) \<in> {None, Some (oData ob)}" "abstract v (ID a) = None"
proof -
  note fresh = fresh_key [OF assms(1-4)]
  show "keyed E v'"
    unfolding keyed_def
  proof (intro conjI allI impI ballI)
    fix i x
    assume "vRow v' i = Some x"
    then show "ID x = i" "row_keyed E x"
      using assms(1,3,4,5) by (auto simp: assms(7) keyed_def row_keyed_def split: if_splits)
  next
    fix i
    assume "vObj v' (OriginalKey i) \<noteq> None"
    then consider "OriginalKey i = S3Key a" | "vObj v (OriginalKey i) \<noteq> None" using assms(8) by (auto split: if_splits)
    then show "\<exists>x. vRow v' (ID x) = Some x \<and> S3Key x = OriginalKey i"
    proof cases
      case 1
      then show ?thesis by (intro exI [of _ a]) (simp add: assms(7))
    next
      case 2
      then obtain x where "vRow v (ID x) = Some x" "S3Key x = OriginalKey i"
        using keyedD(2) [OF assms(1)] by blast
      with assms(2) show ?thesis by (intro exI [of _ x]) (auto simp: assms(7))
    qed
  next
    fix m
    assume "m \<in> set (vMsgs v')"
    moreover have "known_msg E (vRow v') m" if "known_msg E (vRow v) m"
      using that assms(2) unfolding known_msg_def assms(7) by (metis fun_upd_other option.distinct(1))
    ultimately show "known_msg E (vRow v') m"
      using assms(1,9,10) by (auto simp: keyed_def)
  qed
  show "abstract v' = (abstract v)(ID a \<mapsto> entry_of (vObj v') a)"
  proof
    fix i
    show "abstract v' i = ((abstract v)(ID a \<mapsto> entry_of (vObj v') a)) i"
      using assms(6,8) fresh(2) by (cases "i = ID a") (auto simp: abstract_def assms(7) entry_of_def split: option.split)
  qed
  show "content (entry_of (vObj v') a) \<in> {None, Some (oData ob)}"
    using assms(8) fresh(1) by (auto simp: entry_of_def)
  show "abstract v (ID a) = None" by (simp add: abstract_def assms(2))
qed

subsection \<open>Each operation is a step\<close>

abbreviation cat :: "string \<Rightarrow> world \<Rightarrow> catalogue" where
  "cat b w \<equiv> abstract (world_view b w)"

definition sim :: "env \<Rightarrow> string \<Rightarrow> job \<Rightarrow> world \<Rightarrow> world \<Rightarrow> bool" where
  "sim E b j w w' \<longleftrightarrow> good_world E w' \<and> keyed E (world_view b w') \<and> spec_step E j (cat b w) (cat b w')"

lemma sim_same_view:
  "good_world E w' \<Longrightarrow> keyed E (world_view b w) \<Longrightarrow> world_view b w' = world_view b w \<Longrightarrow> sim E b j w w'"
  by (simp add: sim_def spec_step.stays)

lemma upload_message_of:
  "upload_message E \<lparr>upAvatarID = ID a, upUserID = UserID a, upS3Key = S3Key a\<rparr> = upload_message E (upload_event a)"
  by (simp add: upload_event_def)

lemma upload_inserts:
  assumes "keys_exact E" and keyed: "keyed E (world_view b w)"
    and acc: "\<exists>now. new_row E now (upload_record (world_service E b) uid name data i) = Some x"
    and none: "vRow (world_view b w) (ID x) = None"
    and y: "y = x\<lparr>UploadStatus := st, UpdatedAt := now\<rparr>"
    and row: "vRow (world_view b w') = (vRow (world_view b w))(ID x \<mapsto> y)"
    and obj: "vObj (world_view b w') = vObj (world_view b w) \<or>
      vObj (world_view b w') = (vObj (world_view b w))(S3Key x \<mapsto> \<lparr>oType = MimeType x, oData = data\<rparr>)"
    and ms: "vMsgs (world_view b w') = vMsgs (world_view b w) @ ms" "ms \<in> {[], [upload_message E (upload_event x)]}"
  shows "keyed E (world_view b w')" and "cat b w' = (cat b w)(ID x \<mapsto> entry_of (vObj (world_view b w')) y)"
    and "spec_step E (UploadJob uid name data) (cat b w) (cat b w')"
proof -
  obtain t where "new_row E t (upload_record (world_service E b) uid name data i) = Some x" using acc by blast
  note f = new_row_fields [OF this]
  have key: "S3Key x = OriginalKey i" and id': "uuid_in E i = Some (ID x)" and uid': "varchar_in E 255 uid = Some (UserID x)"
    using f assms(1) by (auto simp: keys_exact_def upload_record_def split: prod.splits)
  have yf: "ID y = ID x" "S3Key y = OriginalKey i" "Thumbnails y = []" "live y" "UserID y = UserID x" "upload_event y = upload_event x"
    using y f key by (simp_all add: live_def upload_event_def)
  have known: "known_msg E (vRow (world_view b w')) m" if "m \<in> set ms" for m
    using that ms(2) row yf(1,6) unfolding known_msg_def by (intro exI [of _ y]) auto
  have pre: "vRow (world_view b w) (ID y) = None" "uuid_in E i = Some (ID y)"
    "vRow (world_view b w') = (vRow (world_view b w))(ID y \<mapsto> y)"
    "vObj (world_view b w') = vObj (world_view b w) \<or>
      vObj (world_view b w') = (vObj (world_view b w))(S3Key y \<mapsto> \<lparr>oType = MimeType x, oData = data\<rparr>)"
    using none id' row obj yf(1,2) key by (simp_all only:)
  have ins: "keyed E (world_view b w')" "cat b w' = (cat b w)(ID y \<mapsto> entry_of (vObj (world_view b w')) y)"
    "content (entry_of (vObj (world_view b w')) y) \<in> {None, Some (oData \<lparr>oType = MimeType x, oData = data\<rparr>)}"
    "cat b w (ID y) = None"
    by (rule keyed_insert [OF keyed pre(1,2) yf(2,3,4) pre(3,4) ms(1)], erule known)+
  show "keyed E (world_view b w')" by (rule ins(1))
  show eq: "cat b w' = (cat b w)(ID x \<mapsto> entry_of (vObj (world_view b w')) y)" using ins(2) by (simp only: yf(1))
  have "spec_step E (UploadJob uid name data) (cat b w) ((cat b w)(ID y \<mapsto> entry_of (vObj (world_view b w')) y))"
    by (rule spec_step.adds) (use ins(3,4) uid' yf(5) in \<open>simp_all add: entry_of_def\<close>)
  then show "spec_step E (UploadJob uid name data) (cat b w) (cat b w')" by (simp only: ins(2))
qed

lemma sim_Upload:
  assumes "keys_exact E" and good: "good_world E w" and keyed: "keyed E (world_view b w)"
    and run: "svc_Upload (world_service E b) uid name data w = (r, w')"
  shows "sim E b (UploadJob uid name data) w w'"
    and "r = Inr a \<Longrightarrow> cat b w (ID a) = None \<and>
      cat b w' = (cat b w)(ID a \<mapsto> \<lparr>owner = UserID a, kind = MimeType a, since = CreatedAt a, content = Some data\<rparr>)"
proof -
  have ok: "sim E b (UploadJob uid name data) w w' \<and> cat b w (ID a) = None \<and>
      cat b w' = (cat b w)(ID a \<mapsto> \<lparr>owner = UserID a, kind = MimeType a, since = CreatedAt a, content = Some data\<rparr>)" if r: "r = Inr a" for a
  proof -
    from svc.Upload_ok [OF good run [unfolded r]] obtain x i now ms where up: "good_world E w'"
      "\<exists>now. new_row E now (upload_record (world_service E b) uid name data i) = Some x" "vRow (world_view b w) (ID x) = None"
      and a: "a = x\<lparr>UploadStatus := UploadStatusUploaded\<rparr>" and ms: "ms \<in> {[], [upload_message E (upload_event x)]}"
      and v: "world_view b w' = (world_view b w)\<lparr>
         vRow := (vRow (world_view b w))(ID x \<mapsto> x\<lparr>UploadStatus := UploadStatusUploaded, UpdatedAt := now\<rparr>),
         vObj := (vObj (world_view b w))(S3Key x \<mapsto> \<lparr>oType = MimeType x, oData = data\<rparr>),
         vMsgs := vMsgs (world_view b w) @ ms\<rparr>"
      unfolding upload_message_of by blast
    have fields: "vRow (world_view b w') = (vRow (world_view b w))(ID x \<mapsto> x\<lparr>UploadStatus := UploadStatusUploaded, UpdatedAt := now\<rparr>)"
      "vObj (world_view b w') = (vObj (world_view b w))(S3Key x \<mapsto> \<lparr>oType = MimeType x, oData = data\<rparr>)"
      "vMsgs (world_view b w') = vMsgs (world_view b w) @ ms"
      using world_viewD [OF v] by simp_all
    note ins = upload_inserts [OF assms(1) keyed up(2,3) refl fields(1) disjI2 [OF fields(2)] fields(3) ms]
    have "cat b w' = (cat b w)(ID a \<mapsto> \<lparr>owner = UserID a, kind = MimeType a, since = CreatedAt a, content = Some data\<rparr>)"
      unfolding ins(2) a by (simp only: fields(2)) (simp add: entry_of_def)
    moreover have "cat b w (ID a) = None" using up(3) a by (simp add: abstract_def)
    ultimately show ?thesis using up(1) ins(1,3) by (simp add: sim_def)
  qed
  show "r = Inr a \<Longrightarrow> cat b w (ID a) = None \<and>
      cat b w' = (cat b w)(ID a \<mapsto> \<lparr>owner = UserID a, kind = MimeType a, since = CreatedAt a, content = Some data\<rparr>)"
    using ok by blast
  show "sim E b (UploadJob uid name data) w w'"
  proof (cases r)
    case (Inl e)
    from svc.Upload_failed [OF good run [unfolded Inl]] have good': "good_world E w'" by blast
    from svc.Upload_failed [OF good run [unfolded Inl]] consider "world_view b w' = world_view b w" |
      (added) x i y objs st now where "\<exists>now. new_row E now (upload_record (world_service E b) uid name data i) = Some x"
        "vRow (world_view b w) (ID x) = None" "y = x\<lparr>UploadStatus := st, UpdatedAt := now\<rparr>"
        "world_view b w' = (world_view b w)\<lparr>vRow := (vRow (world_view b w))(ID x \<mapsto> y), vObj := objs\<rparr>"
        "objs = vObj (world_view b w) \<or> objs = (vObj (world_view b w))(S3Key x \<mapsto> \<lparr>oType = MimeType x, oData = data\<rparr>)"
      by blast
    then show ?thesis
    proof cases
      case 1
      then show ?thesis by (rule sim_same_view [OF good' keyed])
    next
      case added
      note v = world_viewD [OF added(4)]
      have "keyed E (world_view b w')" "spec_step E (UploadJob uid name data) (cat b w) (cat b w')"
        by (rule upload_inserts [OF assms(1) keyed added(1,2,3), where ms = "[]"]; use v added(5) in simp)+
      with good' show ?thesis by (simp add: sim_def)
    qed
  qed (use ok in blast)
qed

lemma GetByID_id:
  assumes "pg_GetByID E i w = (Inr a, w')"
  shows "uuid_in E i = Some (ID a)"
proof -
  have act: "fst (sql_select_by_id E i now s) = Inr a \<Longrightarrow> uuid_in E i = Some (ID a)" for now s
    by (auto simp: sql_select_by_id_def split: option.splits dest!: find_SomeD)
  have "\<exists>w1. remote (sql_select_by_id E i) w = (Inr a, w1)"
    using assms by (auto simp: pg_GetByID_def scanAvatar_def split: prod.splits sum.splits if_splits)
  then show ?thesis
    by (auto simp: remote_def case_prod_unfold Let_def intro: act split: outcome.splits)
qed

lemma known_delete:
  "rw (ID y) = Some y \<Longrightarrow> \<not> live y \<Longrightarrow> set ks \<subseteq> own_keys E (ID y) \<Longrightarrow>
   known_msg E rw (delete_message E \<lparr>delAvatarID = ID y, delS3Keys = ks\<rparr>)"
  unfolding known_msg_def by blast

lemma sim_deleted:
  assumes keyed: "keyed E (world_view b w)" and row: "vRow (world_view b w) (ID a) = Some a" "live a"
    and ms: "ms \<in> {[], [delete_message E (delete_event a)]}"
    and v': "vRow (world_view b w') = (vRow (world_view b w))(ID a \<mapsto> deleted_at now a)"
      "vObj (world_view b w') = vObj (world_view b w)" "vMsgs (world_view b w') = vMsgs (world_view b w) @ ms"
  shows "keyed E (world_view b w')" and "cat b w' = (cat b w)(ID a := None)"
    and "cat b w (ID a) = Some (entry_of (vObj (world_view b w)) a)"
proof -
  have x: "row_keyed E a" using keyedD(1) [OF keyed row(1)] by simp
  have y: "same_record a (deleted_at now a)" "row_keyed E (deleted_at now a)" "\<not> live (deleted_at now a)" "ID (deleted_at now a) = ID a"
    using x row(2) by (simp_all add: deleted_at_def same_record_def live_def row_keyed_def)
  have "vRow (world_view b w') (ID (deleted_at now a)) = Some (deleted_at now a)" using v'(1) y(4) by simp
  note del = known_delete [where rw = "vRow (world_view b w')", OF this y(3), unfolded y(4), OF row_keyed_own [OF x]]
  have known: "known_msg E (vRow (world_view b w')) m" if "m \<in> set ms" for m
    using that ms del by (auto simp only: delete_event_def DeleteEvent.select_convs list.set insert_iff empty_iff)
  show "keyed E (world_view b w')"
    by (rule keyed_update [OF keyed row(1) y(1,2) v'(1) _ v'(3) known]) (simp_all only: v'(2) not_False_eq_True simp_thms)
  show "cat b w' = (cat b w)(ID a := None)"
    by (rule abstract_deleted [OF row(1) y(3) v'(1,2)])
  show "cat b w (ID a) = Some (entry_of (vObj (world_view b w)) a)"
    using row by (simp add: abstract_def)
qed

lemma deleteAvatar_outcome:
  assumes row: "vRow (world_view b w) (ID a) = Some a" "live a"
    and good: "good_world E w" and run: "deleteAvatar (world_service E b) a w = (r, w')"
  obtains (same) "world_view b w' = world_view b w"
  | (gone) now ms where "ms \<in> {[], [delete_message E (delete_event a)]}"
      "vRow (world_view b w') = (vRow (world_view b w))(ID a \<mapsto> deleted_at now a)"
      "vObj (world_view b w') = vObj (world_view b w)" "vMsgs (world_view b w') = vMsgs (world_view b w) @ ms"
proof (cases r)
  case (Inl e)
  from svc.deleteAvatar_run [OF good row run] Inl consider "world_view b w' = world_view b w" |
    now where "world_view b w' = (world_view b w)\<lparr>vRow := (vRow (world_view b w))(ID a \<mapsto> deleted_at now a)\<rparr>" by blast
  then show thesis
  proof cases
    case (2 now)
    note v = world_viewD [OF 2]
    show thesis by (rule gone [of "[]" now]) (use v in simp_all)
  qed (rule same)
next
  case (Inr u)
  then have "r = Inr ()" by simp
  with svc.deleteAvatar_run [OF good row run, THEN conjunct2, THEN conjunct2, THEN conjunct1]
  obtain now ms where ms: "ms \<in> {[], [delete_message E (delete_event a)]}" and
    v: "world_view b w' = (world_view b w)\<lparr>vRow := (vRow (world_view b w))(ID a \<mapsto> deleted_at now a),
         vMsgs := vMsgs (world_view b w) @ ms\<rparr>" by blast
  show thesis by (rule gone [OF ms, of now]) (use world_viewD [OF v] in simp_all)
qed

text \<open>What a request for deletion does, if anything: one row is marked, and its event may be sent.\<close>

definition deletes :: "env \<Rightarrow> string \<Rightarrow> avatar \<Rightarrow> world \<Rightarrow> world \<Rightarrow> bool" where
  "deletes E b a w w' \<longleftrightarrow> row_of (rows (sh w)) (ID a) = Some a \<and> live a \<and>
     (\<exists>now. \<exists>ms \<in> {[], [delete_message E (delete_event a)]}. sent (sh w') = sent (sh w) @ ms \<and>
        row_of (rows (sh w')) = (row_of (rows (sh w)))(ID a \<mapsto> deleted_at now a)) \<and>
     objects b (sh w') = objects b (sh w)"

lemma deleteAvatar_deletes:
  assumes row: "vRow (world_view b w) (ID a) = Some a" "live a"
    and w0: "good_world E w0" "world_view b w0 = world_view b w" and run: "deleteAvatar (world_service E b) a w0 = (r, w')"
  shows "good_world E w' \<and> (world_view b w' = world_view b w \<or> deletes E b a w w')"
proof -
  have row0: "vRow (world_view b w0) (ID a) = Some a" using row(1) w0(2) by (simp only:)
  have good': "good_world E w'" using svc.deleteAvatar_run [OF w0(1) row0 row(2) run] by blast
  show ?thesis
  proof (cases rule: deleteAvatar_outcome [OF row0 row(2) w0(1) run])
    case 1
    with good' w0(2) show ?thesis by simp
  next
    case (2 now ms)
    have "deletes E b a w w'"
      using row 2 [unfolded w0(2)] unfolding deletes_def world_view_sel by blast
    with good' show ?thesis by blast
  qed
qed

lemma Delete_outcome:
  assumes good: "good_world E w" and run: "svc_Delete (world_service E b) i req w = (r, w')"
  shows "good_world E w' \<and> (world_view b w' = world_view b w \<or>
    (\<exists>a. uuid_in E i = Some (ID a) \<and> UserID a = req \<and> deletes E b a w w'))"
proof -
  obtain rg w0 where g: "pg_GetByID E i w = (rg, w0)" by fastforce
  have w0: "good_world E w0" "world_view b w0 = world_view b w" using pgrow.row_law [OF good g] by blast+
  show ?thesis
  proof (cases "\<exists>a. rg = Inr a \<and> UserID a = req")
    case False
    with run g have "w' = w0" by (cases rg) (auto simp: svc_Delete_def)
    with w0 show ?thesis by simp
  next
    case True
    then obtain a where a: "rg = Inr a" "UserID a = req" by blast
    have row: "vRow (world_view b w) (ID a) = Some a" "live a" using pgrow.row_found [OF good g [unfolded a(1)]] by blast+
    have "deleteAvatar (world_service E b) a w0 = (r, w')" using run g a by (simp add: svc_Delete_def)
    from deleteAvatar_deletes [OF row w0 this] GetByID_id [OF g [unfolded a(1)]] a(2) show ?thesis by blast
  qed
qed

text \<open>The avatar that stands for its user: no live one of the user is newer.\<close>

definition newest :: "(string \<rightharpoonup> avatar) \<Rightarrow> string \<Rightarrow> avatar \<Rightarrow> bool" where
  "newest rw uid a \<longleftrightarrow> rw (ID a) = Some a \<and> live a \<and> UserID a = uid \<and>
     (\<forall>i x. rw i = Some x \<longrightarrow> live x \<longrightarrow> UserID x = uid \<longrightarrow> CreatedAt x \<le> CreatedAt a)"

lemma LatestByUser_newest:
  assumes good: "good_world E w" and run: "pg_LatestByUser E uid w = (Inr a, w')"
  shows "newest (vRow (world_view b w)) uid a"
proof -
  have v: "world_view b w' = world_view b w" and a: "vRow (world_view b w) (ID a) = Some a" "live a" "UserID a = uid"
    using pg_LatestByUser_step [OF good run, of b] by blast+
  note row = pg_LatestByUser_row [OF good_worldD(1) [OF good] run]
  have "CreatedAt x \<le> CreatedAt a" if "vRow (world_view b w) i = Some x" "live x" "UserID x = uid" for i x
  proof -
    have "row_of (rows (sh w')) i = Some x" using that(1) world_viewD(1) [OF v] by simp
    then have "x \<in> set (rows (sh w'))" by (simp add: row_of_Some)
    with row that(2,3) show ?thesis by blast
  qed
  with a show ?thesis unfolding newest_def by blast
qed

lemma newest_entry:
  assumes "newest (vRow v) uid a" and "abstract v i = Some f" and "owner f = uid"
  shows "since f \<le> since (entry_of (vObj v) a)"
proof -
  obtain x where "vRow v i = Some x" "live x" "f = entry_of (vObj v) x"
    using assms(2) by (auto simp: abstract_def split: option.splits if_splits)
  with assms(1,3) show ?thesis by (simp add: newest_def entry_of_def)
qed

lemma DeleteLatest_outcome:
  assumes good: "good_world E w" and run: "svc_DeleteLatest (world_service E b) uid req w = (r, w')"
  shows "good_world E w' \<and> (world_view b w' = world_view b w \<or>
    (\<exists>a. uid = req \<and> newest (vRow (world_view b w)) req a \<and> deletes E b a w w'))"
proof (cases "uid = req")
  case False
  with run have "w' = w" by (simp add: svc_DeleteLatest_def)
  with good show ?thesis by simp
next
  case True
  obtain rg w0 where g: "pg_LatestByUser E uid w = (rg, w0)" by fastforce
  from svc.latest_law [unfolded world_service_sel, OF good g]
  have w0: "good_world E w0" "world_view b w0 = world_view b w"
    and row: "\<And>a. rg = Inr a \<Longrightarrow> vRow (world_view b w) (ID a) = Some a \<and> live a \<and> UserID a = uid" by blast+
  show ?thesis
  proof (cases rg)
    case (Inl e)
    with run g True have "w' = w0" by (simp add: svc_DeleteLatest_def)
    with w0 show ?thesis by simp
  next
    case (Inr a)
    have "deleteAvatar (world_service E b) a w0 = (r, w')" using run g Inr True by (simp add: svc_DeleteLatest_def)
    from deleteAvatar_deletes [OF _ _ w0 this] row [OF Inr] True LatestByUser_newest [OF good g [unfolded Inr], of b]
    show ?thesis by blast
  qed
qed

lemma deletes_entry:
  assumes keyed: "keyed E (world_view b w)" and del: "deletes E b a w w'"
  shows "keyed E (world_view b w')" and "cat b w' = (cat b w)(ID a := None)"
    and "cat b w (ID a) = Some (entry_of (vObj (world_view b w)) a)"
proof -
  obtain now ms where ms: "ms \<in> {[], [delete_message E (delete_event a)]}" and
    v': "vRow (world_view b w') = (vRow (world_view b w))(ID a \<mapsto> deleted_at now a)"
      "vObj (world_view b w') = vObj (world_view b w)" "vMsgs (world_view b w') = vMsgs (world_view b w) @ ms"
    using del unfolding deletes_def world_view_sel by blast
  have row: "vRow (world_view b w) (ID a) = Some a" "live a" using del by (simp_all add: deletes_def)
  note d = sim_deleted [OF keyed row ms v']
  show "keyed E (world_view b w')" by (rule d(1))
  show "cat b w' = (cat b w)(ID a := None)" by (rule d(2))
  show "cat b w (ID a) = Some (entry_of (vObj (world_view b w)) a)" by (rule d(3))
qed

lemma sim_Delete:
  assumes good: "good_world E w" and keyed: "keyed E (world_view b w)"
    and run: "svc_Delete (world_service E b) i req w = (r, w')"
  shows "sim E b (DeleteJob i req) w w'"
  using Delete_outcome [OF good run]
proof (elim conjE disjE exE)
  fix a
  assume "good_world E w'" "uuid_in E i = Some (ID a)" "UserID a = req" "deletes E b a w w'"
  with deletes_entry [OF keyed this(4)] show ?thesis by (auto simp: sim_def entry_of_def intro: spec_step.removes)
qed (rule sim_same_view [OF _ keyed])

lemma sim_DeleteLatest:
  assumes good: "good_world E w" and keyed: "keyed E (world_view b w)"
    and run: "svc_DeleteLatest (world_service E b) uid req w = (r, w')"
  shows "sim E b (DeleteLatestJob uid req) w w'"
  using DeleteLatest_outcome [OF good run]
proof (elim conjE disjE exE)
  fix a
  assume w': "good_world E w'" and "uid = req" and new: "newest (vRow (world_view b w)) req a" and del: "deletes E b a w w'"
  note d = deletes_entry [OF keyed del]
  have "owner (entry_of (vObj (world_view b w)) a) = req" using new by (simp add: newest_def entry_of_def)
  from spec_step.removes_latest [of "cat b w", OF d(3) this newest_entry [OF new]] w' d(1,2) \<open>uid = req\<close>
  show ?thesis by (simp add: sim_def)
qed (rule sim_same_view [OF _ keyed])

subsection \<open>The jobs of the worker\<close>

text \<open>What the consumer's handlers get: an event that decodes from an accepted message.\<close>

fun delivered :: "message list \<Rightarrow> job \<Rightarrow> bool" where
  "delivered ms (UploadEventJob ev) = (\<exists>m \<in> set ms. mKey m = QueueUpload \<and> unmarshal_upload (Some (mBody m)) = Inr ev)"
| "delivered ms (UploadDeadJob ev) = (\<exists>m \<in> set ms. mKey m = QueueUpload \<and> unmarshal_upload (Some (mBody m)) = Inr ev)"
| "delivered ms (DeleteEventJob dv) = (\<exists>m \<in> set ms. mKey m = QueueDelete \<and> unmarshal_delete (Some (mBody m)) = Inr dv)"
| "delivered ms _ = True"

lemma message_sel [simp]:
  "mKey (upload_message E ev) = QueueUpload" "mBody (upload_message E ev) = marshal_upload ev"
  "mKey (delete_message E dv) = QueueDelete" "mBody (delete_message E dv) = marshal_delete dv"
  by (simp_all add: upload_message_def delete_message_def)

lemma ascii_itoa: "list_all (\<lambda>c. of_char c < (128 :: nat)) (SizeName 100)" "list_all (\<lambda>c. of_char c < (128 :: nat)) (SizeName 300)"
  by code_simp+

lemma own_keys_valid:
  assumes "ids_plain E" and "uuid_in E j = Some u" and "k \<in> own_keys E u"
  shows "valid_utf8 k"
proof (rule valid_utf8_ascii)
  have u: "list_all (\<lambda>c. of_char c < (128 :: nat)) u" using assms(1,2) by (auto simp: ids_plain_def)
  consider i where "k = OriginalKey i" "uuid_in E i = Some u" | "k = ThumbnailKey u 100" | "k = ThumbnailKey u 300"
    using assms(3) by (auto simp: own_keys_def thumb_keyset_def ThumbnailSizes_def)
  then show "list_all (\<lambda>c. of_char c < (128 :: nat)) k"
  proof cases
    case 1
    then have "list_all (\<lambda>c. of_char c < (128 :: nat)) i" using assms(1) by (auto simp: ids_plain_def)
    with 1 show ?thesis by (simp add: OriginalKey_def)
  qed (simp_all add: ThumbnailKey_def u ascii_itoa)
qed

lemma known_upload:
  assumes "ids_plain E" and keyed: "keyed E v" and "m \<in> set (vMsgs v)" and "mKey m = QueueUpload"
    and "unmarshal_upload (Some (mBody m)) = Inr ev"
  shows "\<exists>a. vRow v (upAvatarID ev) = Some a \<and> upS3Key ev = S3Key a \<and> mId m = upAvatarID ev"
proof -
  obtain a where a: "vRow v (ID a) = Some a" "m = upload_message E (upload_event a)"
    using keyedD(3) [OF keyed assms(3)] assms(4) by (auto simp: known_msg_def)
  have keyed_a: "row_keyed E a" using keyedD(1) [OF keyed a(1)] by simp
  then obtain i where i: "uuid_in E i = Some (ID a)" by (auto simp: row_keyed_def)
  then have "valid_utf8 (ID a)" using assms(1) by (auto simp: ids_plain_def intro: valid_utf8_ascii)
  moreover have "S3Key a \<in> own_keys E (ID a)" using keyed_a by (auto simp: row_keyed_def own_keys_def)
  then have "valid_utf8 (S3Key a)" by (rule own_keys_valid [OF assms(1) i])
  ultimately show ?thesis
    using a assms(5) by (auto simp: upload_message_def upload_roundtrip_clean upload_event_def)
qed

lemma known_deletion:
  assumes "ids_plain E" and keyed: "keyed E v" and "m \<in> set (vMsgs v)" and "mKey m = QueueDelete"
    and "unmarshal_delete (Some (mBody m)) = Inr dv"
  shows "\<exists>a. vRow v (delAvatarID dv) = Some a \<and> \<not> live a \<and> set (delS3Keys dv) \<subseteq> own_keys E (delAvatarID dv)"
proof -
  obtain a ks where a: "vRow v (ID a) = Some a" "\<not> live a" "set ks \<subseteq> own_keys E (ID a)"
    "m = delete_message E \<lparr>delAvatarID = ID a, delS3Keys = ks\<rparr>"
    using keyedD(3) [OF keyed assms(3)] assms(4) by (auto simp: known_msg_def)
  obtain i where i: "uuid_in E i = Some (ID a)" using keyedD(1) [OF keyed a(1)] by (auto simp: row_keyed_def)
  then have "valid_utf8 (ID a)" using assms(1) by (auto simp: ids_plain_def intro: valid_utf8_ascii)
  moreover have "map clean ks = ks" using own_keys_valid [OF assms(1) i] a(3) by (auto intro!: map_idI)
  ultimately show ?thesis using a assms(5) by (auto simp: delete_roundtrip_clean)
qed

text \<open>
  When an upload is settled: its row is completed, and lists both thumbnails, and both are
  stored as the code makes them from the stored original; or its row is failed, and there is
  a size for which the code makes no thumbnail from the stored original. A live row is tidy
  when its status claims nothing that is not so.
\<close>

definition thumbs_complete :: "env \<Rightarrow> (string \<rightharpoonup> object) \<Rightarrow> avatar \<Rightarrow> bool" where
  "thumbs_complete E objs a \<longleftrightarrow> Thumbnails a = thumb_keys (ID a) ThumbnailSizes \<and>
     (\<exists>ob. objs (S3Key a) = Some ob \<and> (\<forall>px \<in> set ThumbnailSizes. \<exists>t. Generate (world_imaging E) (oData ob) px = Inr t \<and>
        objs (ThumbnailKey (ID a) px) = Some \<lparr>oType = ''image/jpeg'', oData = t\<rparr>))"

definition undecodable :: "env \<Rightarrow> (string \<rightharpoonup> object) \<Rightarrow> avatar \<Rightarrow> bool" where
  "undecodable E objs a \<longleftrightarrow> (\<exists>ob. objs (S3Key a) = Some ob \<and>
     (\<exists>px \<in> set ThumbnailSizes. \<exists>e. Generate (world_imaging E) (oData ob) px = Inl e))"

definition settled :: "env \<Rightarrow> (string \<rightharpoonup> object) \<Rightarrow> avatar \<Rightarrow> bool" where
  "settled E objs a \<longleftrightarrow> ProcessingStatus a = ProcessingStatusCompleted \<and> thumbs_complete E objs a \<or>
     ProcessingStatus a = ProcessingStatusFailed \<and> undecodable E objs a"

definition tidy_row :: "env \<Rightarrow> (string \<rightharpoonup> object) \<Rightarrow> avatar \<Rightarrow> bool" where
  "tidy_row E objs a \<longleftrightarrow> (live a \<longrightarrow> ProcessingStatus a \<noteq> ProcessingStatusDeleted \<and>
     (ProcessingStatus a = ProcessingStatusCompleted \<longrightarrow> thumbs_complete E objs a))"

lemma same_files:
  assumes "objs' (S3Key a) = objs (S3Key a)" and "\<And>px. objs' (ThumbnailKey (ID a) px) = objs (ThumbnailKey (ID a) px)"
  shows "settled E objs' a = settled E objs a" and "tidy_row E objs' a = tidy_row E objs a"
  using assms by (simp_all add: settled_def tidy_row_def thumbs_complete_def undecodable_def)

text \<open>
  What a job of the worker may do: change the row it is about, but not its identity, and
  objects of its own avatar that are not a live row's original. It leaves a tidy row tidy,
  and it sends nothing.
\<close>

definition works_on :: "env \<Rightarrow> string \<Rightarrow> string \<Rightarrow> world \<Rightarrow> world \<Rightarrow> bool" where
  "works_on E b i w w' \<longleftrightarrow> good_world E w' \<and> sent (sh w') = sent (sh w) \<and>
     (\<exists>x y. row_of (rows (sh w)) i = Some x \<and> row_of (rows (sh w')) = (row_of (rows (sh w)))(i \<mapsto> y) \<and>
        same_record x y \<and> DeletedAt y = DeletedAt x \<and> row_keyed E y \<and>
        (tidy_row E (objects b (sh w)) x \<longrightarrow> tidy_row E (objects b (sh w')) y)) \<and>
     (\<forall>j px. j \<noteq> i \<longrightarrow> objects b (sh w') (ThumbnailKey j px) = objects b (sh w) (ThumbnailKey j px)) \<and>
     (\<forall>j. objects b (sh w') (OriginalKey j) \<noteq> None \<longrightarrow> objects b (sh w) (OriginalKey j) \<noteq> None) \<and>
     (\<forall>j a. row_of (rows (sh w)) j = Some a \<longrightarrow> live a \<longrightarrow> objects b (sh w') (S3Key a) = objects b (sh w) (S3Key a))"

lemma works_onI:
  assumes "good_world E w'" and "row_of (rows (sh w)) i = Some x"
    and "same_record x y" "DeletedAt y = DeletedAt x" "row_keyed E y"
    and "row_of (rows (sh w')) = (row_of (rows (sh w)))(i \<mapsto> y)" "sent (sh w') = sent (sh w)"
    and "\<And>j. objects b (sh w') (OriginalKey j) \<noteq> None \<Longrightarrow> objects b (sh w) (OriginalKey j) \<noteq> None"
    and "\<And>j a. row_of (rows (sh w)) j = Some a \<Longrightarrow> live a \<Longrightarrow> objects b (sh w') (S3Key a) = objects b (sh w) (S3Key a)"
    and "\<And>j px. j \<noteq> i \<Longrightarrow> objects b (sh w') (ThumbnailKey j px) = objects b (sh w) (ThumbnailKey j px)"
    and "tidy_row E (objects b (sh w)) x \<Longrightarrow> tidy_row E (objects b (sh w')) y"
  shows "works_on E b i w w'"
  using assms unfolding works_on_def by blast

lemma works_on_sim:
  assumes keyed: "keyed E (world_view b w)" and eff: "works_on E b i w w'"
  shows "sim E b job w w'" and "cat b w' = cat b w"
proof -
  obtain x y where row: "vRow (world_view b w) i = Some x" and y: "same_record x y" "DeletedAt y = DeletedAt x" "row_keyed E y"
    and v': "vRow (world_view b w') = (vRow (world_view b w))(i \<mapsto> y)"
    using eff unfolding works_on_def world_view_sel by blast
  have ms: "vMsgs (world_view b w') = vMsgs (world_view b w) @ []" using eff by (simp add: works_on_def)
  have orig: "\<And>j. vObj (world_view b w') (OriginalKey j) \<noteq> None \<Longrightarrow> vObj (world_view b w) (OriginalKey j) \<noteq> None"
    and same: "\<And>j a. vRow (world_view b w) j = Some a \<Longrightarrow> live a \<Longrightarrow>
      vObj (world_view b w') (S3Key a) = vObj (world_view b w) (S3Key a)"
    using eff unfolding works_on_def world_view_sel by blast+
  have "keyed E (world_view b w')"
    by (rule keyed_update [OF keyed row y(1,3) v' orig ms]) simp_all
  moreover show cat: "cat b w' = cat b w" by (rule abstract_unchanged [OF keyed row y(1,2) v' same])
  ultimately show "sim E b job w w'" using eff by (simp add: sim_def spec_step.stays works_on_def)
qed

lemma row_keyed_processed:
  assumes "processed_row (ID x) x y" and "row_keyed E x"
  shows "row_keyed E y" and "same_record x y" and "DeletedAt y = DeletedAt x"
proof -
  obtain ths st now where y: "y = x\<lparr>Thumbnails := ths, ProcessingStatus := st, UpdatedAt := now\<rparr>"
    "ths = Thumbnails x \<or> ths = thumb_keys (ID x) ThumbnailSizes"
    using assms(1) by (auto simp only: processed_row_def)
  have "snd ` set (thumb_keys (ID x) ThumbnailSizes) \<subseteq> thumb_keyset (ID x)"
    by (auto simp: thumb_keys_def thumb_keyset_def)
  then have "snd ` set ths \<subseteq> thumb_keyset (ID x)" using y(2) assms(2) unfolding row_keyed_def by (elim disjE) simp_all
  with assms(2) show "row_keyed E y" by (simp add: row_keyed_def y(1))
  show "same_record x y" "DeletedAt y = DeletedAt x" using processed_row_fields [OF assms(1)] by simp_all
qed

text \<open>
  An attempt at an upload keeps the row tidy, also when it fails; when it returns no error
  the upload is settled.
\<close>

lemma attempt_settles:
  assumes att: "upload_attempt (world_imaging E) ev x objs y n src st r"
    and ids: "ID x = upAvatarID ev" "upS3Key ev = S3Key x"
    and objs': "objs' = with_thumbs (world_imaging E) (upAvatarID ev) src (take n ThumbnailSizes) objs"
    and key: "S3Key x = OriginalKey j" and tidy: "tidy_row E objs x"
  shows "tidy_row E objs' y" and "r = Inr () \<Longrightarrow> live y \<Longrightarrow> settled E objs' y"
proof -
  have pr: "processed_row (upAvatarID ev) x y" and hon: "honest_status (world_imaging E) ev x y n src"
    and src: "n = 0 \<or> (\<exists>ob. objs (S3Key x) = Some ob \<and> src = oData ob)"
    using att ids(2) by (simp_all add: upload_attempt_def)
  note f = processed_row_fields [OF pr]
  have y: "ID y = ID x" "S3Key y = S3Key x" "live y = live x" using f by (simp_all add: same_record_def live_def)
  have orig: "objs' (S3Key x) = objs (S3Key x)" unfolding objs' key by (rule with_thumbs_outside [OF original_not_thumb])
  have made: "thumbs_complete E objs' y" if t: "thumbs_made (world_imaging E) ev y n src"
  proof -
    have n: "take n ThumbnailSizes = ThumbnailSizes" "n \<noteq> 0" using t by (simp_all add: thumbs_made_def ThumbnailSizes_def)
    then obtain ob where ob: "objs (S3Key x) = Some ob" "src = oData ob" using src by blast
    have "\<exists>t. Generate (world_imaging E) (oData ob) px = Inr t \<and> objs' (ThumbnailKey (ID y) px) = Some \<lparr>oType = ''image/jpeg'', oData = t\<rparr>"
      if px: "px \<in> set ThumbnailSizes" for px
    proof -
      obtain t' where t': "Generate (world_imaging E) src px = Inr t'" using t px by (auto simp: thumbs_made_def)
      from with_thumbs_stored [OF this px] t' show ?thesis by (simp add: objs' n(1) y(1) ids(1) ob(2))
    qed
    with t ob(1) orig y ids(1) show ?thesis by (auto simp: thumbs_complete_def thumbs_made_def)
  qed
  show tidy': "tidy_row E objs' y"
    using hon unfolding honest_status_def
  proof (elim disjE conjE)
    assume "y = x" "n = 0"
    with tidy objs' show ?thesis by simp
  next
    assume "ProcessingStatus y \<noteq> ProcessingStatusDeleted" "ProcessingStatus y = ProcessingStatusCompleted \<longrightarrow> thumbs_made (world_imaging E) ev y n src"
    with made show ?thesis by (simp add: tidy_row_def)
  qed
  show "settled E objs' y" if r: "r = Inr ()" and l: "live y"
  proof -
    consider "ProcessingStatus y = ProcessingStatusCompleted" | "y = x" "ProcessingStatus x = ProcessingStatusDeleted" |
      ob px e where "ProcessingStatus y = ProcessingStatusFailed" "objs (S3Key x) = Some ob" "px \<in> set ThumbnailSizes"
        "Generate (world_imaging E) (oData ob) px = Inl e"
      using att r l y(3) ids(2) by (auto simp: upload_attempt_def)
    then show ?thesis
    proof cases
      case 1
      with tidy' l show ?thesis by (simp add: settled_def tidy_row_def)
    next
      case 2
      with tidy l show ?thesis by (simp add: tidy_row_def)
    next
      case 3
      with orig y(2) show ?thesis by (auto simp: settled_def undecodable_def)
    qed
  qed
qed

lemma HandleUpload_works:
  assumes good: "good_world E w" and keyed: "keyed E (world_view b w)"
    and row: "row_of (rows (sh w)) (upAvatarID ev) = Some x" and ev: "upS3Key ev = S3Key x"
    and run: "HandleUpload (world_processor E b) ev w = (r, w')"
  shows "works_on E b (upAvatarID ev) w w' \<and>
    (\<forall>y. tidy_row E (objects b (sh w)) x \<longrightarrow> r = Inr () \<longrightarrow> row_of (rows (sh w')) (upAvatarID ev) = Some y \<longrightarrow> live y \<longrightarrow>
       settled E (objects b (sh w')) y)"
proof (rule world_upload_attempt [OF good row run])
  let ?i = "upAvatarID ev"
  fix y n src st
  assume w': "good_world E w'" "row_of (rows (sh w')) = (row_of (rows (sh w)))(?i \<mapsto> y)"
    "objects b (sh w') = with_thumbs (world_imaging E) ?i src (take n ThumbnailSizes) (objects b (sh w))"
    "sent (sh w') = sent (sh w)" and att: "upload_attempt (world_imaging E) ev x (objects b (sh w)) y n src st r"
  have vrow: "vRow (world_view b w) ?i = Some x" using row by simp
  have pr: "processed_row ?i x y" using att by (simp add: upload_attempt_def)
  have x: "ID x = ?i" "row_keyed E x" using keyedD(1) [OF keyed vrow] by simp_all
  have y: "row_keyed E y" "same_record x y" "DeletedAt y = DeletedAt x"
    using row_keyed_processed [OF _ x(2)] pr x(1) by simp_all
  obtain j0 where j0: "S3Key x = OriginalKey j0" using x(2) by (auto simp: row_keyed_def)
  note settle = attempt_settles [OF att x(1) ev w'(3) j0]
  have obj: "objects b (sh w') (OriginalKey j) = objects b (sh w) (OriginalKey j)" for j
    using w'(3) original_not_thumb by (simp add: with_thumbs_outside)
  have key: "\<exists>j. S3Key a = OriginalKey j" if "row_of (rows (sh w)) k = Some a" for k a
    using keyedD(1) [OF keyed, of k a] that by (auto simp: row_keyed_def)
  have thumb: "objects b (sh w') (ThumbnailKey j px) = objects b (sh w) (ThumbnailKey j px)" if "j \<noteq> ?i" for j px
    unfolding w'(3) by (rule with_thumbs_outside) (use that in \<open>auto simp: thumb_keyset_def\<close>)
  have "works_on E b ?i w w'"
    by (rule works_onI [OF w'(1) row y(2,3,1) w'(2,4) _ _ thumb settle(1)]) (use obj key in \<open>auto, metis\<close>)
  with settle(2) w'(2) show ?thesis by simp
qed

lemma HandleDelete_works:
  assumes good: "good_world E w" and keyed: "keyed E (world_view b w)"
    and row: "row_of (rows (sh w)) (delAvatarID dv) = Some x" "\<not> live x"
    and keys: "set (delS3Keys dv) \<subseteq> own_keys E (delAvatarID dv)"
    and run: "HandleDelete (world_processor E b) dv w = (r, w')"
  shows "works_on E b (delAvatarID dv) w w'"
proof -
  let ?i = "delAvatarID dv"
  have vrow: "vRow (world_view b w) ?i = Some x" using row(1) by simp
  from proc.HandleDelete_run [OF good vrow run] obtain st gone y where good': "good_world E w'" and
    v: "world_view b w' = (world_view b w)\<lparr>vRow := (vRow (world_view b w))(?i \<mapsto> y),
      vObj := (vObj (world_view b w)) |` (- set gone), vObs := vObs (world_view b w) @ [(''delete'', st)]\<rparr>"
    and gone: "set gone \<subseteq> set (delS3Keys dv)"
    and y: "y = x \<or> (\<exists>now. y = x\<lparr>ProcessingStatus := ProcessingStatusDeleted, UpdatedAt := now\<rparr>)" by blast
  note v = world_viewD [OF v]
  have x: "row_keyed E x" using keyedD(1) [OF keyed vrow] by simp
  have "processed_row (ID x) x y" using y by auto
  note yf = row_keyed_processed(2,3,1) [OF this x]
  have keep: "S3Key a \<notin> set gone" if a: "row_of (rows (sh w)) j = Some a" "live a" for j a
  proof
    assume "S3Key a \<in> set gone"
    then have "S3Key a \<in> own_keys E ?i" using gone keys by blast
    moreover have "S3Key a \<in> own_keys E j" using keyedD(1) [OF keyed, of j a] a(1) by (auto simp: row_keyed_def own_keys_def)
    ultimately have "j = ?i" by (rule own_keys_disjoint [symmetric])
    with a row show False by simp
  qed
  have other: "ThumbnailKey j px \<notin> set gone" if "j \<noteq> ?i" for j px
  proof
    assume "ThumbnailKey j px \<in> set gone"
    then have "ThumbnailKey j px \<in> own_keys E ?i" using gone keys by blast
    with that show False by (auto simp: own_keys_def thumb_keyset_def)
  qed
  show ?thesis
  proof (rule works_onI [OF good' row(1) yf])
    show "objects b (sh w') (ThumbnailKey j px) = objects b (sh w) (ThumbnailKey j px)" if "j \<noteq> ?i" for j px
      using v(2) other [OF that] by simp
    show "tidy_row E (objects b (sh w')) y" using yf(2) row(2) by (auto simp: tidy_row_def live_def)
  qed (use v keep in \<open>auto simp: restrict_map_def split: if_splits\<close>)
qed

lemma UploadFailed_works:
  assumes good: "good_world E w" and keyed: "keyed E (world_view b w)"
    and row: "row_of (rows (sh w)) (upAvatarID ev) = Some x"
  shows "works_on E b (upAvatarID ev) w (UploadFailed (world_processor E b) ev w)"
proof -
  let ?i = "upAvatarID ev"
  have vrow: "vRow (world_view b w) ?i = Some x" using row by simp
  obtain r w' where run: "pg_SetProcessingStatus E ?i ProcessingStatusFailed w = (r, w')" by fastforce
  then have w': "UploadFailed (world_processor E b) ev w = w'" by (simp add: UploadFailed_def)
  obtain now where good': "good_world E w'" and d: "done_or_failed r (world_view b w) ((world_view b w)\<lparr>vRow :=
      (vRow (world_view b w))(?i \<mapsto> x\<lparr>ProcessingStatus := ProcessingStatusFailed, UpdatedAt := now\<rparr>)\<rparr>) (world_view b w')"
    using proc.status_law [unfolded world_processor_sel, OF good vrow _ run] by (auto simp: processing_status_enum_def)
  obtain y where v: "world_view b w' = (world_view b w)\<lparr>vRow := (vRow (world_view b w))(?i \<mapsto> y)\<rparr>" and
    y: "y = x\<lparr>ProcessingStatus := ProcessingStatusFailed, UpdatedAt := now\<rparr> \<or> y = x \<and> (\<exists>e. r = Inl e)"
    by (rule row_outcome [OF vrow d])
  note v = world_viewD [OF v]
  have x: "row_keyed E x" using keyedD(1) [OF keyed vrow] by simp
  have "processed_row (ID x) x y" using y by auto
  note yf = row_keyed_processed(2,3,1) [OF this x]
  show ?thesis
    unfolding w'
  proof (rule works_onI [OF good' row yf])
    show "tidy_row E (objects b (sh w')) y" if "tidy_row E (objects b (sh w)) x"
      using y that v(2) by (auto simp: tidy_row_def)
  qed (use v in simp_all)
qed

lemma Delete_answer:
  assumes good: "good_world E w" and keyed: "keyed E (world_view b w)"
    and run: "svc_Delete (world_service E b) i req w = (Inr (), w')"
  shows "\<exists>u e. uuid_in E i = Some u \<and> cat b w u = Some e \<and> owner e = req \<and> cat b w' = (cat b w)(u := None)"
proof -
  obtain a w0 where g: "pg_GetByID E i w = (Inr a, w0)" and own: "UserID a = req"
    and del: "deleteAvatar (world_service E b) a w0 = (Inr (), w')"
    using run by (auto simp: svc_Delete_def split: prod.splits sum.splits if_splits)
  have w0: "good_world E w0" "world_view b w0 = world_view b w" using pgrow.row_law [OF good g] by blast+
  have row: "vRow (world_view b w) (ID a) = Some a" "live a" using pgrow.row_found [OF good g] by blast+
  have row0: "vRow (world_view b w0) (ID a) = Some a" using row(1) w0(2) by (simp only:)
  from svc.deleteAvatar_run [OF w0(1) row0 row(2) del, THEN conjunct2, THEN conjunct2, THEN conjunct1, rule_format, OF refl]
  obtain now ms where ms: "ms \<in> {[], [delete_message E (delete_event a)]}" and
    v: "world_view b w' = (world_view b w)\<lparr>vRow := (vRow (world_view b w))(ID a \<mapsto> deleted_at now a),
         vMsgs := vMsgs (world_view b w) @ ms\<rparr>" unfolding w0(2) by blast
  from sim_deleted [OF keyed row ms, of w' now] world_viewD [OF v] own GetByID_id [OF g] show ?thesis
    by (auto simp: entry_of_def)
qed

lemma DeleteLatest_answer:
  assumes good: "good_world E w" and keyed: "keyed E (world_view b w)"
    and run: "svc_DeleteLatest (world_service E b) uid req w = (Inr (), w')"
  shows "uid = req \<and> (\<exists>u e. cat b w u = Some e \<and> owner e = req \<and> cat b w' = (cat b w)(u := None) \<and>
    (\<forall>i f. cat b w i = Some f \<longrightarrow> owner f = req \<longrightarrow> since f \<le> since e))"
proof -
  obtain a w0 where uid: "uid = req" and g: "pg_LatestByUser E uid w = (Inr a, w0)"
    and del: "deleteAvatar (world_service E b) a w0 = (Inr (), w')"
    using run by (auto simp: svc_DeleteLatest_def split: prod.splits sum.splits if_splits)
  have w0: "good_world E w0" "world_view b w0 = world_view b w" using pg_LatestByUser_step [OF good g, of b] by blast+
  have new: "newest (vRow (world_view b w)) req a" using LatestByUser_newest [OF good g, of b] uid by simp
  then have row: "vRow (world_view b w) (ID a) = Some a" "live a" and own: "UserID a = req" unfolding newest_def by blast+
  have row0: "vRow (world_view b w0) (ID a) = Some a" using row(1) w0(2) by (simp only:)
  from svc.deleteAvatar_run [OF w0(1) row0 row(2) del, THEN conjunct2, THEN conjunct2, THEN conjunct1, rule_format, OF refl]
  obtain now ms where ms: "ms \<in> {[], [delete_message E (delete_event a)]}" and
    v: "world_view b w' = (world_view b w)\<lparr>vRow := (vRow (world_view b w))(ID a \<mapsto> deleted_at now a),
         vMsgs := vMsgs (world_view b w) @ ms\<rparr>" unfolding w0(2) by blast
  have "cat b w' = (cat b w)(ID a := None)" "cat b w (ID a) = Some (entry_of (vObj (world_view b w)) a)"
    by (rule sim_deleted [OF keyed row ms, of w' now]; use world_viewD [OF v] in simp)+
  moreover have "owner (entry_of (vObj (world_view b w)) a) = req" using own by (simp add: entry_of_def)
  ultimately show ?thesis using uid newest_entry [OF new] by blast
qed

lemma GetFile_answer:
  assumes good: "good_world E w" and run: "svc_GetFile (world_service E b) i w = (Inr f, w1)" and read: "Body f w1 = ((d, None), w2)"
  shows "\<exists>u e. uuid_in E i = Some u \<and> cat b w u = Some e \<and> content e = Some d \<and> kind e = fileContentType f"
proof -
  obtain a w0 body where g: "pg_GetByID E i w = (Inr a, w0)" and o': "s3_Get (world_store b) (S3Key a) w0 = (Inr body, w1)"
    and f: "f = \<lparr>Body = body, fileContentType = MimeType a, fileSize = SizeBytes a\<rparr>"
    using run by (auto simp: svc_GetFile_def openOriginal_def split: prod.splits sum.splits if_splits)
  have w0: "good_world E w0" "world_view b w0 = world_view b w" using pgrow.row_law [OF good g] by blast+
  have w1: "good_world E w1" "world_view b w1 = world_view b w" using store.get_law [OF w0(1) o'] w0(2) by simp_all
  have row: "vRow (world_view b w) (ID a) = Some a" "live a" using pgrow.row_found [OF good g] by blast+
  have "body w1 = ((d, None), w2)" using read f by simp
  from store.read_law [OF w0(1) o' w1(1) this] obtain x where "vObj (world_view b w1) (S3Key a) = Some x" "d = oData x" by blast
  then have "cat b w (ID a) = Some (entry_of (vObj (world_view b w)) a)" "content (entry_of (vObj (world_view b w)) a) = Some d"
    using row w1(2) by (simp_all add: abstract_def entry_of_def)
  with GetByID_id [OF g] f show ?thesis by (auto simp: entry_of_def)
qed

subsection \<open>The system\<close>

text \<open>
  Server and worker from an empty table, bucket and broker on, with any faults: any request
  may come at any time, and an accepted message may be delivered at any later time, any
  number of times and in any order.
\<close>

inductive system :: "env \<Rightarrow> string \<Rightarrow> world \<Rightarrow> bool" for E b where
  empty: "rows (sh w) = [] \<Longrightarrow> sent (sh w) = [] \<Longrightarrow> objects b (sh w) = Map.empty \<Longrightarrow> quiet w \<Longrightarrow> system E b w"
| works: "system E b w \<Longrightarrow> delivered (sent (sh w)) j \<Longrightarrow> system E b (run_job E b j w)"

text \<open>The jobs that come from the clients, and the avatar that a job of the worker is about.\<close>

fun is_request :: "job \<Rightarrow> bool" where
  "is_request (UploadJob _ _ _) = True"
| "is_request (DeleteJob _ _) = True"
| "is_request (DeleteLatestJob _ _) = True"
| "is_request _ = False"

fun job_avatar :: "job \<Rightarrow> string" where
  "job_avatar (UploadEventJob ev) = upAvatarID ev"
| "job_avatar (DeleteEventJob dv) = delAvatarID dv"
| "job_avatar (UploadDeadJob ev) = upAvatarID ev"
| "job_avatar _ = []"

lemma job_works:
  assumes "ids_plain E" and good: "good_world E w" and keyed: "keyed E (world_view b w)"
    and del: "delivered (sent (sh w)) j" and "\<not> is_request j"
  shows "works_on E b (job_avatar j) w (run_job E b j w)"
proof (cases j)
  case (UploadEventJob ev)
  then obtain a where "row_of (rows (sh w)) (upAvatarID ev) = Some a" "upS3Key ev = S3Key a"
    using del known_upload [OF assms(1) keyed] by fastforce
  from HandleUpload_works [OF good keyed this prod.collapse [symmetric], THEN conjunct1] UploadEventJob show ?thesis by simp
next
  case (DeleteEventJob dv)
  then obtain a where "row_of (rows (sh w)) (delAvatarID dv) = Some a" "\<not> live a"
      "set (delS3Keys dv) \<subseteq> own_keys E (delAvatarID dv)"
    using del known_deletion [OF assms(1) keyed] by fastforce
  from HandleDelete_works [OF good keyed this prod.collapse [symmetric]] DeleteEventJob show ?thesis by simp
next
  case (UploadDeadJob ev)
  then obtain a where "row_of (rows (sh w)) (upAvatarID ev) = Some a"
    using del known_upload [OF assms(1) keyed] by fastforce
  from UploadFailed_works [OF good keyed this] UploadDeadJob show ?thesis by simp
qed (use assms(5) in simp_all)

lemma sim_job:
  assumes "keys_exact E" and "ids_plain E" and good: "good_world E w" and keyed: "keyed E (world_view b w)"
    and "delivered (sent (sh w)) j"
  shows "sim E b j w (run_job E b j w)"
proof (cases "is_request j")
  case True
  then show ?thesis
    using sim_Upload(1) [OF assms(1) good keyed prod.collapse [symmetric]]
      sim_Delete [OF good keyed prod.collapse [symmetric]] sim_DeleteLatest [OF good keyed prod.collapse [symmetric]]
    by (cases j) simp_all
next
  case False
  show ?thesis by (rule works_on_sim(1) [OF keyed job_works [OF assms(2) good keyed assms(5) False]])
qed

lemma system_inv:
  assumes "env_ok E" and "keys_exact E" and "ids_plain E" and "system E b w"
  shows "good_world E w \<and> keyed E (world_view b w)"
  using assms(4)
proof induction
  case (empty w)
  then show ?case using assms(1) by (simp add: good_world_def table_ok_def keyed_def row_of_def)
next
  case (works w j)
  then show ?case using sim_job [OF assms(2,3)] by (auto simp: sim_def)
qed

text \<open>
  C1: table, bucket and queues implement the catalogue. In every state the system reaches,
  with any faults and deliveries, every operation of server and worker is a step of the
  specification: only an upload adds an entry, only a request of the owner removes one, no
  job of the worker changes any, repeated or not. An upload that reports success has added
  exactly its entry with the client's bytes; a deletion that reports success has removed
  exactly the entry asked for; a deletion of the user's avatar that reports success was
  asked by the user, and has removed exactly one entry of the user that none of the user's
  entries is newer than; and a file read to its end is the content of the entry.
\<close>

theorem catalogue_refined:
  assumes "env_ok E" and "keys_exact E" and "ids_plain E" and "system E b w"
  shows "(\<forall>j. delivered (sent (sh w)) j \<longrightarrow> spec_step E j (cat b w) (cat b (run_job E b j w))) \<and>
    (\<forall>uid name data a w1. svc_Upload (world_service E b) uid name data w = (Inr a, w1) \<longrightarrow>
       cat b w (ID a) = None \<and> cat b w1 =
         (cat b w)(ID a \<mapsto> \<lparr>owner = UserID a, kind = MimeType a, since = CreatedAt a, content = Some data\<rparr>)) \<and>
    (\<forall>i req w1. svc_Delete (world_service E b) i req w = (Inr (), w1) \<longrightarrow>
       (\<exists>u e. uuid_in E i = Some u \<and> cat b w u = Some e \<and> owner e = req \<and> cat b w1 = (cat b w)(u := None))) \<and>
    (\<forall>uid req w1. svc_DeleteLatest (world_service E b) uid req w = (Inr (), w1) \<longrightarrow> uid = req \<and>
       (\<exists>u e. cat b w u = Some e \<and> owner e = req \<and> cat b w1 = (cat b w)(u := None) \<and>
         (\<forall>i f. cat b w i = Some f \<longrightarrow> owner f = req \<longrightarrow> since f \<le> since e))) \<and>
    (\<forall>i f w1 d w2. svc_GetFile (world_service E b) i w = (Inr f, w1) \<longrightarrow> Body f w1 = ((d, None), w2) \<longrightarrow>
       (\<exists>u e. uuid_in E i = Some u \<and> cat b w u = Some e \<and> content e = Some d \<and> kind e = fileContentType f))"
proof -
  have inv: "good_world E w" "keyed E (world_view b w)" using system_inv [OF assms] by blast+
  have "spec_step E j (cat b w) (cat b (run_job E b j w))" if "delivered (sent (sh w)) j" for j
    using sim_job [OF assms(2,3) inv that] by (simp add: sim_def)
  moreover note sim_Upload(2) [OF assms(2) inv _ refl]
  moreover note Delete_answer [OF inv] and DeleteLatest_answer [OF inv] and GetFile_answer [OF inv(1)]
  ultimately show ?thesis by blast
qed

text \<open>
  C10: a failed Upload leaves nothing half visible and overwrites nothing. In every state the
  system reaches, whatever fault made the upload fail: no event is sent, and no object that
  was there changes; either nothing changes at all, or exactly one row is added, live, under
  a new id, and names the key built from that id, under which nothing was stored and which
  no other row names; the row says uploaded only if the client's bytes are stored under its
  key, and nothing is ever stored under another one.
\<close>

theorem upload_failure:
  assumes "env_ok E" and "keys_exact E" and "ids_plain E" and "system E b w"
    and "svc_Upload (world_service E b) uid name data w = (Inl e, w')"
  shows "sent (sh w') = sent (sh w) \<and>
    (\<forall>k. objects b (sh w) k \<noteq> None \<longrightarrow> objects b (sh w') k = objects b (sh w) k) \<and>
    (row_of (rows (sh w')) = row_of (rows (sh w)) \<and> objects b (sh w') = objects b (sh w) \<or>
     (\<exists>y i. uuid_in E i = Some (ID y) \<and> S3Key y = OriginalKey i \<and> row_of (rows (sh w)) (ID y) = None \<and> live y \<and>
        objects b (sh w) (S3Key y) = None \<and>
        (\<forall>j x. row_of (rows (sh w)) j = Some x \<longrightarrow> S3Key x \<noteq> S3Key y) \<and>
        row_of (rows (sh w')) = (row_of (rows (sh w)))(ID y \<mapsto> y) \<and>
        (objects b (sh w') = objects b (sh w) \<and> UploadStatus y \<noteq> UploadStatusUploaded \<or>
         objects b (sh w') = (objects b (sh w))(S3Key y \<mapsto> \<lparr>oType = MimeType y, oData = data\<rparr>))))"
proof -
  have inv: "good_world E w" "keyed E (world_view b w)" using system_inv [OF assms(1-4)] by blast+
  show ?thesis
  proof (cases "world_view b w' = world_view b w")
    case True
    show ?thesis using world_viewD [OF True] by simp
  next
    case False
    then obtain x i y objs t st now where
      acc: "new_row E t (upload_record (world_service E b) uid name data i) = Some x" and
      none: "vRow (world_view b w) (ID x) = None" and
      v: "world_view b w' = (world_view b w)\<lparr>vRow := (vRow (world_view b w))(ID x \<mapsto> y), vObj := objs\<rparr>" and
      y: "y = x\<lparr>UploadStatus := st, UpdatedAt := now\<rparr>" and
      o': "objs = vObj (world_view b w) \<and> UploadStatus y \<noteq> UploadStatusUploaded \<or>
         objs = (vObj (world_view b w))(S3Key x \<mapsto> \<lparr>oType = MimeType x, oData = data\<rparr>)"
      using svc.Upload_failed [OF inv(1) assms(5)] by blast
    have x: "live x" "uuid_in E i = Some (ID x)" "S3Key x = OriginalKey i"
      using new_row_fields [OF acc] assms(2) by (auto simp: keys_exact_def upload_record_def split: prod.splits)
    have yf: "ID y = ID x" "S3Key y = S3Key x" "MimeType y = MimeType x" "live y" using y x(1) by (simp_all add: live_def)
    note fresh = fresh_key [OF inv(2) none x(2,3)]
    have "uuid_in E i = Some (ID y) \<and> S3Key y = OriginalKey i \<and> row_of (rows (sh w)) (ID y) = None \<and> live y \<and>
        objects b (sh w) (S3Key y) = None \<and>
        (\<forall>j z. row_of (rows (sh w)) j = Some z \<longrightarrow> S3Key z \<noteq> S3Key y) \<and>
        row_of (rows (sh w')) = (row_of (rows (sh w)))(ID y \<mapsto> y) \<and>
        (objects b (sh w') = objects b (sh w) \<and> UploadStatus y \<noteq> UploadStatusUploaded \<or>
         objects b (sh w') = (objects b (sh w))(S3Key y \<mapsto> \<lparr>oType = MimeType y, oData = data\<rparr>))"
      using world_viewD [OF v] none x(2,3) yf fresh o' by simp
    moreover have "sent (sh w') = sent (sh w)" using world_viewD [OF v] by simp
    moreover have "objects b (sh w') k = objects b (sh w) k" if "objects b (sh w) k \<noteq> None" for k
      using that fresh(1) o' world_viewD(2) [OF v] by (auto split: if_splits)
    ultimately show ?thesis by blast
  qed
qed

subsection \<open>A concrete system\<close>

definition plain_env :: env where
  "plain_env = sample_env\<lparr>uuid_in := (\<lambda>i. if i \<noteq> [] \<and> list_all (\<lambda>c. of_char c < (128 :: nat)) i then Some i else None)\<rparr>"

lemma plain_env_ok: "env_ok plain_env" "keys_exact plain_env" "ids_plain plain_env"
  by (simp_all add: plain_env_def env_ok_def keys_exact_def ids_plain_def sample_env_def)

text \<open>The first upload of a system, all calls answered.\<close>

lemma sample_plain_upload:
  obtains a w where "svc_Upload (world_service plain_env ''b'') ''ann'' ''n'' ''abcd'' (sample_world [] Map.empty []) = (Inr a, w)"
    "sent (sh w) = [upload_message plain_env (upload_event a)]" "script w = []" "buckets (sh w) ''b'' \<noteq> None"
    "\<exists>y. row_of (rows (sh w)) (ID a) = Some y \<and> live y \<and> ProcessingStatus y = ProcessingStatusPending"
proof -
  let ?w = "sample_world [] Map.empty []"
  have gen: "uuid_gen plain_env (next_id ?w) = ''id-7''" by (simp add: plain_env_def sample_env_def dec_7)
  obtain a where a: "new_row plain_env (clock ?w) (upload_record (world_service plain_env ''b'') ''ann'' ''n'' ''abcd''
      (uuid_gen plain_env (next_id ?w))) = Some a"
    unfolding gen
    by (simp add: new_row_def upload_record_def plain_env_def sample_env_def sample_name OriginalKey_def int8_ok_def int4_ok_def)
  have "ID a \<notin> set (map ID (rows (sh ?w)))" by simp
  from Upload_answered [OF plain_env_ok(1) _ _ a this] obtain w where
    run: "svc_Upload (world_service plain_env ''b'') ''ann'' ''n'' ''abcd'' ?w = (Inr (a\<lparr>UploadStatus := UploadStatusUploaded\<rparr>), w)"
    and w: "sent (sh w) = [upload_message plain_env (upload_event (a\<lparr>UploadStatus := UploadStatusUploaded\<rparr>))]" "script w = []"
    by (fastforce simp: upload_event_def)
  have "good_world plain_env ?w" using plain_env_ok(1) by (simp add: good_world_def table_ok_def)
  from Upload_facts [OF this run] obtain now where f: "row_of (rows (sh w)) (ID a) = Some (a\<lparr>UploadStatus := UploadStatusUploaded, UpdatedAt := now\<rparr>)"
    "live a" "ProcessingStatus a = ProcessingStatusPending" "objects ''b'' (sh w) (S3Key a) \<noteq> None"
    by (auto simp: live_def)
  have "buckets (sh w) ''b'' \<noteq> None" using f(4) by (auto simp: objects_def split: option.splits)
  with that [OF run w] f(1-3) show thesis by (simp add: live_def)
qed

theorem catalogue_refined_witness:
  "\<exists>a w1. svc_Upload (world_service plain_env ''b'') ''ann'' ''n'' ''abcd'' (sample_world [] Map.empty []) = (Inr a, w1) \<and>
     cat ''b'' w1 = [ID a \<mapsto> \<lparr>owner = UserID a, kind = MimeType a, since = CreatedAt a, content = Some ''abcd''\<rparr>]"
proof -
  let ?w = "sample_world [] Map.empty []"
  have sys: "system plain_env ''b'' ?w" by (rule system.empty) (simp_all add: quiet_def)
  obtain a w where run: "svc_Upload (world_service plain_env ''b'') ''ann'' ''n'' ''abcd'' ?w = (Inr a, w)"
    by (rule sample_plain_upload)
  moreover have "cat ''b'' ?w = Map.empty" by (simp add: abstract_def row_of_def fun_eq_iff)
  ultimately show ?thesis
    using catalogue_refined [OF plain_env_ok sys, THEN conjunct2, THEN conjunct1, rule_format, OF run] by auto
qed

theorem upload_failure_witness:
  "\<exists>e w'. svc_Upload (world_service plain_env ''b2'') ''ann'' ''n'' ''abcd'' (sample_world [] Map.empty []) = (Inl e, w') \<and>
     sent (sh w') = []"
proof -
  let ?w = "sample_world [] Map.empty []"
  have sys: "system plain_env ''b2'' ?w" by (rule system.empty) (simp_all add: quiet_def objects_def)
  have gen: "uuid_gen plain_env (next_id ?w) = ''id-7''" by (simp add: plain_env_def sample_env_def dec_7)
  obtain a where a: "new_row plain_env (clock ?w) (upload_record (world_service plain_env ''b2'') ''ann'' ''n'' ''abcd'' ''id-7'') = Some a"
    by (simp add: new_row_def upload_record_def plain_env_def sample_env_def sample_name OriginalKey_def int8_ok_def int4_ok_def)
  obtain e w' where run: "svc_Upload (world_service plain_env ''b2'') ''ann'' ''n'' ''abcd'' ?w = (Inl e, w')"
    using a gen by (simp add: svc_Upload_def pg_Create_def remote_answered sql_insert_def scanAvatar_def
        s3_Put_def act_put_def case_prod_unfold)
  with upload_failure [OF plain_env_ok sys run] show ?thesis by auto
qed

end
