(* ===== verification/Delivery.thy ===== *)
theory Delivery
  imports Catalogue Topology
begin

section \<open>From the queues to the handlers\<close>

text \<open>
  The whole deployment: server requests, the broker with the topology that \<^verbatim>\<open>Declare\<close> sets
  up, and workers that take messages off the queues, run the handlers on them and settle
  them as \<^verbatim>\<open>process\<close> does. The state adds to the world what the broker keeps: the queues,
  the deliveries that are not settled yet, and a record of the messages acknowledged.
  The steps are the requests, the moves of the broker, single calls of a handler, the
  callback for dead messages, the settlements and the loss of a worker or of its
  connection; the source's \<^verbatim>\<open>process\<close> is a sequence of such steps.
\<close>

subsection \<open>The state\<close>

record flight =
  fTag :: nat
  fQueue :: string
  fMsg :: message

record deployment =
  wld :: world
  brk :: broker
  next_tag :: nat
  unacked :: "flight list"
  stale :: "flight list"
  ackd :: "(string \<times> message) list"

text \<open>
  What a handler does to the world, and the messages it has handed to the broker: they are
  routed as the bindings say.
\<close>

definition publish_all :: "message list \<Rightarrow> broker \<Rightarrow> broker" where
  "publish_all ms br = fold (\<lambda>m br. snd (chPublish broker_channel m br)) ms br"

definition accept :: "world \<Rightarrow> deployment \<Rightarrow> deployment" where
  "accept w s = s\<lparr>wld := w, brk := publish_all (drop (length (sent (sh (wld s)))) (sent (sh w))) (brk s)\<rparr>"

definition on_world :: "(world, 'a) io \<Rightarrow> (deployment, 'a) io" where
  "on_world f s = (case f (wld s) of (r, w) \<Rightarrow> (r, accept w s))"

definition deployed_handlers :: "env \<Rightarrow> string \<Rightarrow> deployment Handlers" where
  "deployed_handlers E b = \<lparr>OnUpload = (\<lambda>ev. on_world (HandleUpload (world_processor E b) ev)),
     OnDelete = (\<lambda>dv. on_world (HandleDelete (world_processor E b) dv)),
     OnUploadDead = Some (\<lambda>ev s. accept (UploadFailed (world_processor E b) ev (wld s)) s)\<rparr>"

text \<open>
  A delivery of the broker. It can be settled once, over the connection it came by: a stale
  delivery cannot. A rejected message goes where the queue's dead-letter exchange routes it.
\<close>

definition flight_delivery :: "flight \<Rightarrow> deployment Delivery" where
  "flight_delivery f = \<lparr>dBody = Some (mBody (fMsg f)), dHeaders = mHeaders (fMsg f),
     dRoutingKey = mKey (fMsg f), dMessageId = mId (fMsg f),
     dAck = (\<lambda>s. if f \<in> set (unacked s)
       then (Inr (), s\<lparr>unacked := remove1 f (unacked s), ackd := ackd s @ [(fQueue f, fMsg f)]\<rparr>)
       else (Inl ErrAmqpClosed, s)),
     dNack = (\<lambda>requeue s. if f \<in> set (unacked s)
       then (Inr (), s\<lparr>unacked := remove1 f (unacked s), brk := (brk s)\<lparr>contents := contents (brk s) @
         (if requeue then [(fQueue f, fMsg f)]
          else map (\<lambda>q. (q, fMsg f)) (dead_letter (brk s) (fQueue f) (mKey (fMsg f))))\<rparr>\<rparr>)
       else (Inl ErrAmqpClosed, s))\<rparr>"

text \<open>What Run passes to the loop of each queue: the handler, and the callback of the upload queue.\<close>

definition queue_handler :: "'w Handlers \<Rightarrow> string \<Rightarrow> 'w Delivery \<Rightarrow> ('w, unit) io" where
  "queue_handler h q = (if q = QueueUpload then handle_upload h else handle_delete h)"

definition queue_dead :: "'w Handlers \<Rightarrow> string \<Rightarrow> ('w Delivery \<Rightarrow> 'w \<Rightarrow> 'w) option" where
  "queue_dead h q = (if q = QueueUpload then Some (dead_upload h) else None)"

definition attempt :: "env \<Rightarrow> string \<Rightarrow> flight \<Rightarrow> (deployment, unit) io" where
  "attempt E b f = queue_handler (deployed_handlers E b) (fQueue f) (flight_delivery f)"

definition give_up :: "env \<Rightarrow> string \<Rightarrow> flight \<Rightarrow> deployment \<Rightarrow> deployment" where
  "give_up E b f s = (case queue_dead (deployed_handlers E b) (fQueue f) of
     None \<Rightarrow> s | Some dead \<Rightarrow> dead (flight_delivery f) s)"

definition process_flight :: "deployment goctx \<Rightarrow> int list \<Rightarrow> env \<Rightarrow> string \<Rightarrow> flight \<Rightarrow> deployment \<Rightarrow> deployment" where
  "process_flight ctx backoff E b f = process ctx backoff
     (queue_handler (deployed_handlers E b) (fQueue f)) (queue_dead (deployed_handlers E b) (fQueue f)) (flight_delivery f)"

subsection \<open>The steps\<close>

abbreviation in_flight :: "flight \<Rightarrow> deployment \<Rightarrow> bool" where
  "in_flight f s \<equiv> f \<in> set (unacked s) \<union> set (stale s)"

definition take_off :: "string \<times> message \<Rightarrow> (string \<times> message) list \<Rightarrow> deployment \<Rightarrow> deployment" where
  "take_off p rest s = s\<lparr>brk := (brk s)\<lparr>contents := rest\<rparr>, next_tag := Suc (next_tag s),
     unacked := unacked s @ [\<lparr>fTag = next_tag s, fQueue = fst p, fMsg = snd p\<rparr>]\<rparr>"

definition requeue_all :: "deployment \<Rightarrow> deployment" where
  "requeue_all s = s\<lparr>brk := (brk s)\<lparr>contents := contents (brk s) @ map (\<lambda>f. (fQueue f, fMsg f)) (unacked s)\<rparr>,
     unacked := []\<rparr>"

text \<open>
  The broker hands out any message of a work queue. The handler of a delivery that is not
  settled may be called at any time, also when the connection of its worker is lost and the
  message is back in its queue; only a call that succeeds is followed by an acknowledgement.
\<close>

inductive dstep :: "env \<Rightarrow> string \<Rightarrow> deployment \<Rightarrow> deployment \<Rightarrow> bool" for E b where
  requests: "is_request j \<Longrightarrow> dstep E b s (accept (run_job E b j (wld s)) s)"
| declares: "dstep E b s (s\<lparr>brk := snd (Declare broker_channel (brk s))\<rparr>)"
| delivers: "contents (brk s) = xs @ p # ys \<Longrightarrow> fst p \<in> {QueueUpload, QueueDelete} \<Longrightarrow>
    dstep E b s (take_off p (xs @ ys) s)"
| attempts: "in_flight f s \<Longrightarrow> dstep E b s (snd (attempt E b f s))"
| acks: "f \<in> set (unacked s) \<Longrightarrow> attempt E b f s = (Inr (), s1) \<Longrightarrow>
    dstep E b s (snd (dAck (flight_delivery f) s1))"
| requeues: "f \<in> set (unacked s) \<Longrightarrow> dstep E b s (snd (dNack (flight_delivery f) True s))"
| gives_up: "in_flight f s \<Longrightarrow> dstep E b s (give_up E b f s)"
| buries: "f \<in> set (unacked s) \<Longrightarrow> dstep E b s (snd (dNack (flight_delivery f) False s))"
| dies: "dstep E b s (requeue_all s)"
| loses_link: "dstep E b s ((requeue_all s)\<lparr>stale := stale s @ unacked s\<rparr>)"

text \<open>A deployment starts with nothing stored, nothing sent and a broker with the topology.\<close>

definition starts :: "string \<Rightarrow> deployment \<Rightarrow> bool" where
  "starts b s \<longleftrightarrow> rows (sh (wld s)) = [] \<and> sent (sh (wld s)) = [] \<and> objects b (sh (wld s)) = Map.empty \<and>
     quiet (wld s) \<and> (\<exists>u. Declare broker_channel no_broker = (u, brk s)) \<and>
     unacked s = [] \<and> stale s = [] \<and> ackd s = []"

definition reaches :: "env \<Rightarrow> string \<Rightarrow> deployment \<Rightarrow> bool" where
  "reaches E b s \<longleftrightarrow> (\<exists>s0. starts b s0 \<and> (dstep E b)\<^sup>*\<^sup>* s0 s)"

lemma reaches_induct [consumes 1, case_names starts step]:
  assumes "reaches E b s" and "\<And>s. starts b s \<Longrightarrow> P s"
    and "\<And>s s'. reaches E b s \<Longrightarrow> P s \<Longrightarrow> dstep E b s s' \<Longrightarrow> P s'"
  shows "P s"
proof -
  obtain s0 where s0: "starts b s0" and run: "(dstep E b)\<^sup>*\<^sup>* s0 s"
    using assms(1) by (auto simp: reaches_def)
  from run show ?thesis
  proof (induction rule: rtranclp_induct)
    case base
    then show ?case by (rule assms(2) [OF s0])
  next
    case (step t u)
    have "reaches E b t" unfolding reaches_def using s0 step.hyps(1) by blast
    then show ?case using step by (blast intro: assms(3))
  qed
qed

lemma reaches_run: "reaches E b s \<Longrightarrow> (dstep E b)\<^sup>*\<^sup>* s s' \<Longrightarrow> reaches E b s'"
  unfolding reaches_def by (meson rtranclp_trans)

subsection \<open>What a request does\<close>

text \<open>
  At most one message is sent, an upload's only for an avatar that was not there before and
  whose original is stored; of the rows that were there, those that are live afterwards are
  as they were, with their originals; a new row waits for its processing; and no thumbnail
  changes.
\<close>

definition requested :: "string \<Rightarrow> world \<Rightarrow> world \<Rightarrow> bool" where
  "requested b w w' \<longleftrightarrow>
     (\<exists>ms. sent (sh w') = sent (sh w) @ ms \<and> length ms \<le> 1 \<and>
        (\<forall>m \<in> set ms. mKey m = QueueUpload \<longrightarrow> row_of (rows (sh w)) (mId m) = None \<and>
           (\<exists>a. row_of (rows (sh w')) (mId m) = Some a \<and> objects b (sh w') (S3Key a) \<noteq> None))) \<and>
     (\<forall>i a. row_of (rows (sh w)) i \<noteq> None \<longrightarrow> row_of (rows (sh w')) i = Some a \<longrightarrow> live a \<longrightarrow>
        row_of (rows (sh w)) i = Some a) \<and>
     (\<forall>i a. row_of (rows (sh w)) i = Some a \<longrightarrow> objects b (sh w') (S3Key a) = objects b (sh w) (S3Key a)) \<and>
     (\<forall>i a. row_of (rows (sh w)) i = None \<longrightarrow> row_of (rows (sh w')) i = Some a \<longrightarrow> live a \<longrightarrow>
        ProcessingStatus a = ProcessingStatusPending) \<and>
     (\<forall>i px. objects b (sh w') (ThumbnailKey i px) = objects b (sh w) (ThumbnailKey i px))"

lemma requestedD:
  assumes "requested b w w'"
  shows "row_of (rows (sh w)) i \<noteq> None \<Longrightarrow> row_of (rows (sh w')) i = Some a \<Longrightarrow> live a \<Longrightarrow> row_of (rows (sh w)) i = Some a"
    and "row_of (rows (sh w)) i = Some a \<Longrightarrow> objects b (sh w') (S3Key a) = objects b (sh w) (S3Key a)"
    and "row_of (rows (sh w)) i = None \<Longrightarrow> row_of (rows (sh w')) i = Some a \<Longrightarrow> live a \<Longrightarrow> ProcessingStatus a = ProcessingStatusPending"
    and "objects b (sh w') (ThumbnailKey i px) = objects b (sh w) (ThumbnailKey i px)"
  using assms unfolding requested_def by simp_all

lemma requested_same_view:
  assumes "world_view b w' = world_view b w"
  shows "requested b w w'"
  unfolding requested_def using world_viewD [OF assms] by simp

lemma requested_deletes:
  assumes "deletes E b a w w'"
  shows "requested b w w'"
proof -
  have dead: "\<not> live (deleted_at now a)" for now by (simp add: deleted_at_def live_def)
  obtain now ms where "ms \<in> {[], [delete_message E (delete_event a)]}" "sent (sh w') = sent (sh w) @ ms"
    "row_of (rows (sh w')) = (row_of (rows (sh w)))(ID a \<mapsto> deleted_at now a)" "objects b (sh w') = objects b (sh w)"
    using assms by (auto simp: deletes_def)
  with dead show ?thesis unfolding requested_def by (auto split: if_splits)
qed

lemma requested_Upload:
  assumes "keys_exact E" and good: "good_world E w" and keyed: "keyed E (world_view b w)"
    and run: "svc_Upload (world_service E b) uid name data w = (r, w')"
  shows "requested b w w'"
proof -
  have added: ?thesis
    if x: "new_row E t (upload_record (world_service E b) uid name data i) = Some x" "vRow (world_view b w) (ID x) = None"
      and y: "ID y = ID x" "S3Key y = S3Key x" "ProcessingStatus y = ProcessingStatus x" and row: "row_of (rows (sh w')) = (row_of (rows (sh w)))(ID x \<mapsto> y)"
      and obj: "objects b (sh w') = objects b (sh w) \<or> objects b (sh w') = (objects b (sh w))(S3Key x \<mapsto> ob)"
      and ms: "sent (sh w') = sent (sh w) @ ms" "ms = [] \<or> ms = [upload_message E (upload_event x)] \<and>
        objects b (sh w') = (objects b (sh w))(S3Key x \<mapsto> ob)" for t i x y ob ms
  proof -
    have key: "S3Key x = OriginalKey i" "uuid_in E i = Some (ID x)"
      using new_row_fields [OF x(1)] assms(1) by (auto simp: keys_exact_def upload_record_def split: prod.splits)
    note fresh = fresh_key(2) [OF keyed x(2) key(2,1)]
    have pending: "ProcessingStatus y = ProcessingStatusPending" using y(3) new_row_fields [OF x(1)] by simp
    have thumbs: "objects b (sh w') (ThumbnailKey j px) = objects b (sh w) (ThumbnailKey j px)" for j px
    proof -
      have "ThumbnailKey j px \<noteq> S3Key x" unfolding key(1) by (simp add: OriginalKey_def ThumbnailKey_def)
      then show ?thesis using obj by (elim disjE) simp_all
    qed
    have none: "row_of (rows (sh w)) (ID x) = None" using x(2) by simp
    have id: "mId (upload_message E (upload_event x)) = ID x" by (simp add: upload_message_def)
    have other: "objects b (sh w') (S3Key a) = objects b (sh w) (S3Key a)" if "row_of (rows (sh w)) j = Some a" for j a
    proof -
      have "S3Key a \<noteq> S3Key x" using fresh [of j a] that by simp
      then show ?thesis using obj by (elim disjE) simp_all
    qed
    have "length ms \<le> 1 \<and> (\<forall>m \<in> set ms. mKey m = QueueUpload \<longrightarrow> row_of (rows (sh w)) (mId m) = None \<and>
        (\<exists>a. row_of (rows (sh w')) (mId m) = Some a \<and> objects b (sh w') (S3Key a) \<noteq> None))"
      using ms(2) none row y(2) id by (elim disjE) simp_all
    with ms(1) other none row pending thumbs show ?thesis unfolding requested_def by auto
  qed
  show ?thesis
  proof (cases r)
    case (Inr a)
    from svc.Upload_ok [OF good run [unfolded Inr]] obtain x i now t ms where
      x: "new_row E t (upload_record (world_service E b) uid name data i) = Some x" "vRow (world_view b w) (ID x) = None"
      and ms: "ms \<in> {[], [upload_message E (upload_event x)]}"
      and v: "world_view b w' = (world_view b w)\<lparr>
         vRow := (vRow (world_view b w))(ID x \<mapsto> x\<lparr>UploadStatus := UploadStatusUploaded, UpdatedAt := now\<rparr>),
         vObj := (vObj (world_view b w))(S3Key x \<mapsto> \<lparr>oType = MimeType x, oData = data\<rparr>),
         vMsgs := vMsgs (world_view b w) @ ms\<rparr>"
      unfolding upload_message_of by blast
    show ?thesis
      by (rule added [OF x, of "x\<lparr>UploadStatus := UploadStatusUploaded, UpdatedAt := now\<rparr>" "\<lparr>oType = MimeType x, oData = data\<rparr>" ms])
         (use world_viewD [OF v] ms in auto)
  next
    case (Inl e)
    from svc.Upload_failed [OF good run [unfolded Inl]] consider "world_view b w' = world_view b w" |
      (row) x i y objs st now t where "new_row E t (upload_record (world_service E b) uid name data i) = Some x"
        "vRow (world_view b w) (ID x) = None" "y = x\<lparr>UploadStatus := st, UpdatedAt := now\<rparr>"
        "world_view b w' = (world_view b w)\<lparr>vRow := (vRow (world_view b w))(ID x \<mapsto> y), vObj := objs\<rparr>"
        "objs = vObj (world_view b w) \<or> objs = (vObj (world_view b w))(S3Key x \<mapsto> \<lparr>oType = MimeType x, oData = data\<rparr>)"
      by blast
    then show ?thesis
    proof cases
      case 1
      then show ?thesis by (rule requested_same_view)
    next
      case row
      show ?thesis
        by (rule added [OF row(1,2), of y "\<lparr>oType = MimeType x, oData = data\<rparr>" "[]"])
           (use world_viewD [OF row(4)] row(3,5) in auto)
    qed
  qed
qed

lemma request_effect:
  assumes "keys_exact E" and good: "good_world E w" and keyed: "keyed E (world_view b w)" and "is_request j"
  shows "requested b w (run_job E b j w)"
proof (cases j)
  case (UploadJob uid name data)
  then show ?thesis using requested_Upload [OF assms(1) good keyed prod.collapse [symmetric]] by simp
next
  case (DeleteJob i req)
  then show ?thesis
    using Delete_outcome [OF good prod.collapse [symmetric], of b i req] requested_same_view requested_deletes by auto
next
  case (DeleteLatestJob uid req)
  then show ?thesis
    using DeleteLatest_outcome [OF good prod.collapse [symmetric], of b uid req] requested_same_view requested_deletes by auto
qed (use assms(4) in simp_all)

text \<open>Requests and jobs leave every row tidy, whatever faults occur.\<close>

definition tidy :: "env \<Rightarrow> string \<Rightarrow> world \<Rightarrow> bool" where
  "tidy E b w \<longleftrightarrow> (\<forall>i a. row_of (rows (sh w)) i = Some a \<longrightarrow> tidy_row E (objects b (sh w)) a)"


lemma request_tidy:
  assumes req: "requested b w w'" and "tidy E b w"
  shows "tidy E b w'"
proof -
  have "tidy_row E (objects b (sh w')) a" if row': "row_of (rows (sh w')) i = Some a" and live: "live a" for i a
  proof (cases "row_of (rows (sh w)) i")
    case None
    from requestedD(3) [OF req this row' live] show ?thesis by (simp add: tidy_row_def)
  next
    case (Some x)
    then have "row_of (rows (sh w)) i = Some a" using requestedD(1) [OF req _ row' live] by simp
    with same_files(2) [OF requestedD(2) [OF req this] requestedD(4) [OF req]] assms(2) show ?thesis unfolding tidy_def by blast
  qed
  then show ?thesis unfolding tidy_def tidy_row_def by blast
qed

text \<open>A job of the worker does not touch the files of the other live avatars.\<close>

lemma works_files:
  assumes "keyed E (world_view b w)" and "works_on E b i w w'" and row: "row_of (rows (sh w)) j = Some a" and "live a" "j \<noteq> i"
  shows "settled E (objects b (sh w')) a = settled E (objects b (sh w)) a"
    and "tidy_row E (objects b (sh w')) a = tidy_row E (objects b (sh w)) a"
proof -
  have "ID a = j" using keyedD(1) [OF assms(1), of j a] row by simp
  then have "objects b (sh w') (S3Key a) = objects b (sh w) (S3Key a)"
    "\<And>px. objects b (sh w') (ThumbnailKey (ID a) px) = objects b (sh w) (ThumbnailKey (ID a) px)"
    using assms(2,4,5) row unfolding works_on_def by blast+
  from same_files [OF this] show "settled E (objects b (sh w')) a = settled E (objects b (sh w)) a"
    "tidy_row E (objects b (sh w')) a = tidy_row E (objects b (sh w)) a" .
qed

lemma works_tidy:
  assumes keyed: "keyed E (world_view b w)" and eff: "works_on E b i w w'" and "tidy E b w"
  shows "tidy E b w'"
proof -
  have "tidy_row E (objects b (sh w')) a" if row': "row_of (rows (sh w')) j = Some a" and live: "live a" for j a
  proof (cases "j = i")
    case True
    with eff assms(3) row' show ?thesis unfolding works_on_def tidy_def by auto
  next
    case False
    then have row: "row_of (rows (sh w)) j = Some a" using eff row' by (auto simp: works_on_def)
    with works_files(2) [OF keyed eff row live False] assms(3) show ?thesis unfolding tidy_def by blast
  qed
  then show ?thesis unfolding tidy_def tidy_row_def by blast
qed

subsection \<open>The broker behind the topology\<close>

definition topology_broker :: "broker \<Rightarrow> bool" where
  "topology_broker br \<longleftrightarrow> has_topology br \<and> bindings br = topology_bindings"

definition addressed :: "message \<Rightarrow> bool" where
  "addressed m \<longleftrightarrow> mExchange m = Exchange \<and> mKey m \<in> {QueueUpload, QueueDelete}"

lemma topology_brokerD:
  assumes "topology_broker br"
  shows "addressed m \<Longrightarrow> chPublish broker_channel m br = (Inr (), br\<lparr>contents := contents br @ [(mKey m, m)]\<rparr>)"
    and "q \<in> {QueueUpload, QueueDelete} \<Longrightarrow> dead_letter br q q = [QueueDead]"
    and "Declare broker_channel br = (Inr (), br)"
    and "topology_broker (br\<lparr>contents := ps\<rparr>)"
proof -
  have h: "has_topology br" and b: "bindings br = topology_bindings" using assms by (simp_all add: topology_broker_def)
  have top: "exchanges br Exchange = Some (''direct'', plain)" "queues br QueueUpload = Some workArgs"
    "queues br QueueDelete = Some workArgs" using h by (simp_all only: has_topology_def)
  show "chPublish broker_channel m br = (Inr (), br\<lparr>contents := contents br @ [(mKey m, m)]\<rparr>)" if "addressed m"
  proof -
    have "mExchange m = Exchange" "mKey m = QueueUpload \<or> mKey m = QueueDelete" using that by (simp_all add: addressed_def)
    then show ?thesis
      by (insert top b, elim disjE) (simp_all add: broker_channel_def route_def topology_bindings_def)
  qed
  show "dead_letter br q q = [QueueDead]" if "q \<in> {QueueUpload, QueueDelete}"
    by (insert that top b, elim insertE emptyE) (simp_all add: dead_letter_def route_def topology_bindings_def workArgs_def)
  show "Declare broker_channel br = (Inr (), br)" by (rule Declare_topology [OF h])
  show "topology_broker (br\<lparr>contents := ps\<rparr>)" using assms by (simp add: topology_broker_def has_topology_def)
qed

lemma fresh_topology:
  assumes "Declare broker_channel no_broker = (u, br)"
  shows "topology_broker br \<and> contents br = []"
proof -
  obtain br' where br': "Declare broker_channel no_broker = (Inr (), br')" "bindings br' = topology_bindings" "contents br' = []"
    by (simp add: Declare_def broker_new no_broker_def topology_bindings_def)
  with assms have "br = br'" by simp
  with br'(2,3) Declare_establishes [OF br'(1)] show ?thesis by (simp add: topology_broker_def)
qed

lemma publish_all_topology:
  "topology_broker br \<Longrightarrow> \<forall>m \<in> set ms. addressed m \<Longrightarrow>
   publish_all ms br = br\<lparr>contents := contents br @ map (\<lambda>m. (mKey m, m)) ms\<rparr>"
proof (induction ms arbitrary: br)
  case (Cons m ms)
  let ?br = "br\<lparr>contents := contents br @ [(mKey m, m)]\<rparr>"
  have "publish_all (m # ms) br = publish_all ms ?br"
    using topology_brokerD(1) [OF Cons.prems(1), of m] Cons.prems(2) by (simp add: publish_all_def)
  with Cons.IH [OF topology_brokerD(4) [OF Cons.prems(1)]] Cons.prems(2) show ?case by simp
qed (simp add: publish_all_def)

lemma accept_topology:
  assumes "topology_broker (brk s)" and "sent (sh w) = sent (sh (wld s)) @ ms" and "\<forall>m \<in> set ms. addressed m"
  shows "accept w s = s\<lparr>wld := w, brk := (brk s)\<lparr>contents := contents (brk s) @ map (\<lambda>m. (mKey m, m)) ms\<rparr>\<rparr>"
  using publish_all_topology [OF assms(1,3)] assms(2) by (simp add: accept_def)

lemma accept_silent:
  assumes "topology_broker (brk s)" and "sent (sh w) = sent (sh (wld s))"
  shows "accept w s = s\<lparr>wld := w\<rparr>"
  using accept_topology [OF assms(1), of w "[]"] assms(2) by simp

text \<open>Every message sent is addressed and decodes to an event of its avatar.\<close>

lemma known_addressed: "known_msg E rw m \<Longrightarrow> addressed m"
  by (auto simp: known_msg_def addressed_def upload_message_def delete_message_def)

lemma known_decodes:
  assumes "ids_plain E" and keyed: "keyed E v" and m: "m \<in> set (vMsgs v)"
  shows "mKey m = QueueUpload \<and> (\<exists>ev. unmarshal_upload (Some (mBody m)) = Inr ev \<and> upAvatarID ev = mId m) \<or>
    mKey m = QueueDelete \<and> (\<exists>dv. unmarshal_delete (Some (mBody m)) = Inr dv \<and> delAvatarID dv = mId m)"
proof -
  obtain a where a: "vRow v (ID a) = Some a" and
    m: "m = upload_message E (upload_event a) \<or> (\<exists>ks. m = delete_message E \<lparr>delAvatarID = ID a, delS3Keys = ks\<rparr>)"
    using keyedD(3) [OF keyed m] by (auto simp: known_msg_def)
  obtain i where "uuid_in E i = Some (ID a)" using keyedD(1) [OF keyed a] by (auto simp: row_keyed_def)
  then have "valid_utf8 (ID a)" using assms(1) by (auto simp: ids_plain_def intro: valid_utf8_ascii)
  with m show ?thesis
    by (auto simp: upload_message_def delete_message_def upload_roundtrip_clean delete_roundtrip_clean)
qed

text \<open>
  The handler of a delivery, and the callback, do to the world what a job on an accepted
  message does: an attempt at an upload is the job on its event, and so on.
\<close>

definition flight_ok :: "deployment \<Rightarrow> flight \<Rightarrow> bool" where
  "flight_ok s f \<longleftrightarrow> fQueue f = mKey (fMsg f) \<and> fMsg f \<in> set (sent (sh (wld s)))"

lemma attempt_job:
  assumes "ids_plain E" and keyed: "keyed E (world_view b (wld s))" and f: "flight_ok s f"
  obtains j where "delivered (sent (sh (wld s))) j" "\<not> is_request j" "job_avatar j = mId (fMsg f)"
    "attempt E b f s = (fst (attempt E b f s), accept (run_job E b j (wld s)) s)"
    "mKey (fMsg f) = QueueUpload \<Longrightarrow> \<exists>ev x. upAvatarID ev = mId (fMsg f) \<and>
       row_of (rows (sh (wld s))) (upAvatarID ev) = Some x \<and> upS3Key ev = S3Key x \<and>
       HandleUpload (world_processor E b) ev (wld s) = (fst (attempt E b f s), run_job E b j (wld s))"
proof -
  have m: "fMsg f \<in> set (vMsgs (world_view b (wld s)))" using f by (simp add: flight_ok_def)
  from known_decodes [OF assms(1) keyed m] show thesis
  proof (elim disjE conjE exE)
    fix ev
    assume ev: "mKey (fMsg f) = QueueUpload" "unmarshal_upload (Some (mBody (fMsg f))) = Inr ev" "upAvatarID ev = mId (fMsg f)"
    have "delivered (sent (sh (wld s))) (UploadEventJob ev)" using ev f by (auto simp: flight_ok_def)
    moreover have "attempt E b f s = on_world (HandleUpload (world_processor E b) ev) s"
      using ev f by (simp add: attempt_def queue_handler_def flight_ok_def handle_upload_def flight_delivery_def deployed_handlers_def)
    moreover obtain x where "row_of (rows (sh (wld s))) (upAvatarID ev) = Some x" "upS3Key ev = S3Key x"
      using known_upload [OF assms(1) keyed m ev(1,2)] by auto
    ultimately show thesis
      using ev by (intro that [of "UploadEventJob ev"]) (auto simp: on_world_def split: prod.splits)
  next
    fix dv
    assume dv: "mKey (fMsg f) = QueueDelete" "unmarshal_delete (Some (mBody (fMsg f))) = Inr dv" "delAvatarID dv = mId (fMsg f)"
    have "delivered (sent (sh (wld s))) (DeleteEventJob dv)" using dv f by (auto simp: flight_ok_def)
    moreover have "attempt E b f s = on_world (HandleDelete (world_processor E b) dv) s"
      using dv f by (simp add: attempt_def queue_handler_def flight_ok_def handle_delete_def flight_delivery_def deployed_handlers_def)
    ultimately show thesis
      using dv by (intro that [of "DeleteEventJob dv"]) (auto simp: on_world_def split: prod.splits)
  qed
qed

lemma give_up_job:
  assumes "ids_plain E" and keyed: "keyed E (world_view b (wld s))" and f: "flight_ok s f"
  obtains "give_up E b f s = s"
  | j where "delivered (sent (sh (wld s))) j" "\<not> is_request j" "job_avatar j = mId (fMsg f)" "mKey (fMsg f) = QueueUpload"
    "give_up E b f s = accept (run_job E b j (wld s)) s"
proof -
  have m: "fMsg f \<in> set (vMsgs (world_view b (wld s)))" using f by (simp add: flight_ok_def)
  from known_decodes [OF assms(1) keyed m] show thesis
  proof (elim disjE conjE exE)
    fix ev
    assume ev: "mKey (fMsg f) = QueueUpload" "unmarshal_upload (Some (mBody (fMsg f))) = Inr ev" "upAvatarID ev = mId (fMsg f)"
    have "delivered (sent (sh (wld s))) (UploadDeadJob ev)" using ev f by (auto simp: flight_ok_def)
    moreover have "give_up E b f s = accept (UploadFailed (world_processor E b) ev (wld s)) s"
      using ev f by (simp add: give_up_def queue_dead_def flight_ok_def dead_upload_def flight_delivery_def deployed_handlers_def)
    ultimately show thesis using ev by (intro that(2) [of "UploadDeadJob ev"]) auto
  next
    fix dv
    assume "mKey (fMsg f) = QueueDelete"
    then have "give_up E b f s = s" using f by (simp add: give_up_def queue_dead_def flight_ok_def)
    then show thesis by (rule that(1))
  qed
qed

subsection \<open>The invariant of the deployment\<close>

text \<open>
  What has been published: one upload event at most per avatar, and the original of a live
  avatar whose event was sent is stored.
\<close>

definition published :: "string \<Rightarrow> world \<Rightarrow> bool" where
  "published b w \<longleftrightarrow> distinct (map mId (filter (\<lambda>m. mKey m = QueueUpload) (sent (sh w)))) \<and>
     (\<forall>m \<in> set (sent (sh w)). \<exists>a. row_of (rows (sh w)) (mId m) = Some a \<and>
        (mKey m = QueueUpload \<longrightarrow> live a \<longrightarrow> objects b (sh w) (S3Key a) \<noteq> None))"

text \<open>Where the messages are: each one sent is queued, in flight, acknowledged or dead, once.\<close>

definition whereabouts :: "deployment \<Rightarrow> message multiset" where
  "whereabouts s = mset (map snd (contents (brk s))) + mset (map fMsg (unacked s)) + mset (map snd (ackd s))"

definition well_queued :: "deployment \<Rightarrow> bool" where
  "well_queued s \<longleftrightarrow> topology_broker (brk s) \<and> mset (sent (sh (wld s))) = whereabouts s \<and>
     (\<forall>p \<in> set (contents (brk s)). fst p = QueueDead \<or> fst p = mKey (snd p)) \<and>
     (\<forall>f. in_flight f s \<longrightarrow> flight_ok s f) \<and> (\<forall>p \<in> set (ackd s). fst p = mKey (snd p))"

text \<open>
  An acknowledged upload of a live avatar is settled. Handlers that go on after their
  connection is lost can break this; the statement is about deployments without them.
\<close>

definition acked_settled :: "env \<Rightarrow> string \<Rightarrow> deployment \<Rightarrow> bool" where
  "acked_settled E b s \<longleftrightarrow> (stale s = [] \<longrightarrow> (\<forall>m a. (QueueUpload, m) \<in> set (ackd s) \<longrightarrow>
     row_of (rows (sh (wld s))) (mId m) = Some a \<longrightarrow> live a \<longrightarrow> settled E (objects b (sh (wld s))) a))"

definition dinv :: "env \<Rightarrow> string \<Rightarrow> deployment \<Rightarrow> bool" where
  "dinv E b s \<longleftrightarrow> good_world E (wld s) \<and> keyed E (world_view b (wld s)) \<and> system E b (wld s) \<and>
     published b (wld s) \<and> tidy E b (wld s) \<and> well_queued s \<and> acked_settled E b s"

lemma mset_remove1_map: "x \<in> set xs \<Longrightarrow> mset (map g xs) = add_mset (g x) (mset (map g (remove1 x xs)))"
  by (induction xs) auto

lemma distinct_split:
  assumes "distinct (map g (filter P xs))" and "mset xs = A + add_mset x B + add_mset y C" and "P x" "P y"
  shows "g x \<noteq> g y"
proof
  assume "g x = g y"
  have "mset (map g (filter P xs)) = image_mset g (filter_mset P (A + add_mset x B + add_mset y C))"
    using assms(2) by (simp add: mset_filter)
  then have "count (mset (map g (filter P xs))) (g x) \<ge> 2" using assms(3,4) \<open>g x = g y\<close> by simp
  moreover have "count (mset (map g (filter P xs))) (g x) \<le> 1"
    using assms(1) by (simp add: distinct_count_atmost_1 del: mset_map)
  ultimately show False by simp
qed

lemma acked_not_flying:
  assumes "published b (wld s)" and "well_queued s" and "f \<in> set (unacked s)" and "(QueueUpload, m) \<in> set (ackd s)"
    and "mKey (fMsg f) = QueueUpload"
  shows "mId m \<noteq> mId (fMsg f)"
proof -
  have "mset (sent (sh (wld s))) = mset (map snd (contents (brk s))) +
      add_mset (fMsg f) (mset (map fMsg (remove1 f (unacked s)))) +
      add_mset m (mset (map snd (remove1 (QueueUpload, m) (ackd s))))"
    using assms(2) mset_remove1_map [OF assms(3), of fMsg] mset_remove1_map [OF assms(4), of snd]
    by (simp add: well_queued_def whereabouts_def)
  from distinct_split [OF _ this, of mId "\<lambda>m. mKey m = QueueUpload"] assms(1,2,4,5)
  show ?thesis by (auto simp: published_def well_queued_def)
qed

lemma published_works:
  assumes "published b w" and "works_on E b i w w'"
  shows "published b w'"
proof -
  have sent: "sent (sh w') = sent (sh w)" using assms(2) by (simp add: works_on_def)
  obtain x y where row: "row_of (rows (sh w)) i = Some x" "row_of (rows (sh w')) = (row_of (rows (sh w)))(i \<mapsto> y)"
    "same_record x y" "DeletedAt y = DeletedAt x" using assms(2) by (auto simp: works_on_def)
  have obj: "\<And>j a. row_of (rows (sh w)) j = Some a \<Longrightarrow> live a \<Longrightarrow> objects b (sh w') (S3Key a) = objects b (sh w) (S3Key a)"
    using assms(2) by (auto simp: works_on_def)
  have y: "live y = live x" "S3Key y = S3Key x" using row(3,4) by (simp_all add: same_record_def live_def)
  have "\<exists>a. row_of (rows (sh w')) (mId m) = Some a \<and> (mKey m = QueueUpload \<longrightarrow> live a \<longrightarrow> objects b (sh w') (S3Key a) \<noteq> None)"
    if m: "m \<in> set (sent (sh w))" for m
  proof -
    obtain a where a: "row_of (rows (sh w)) (mId m) = Some a" "mKey m = QueueUpload \<Longrightarrow> live a \<Longrightarrow> objects b (sh w) (S3Key a) \<noteq> None"
      using assms(1) m unfolding published_def by blast
    show ?thesis
    proof (cases "mId m = i")
      case True
      then have "a = x" using a(1) row(1) by simp
      with a(2) obj [OF row(1)] y True row(2) show ?thesis by (intro exI [of _ y]) simp
    next
      case False
      with a obj [OF a(1)] row(2) show ?thesis by (intro exI [of _ a]) simp
    qed
  qed
  with assms(1) show ?thesis unfolding published_def sent by blast
qed

lemma published_request:
  assumes "published b w" and req: "requested b w w'" and keyed: "keyed E (world_view b w')"
  shows "published b w'"
proof -
  obtain ms where ms: "sent (sh w') = sent (sh w) @ ms" "length ms \<le> 1"
    "\<And>m. m \<in> set ms \<Longrightarrow> mKey m = QueueUpload \<Longrightarrow> row_of (rows (sh w)) (mId m) = None \<and>
      (\<exists>a. row_of (rows (sh w')) (mId m) = Some a \<and> objects b (sh w') (S3Key a) \<noteq> None)"
    using req unfolding requested_def by (elim conjE exE) blast
  have old: "\<exists>a. row_of (rows (sh w)) (mId m) = Some a \<and> (mKey m = QueueUpload \<longrightarrow> live a \<longrightarrow> objects b (sh w) (S3Key a) \<noteq> None)"
    if "m \<in> set (sent (sh w))" for m using assms(1) that unfolding published_def by blast
  have "distinct (map mId (filter (\<lambda>m. mKey m = QueueUpload) (sent (sh w'))))"
  proof -
    have "distinct (map mId (filter (\<lambda>m. mKey m = QueueUpload) ms))"
      using ms(2) by (cases ms rule: list.exhaust) auto
    moreover have "mId m \<noteq> mId m'" if "m \<in> set (sent (sh w))" "m' \<in> set ms" "mKey m' = QueueUpload" for m m'
      using old [OF that(1)] ms(3) [OF that(2,3)] by auto
    ultimately show ?thesis using assms(1) ms(1) by (auto simp: published_def)
  qed
  moreover have "\<exists>a. row_of (rows (sh w')) (mId m) = Some a \<and>
      (mKey m = QueueUpload \<longrightarrow> live a \<longrightarrow> objects b (sh w') (S3Key a) \<noteq> None)" if m: "m \<in> set (sent (sh w'))" for m
  proof -
    have "known_msg E (row_of (rows (sh w'))) m" using keyedD(3) [OF keyed, of m] m by simp
    then obtain a where a: "row_of (rows (sh w')) (mId m) = Some a"
      by (auto simp: known_msg_def upload_message_def delete_message_def upload_event_def)
    have "objects b (sh w') (S3Key a) \<noteq> None" if up: "mKey m = QueueUpload" "live a"
    proof (cases "m \<in> set ms")
      case True
      with ms(3) [OF True up(1)] a show ?thesis by auto
    next
      case False
      with m ms(1) have "m \<in> set (sent (sh w))" by simp
      from old [OF this] obtain x where x: "row_of (rows (sh w)) (mId m) = Some x" "live x \<Longrightarrow> objects b (sh w) (S3Key x) \<noteq> None"
        using up(1) by blast
      have "x = a" using requestedD(1) [OF req _ a up(2)] x(1) by simp
      moreover have "objects b (sh w') (S3Key x) = objects b (sh w) (S3Key x)" by (rule requestedD(2) [OF req x(1)])
      ultimately show ?thesis using x(2) up(2) by simp
    qed
    with a show ?thesis by blast
  qed
  ultimately show ?thesis unfolding published_def by blast
qed

lemma dinvD:
  assumes "dinv E b s"
  shows "good_world E (wld s)" "keyed E (world_view b (wld s))" "system E b (wld s)" "published b (wld s)"
    "well_queued s" "acked_settled E b s" "topology_broker (brk s)" "in_flight f s \<Longrightarrow> flight_ok s f"
    "tidy E b (wld s)"
proof -
  show "good_world E (wld s)" "keyed E (world_view b (wld s))" "system E b (wld s)" "published b (wld s)" "tidy E b (wld s)"
    and wq: "well_queued s" and "acked_settled E b s" using assms by (simp_all only: dinv_def)
  show "topology_broker (brk s)" using wq by (simp only: well_queued_def)
  show "in_flight f s \<Longrightarrow> flight_ok s f" using wq by (simp only: well_queued_def)
qed

lemma sent_whereabouts:
  assumes "well_queued s"
  shows "set (sent (sh (wld s))) = set_mset (whereabouts s)"
proof -
  have "set_mset (mset (sent (sh (wld s)))) = set_mset (whereabouts s)" using assms by (simp only: well_queued_def)
  then show ?thesis by (simp only: set_mset_mset)
qed

lemma acked_sent: "well_queued s \<Longrightarrow> (q, m) \<in> set (ackd s) \<Longrightarrow> m \<in> set (sent (sh (wld s)))"
  using sent_whereabouts [of s] by (force simp: whereabouts_def)

lemma dinv_starts:
  assumes "env_ok E" and "starts b s"
  shows "dinv E b s"
proof -
  have w: "rows (sh (wld s)) = []" "sent (sh (wld s)) = []" "objects b (sh (wld s)) = Map.empty" "quiet (wld s)"
    and d: "unacked s = []" "stale s = []" "ackd s = []" using assms(2) by (simp_all add: starts_def)
  obtain u where "Declare broker_channel no_broker = (u, brk s)" using assms(2) by (auto simp: starts_def)
  from fresh_topology [OF this] have "topology_broker (brk s)" "contents (brk s) = []" by simp_all
  with w d assms(1) show ?thesis
    by (simp add: dinv_def good_world_def table_ok_def keyed_def row_of_def published_def well_queued_def whereabouts_def
        acked_settled_def system.empty tidy_def)
qed

text \<open>A job of the worker, and a request, keep it.\<close>

lemma dinv_works:
  assumes "ids_plain E" and inv: "dinv E b s" and j: "delivered (sent (sh (wld s))) j" "\<not> is_request j"
    and safe: "\<And>m a. stale s = [] \<Longrightarrow> (QueueUpload, m) \<in> set (ackd s) \<Longrightarrow> mId m = job_avatar j \<Longrightarrow>
      row_of (rows (sh (wld s))) (mId m) = Some a \<Longrightarrow> \<not> live a"
  shows "accept (run_job E b j (wld s)) s = s\<lparr>wld := run_job E b j (wld s)\<rparr>"
    and "dinv E b (s\<lparr>wld := run_job E b j (wld s)\<rparr>)"
proof -
  let ?w = "run_job E b j (wld s)" and ?i = "job_avatar j"
  note d = dinvD [OF inv]
  have eff: "works_on E b ?i (wld s) ?w" by (rule job_works [OF assms(1) d(1,2) j])
  have sent: "sent (sh ?w) = sent (sh (wld s))" using eff by (simp add: works_on_def)
  show "accept ?w s = s\<lparr>wld := ?w\<rparr>" by (rule accept_silent [OF d(7) sent])
  obtain x y where row: "row_of (rows (sh (wld s))) ?i = Some x" "row_of (rows (sh ?w)) = (row_of (rows (sh (wld s))))(?i \<mapsto> y)"
    "DeletedAt y = DeletedAt x" using eff by (auto simp: works_on_def)
  have "good_world E ?w" "keyed E (world_view b ?w)" using works_on_sim(1) [OF d(2) eff] by (simp_all add: sim_def)
  moreover have "system E b ?w" by (rule system.works [OF d(3) j(1)])
  moreover have "published b ?w" by (rule published_works [OF d(4) eff])
  moreover have "tidy E b ?w" by (rule works_tidy [OF d(2) eff d(9)])
  moreover have "well_queued (s\<lparr>wld := ?w\<rparr>)"
    using d(5) sent by (simp add: well_queued_def whereabouts_def flight_ok_def)
  moreover have "acked_settled E b (s\<lparr>wld := ?w\<rparr>)"
  proof -
    have "settled E (objects b (sh ?w)) a"
      if a: "stale s = []" "(QueueUpload, m) \<in> set (ackd s)" "row_of (rows (sh ?w)) (mId m) = Some a" "live a" for m a
    proof (cases "mId m = ?i")
      case True
      with safe [OF a(1,2) True] row a(3,4) show ?thesis by (auto simp: live_def)
    next
      case False
      then have old: "row_of (rows (sh (wld s))) (mId m) = Some a" using a(3) row(2) by simp
      with d(6) a have "settled E (objects b (sh (wld s))) a" by (simp add: acked_settled_def)
      with works_files(1) [OF d(2) eff old a(4) False] show ?thesis by blast
    qed
    then show ?thesis by (simp add: acked_settled_def)
  qed
  ultimately show "dinv E b (s\<lparr>wld := ?w\<rparr>)" by (simp add: dinv_def)
qed

lemma dinv_request:
  assumes "keys_exact E" and "ids_plain E" and inv: "dinv E b s" and j: "is_request j"
  shows "dinv E b (accept (run_job E b j (wld s)) s)"
proof -
  let ?w = "run_job E b j (wld s)"
  note d = dinvD [OF inv]
  have del: "delivered (sent (sh (wld s))) j" using j by (cases j) simp_all
  have req: "requested b (wld s) ?w" by (rule request_effect [OF assms(1) d(1,2) j])
  obtain ms where ms: "sent (sh ?w) = sent (sh (wld s)) @ ms" using req by (auto simp: requested_def)
  have good: "good_world E ?w" "keyed E (world_view b ?w)"
    using sim_job [OF assms(1,2) d(1,2) del] by (simp_all add: sim_def)
  have addr: "\<forall>m \<in> set ms. addressed m"
    using keyedD(3) [OF good(2)] ms by (auto intro: known_addressed)
  have acc: "accept ?w s = s\<lparr>wld := ?w, brk := (brk s)\<lparr>contents := contents (brk s) @ map (\<lambda>m. (mKey m, m)) ms\<rparr>\<rparr>"
    by (rule accept_topology [OF d(7) ms addr])
  have "published b ?w" by (rule published_request [OF d(4) req good(2)])
  moreover have "tidy E b ?w" by (rule request_tidy [OF req d(9)])
  moreover have "well_queued (accept ?w s)"
    using d(5) topology_brokerD(4) [OF d(7)] ms unfolding acc
    by (auto simp: well_queued_def whereabouts_def flight_ok_def comp_def)
  moreover have "acked_settled E b (accept ?w s)"
  proof -
    have "settled E (objects b (sh ?w)) a"
      if a: "stale s = []" "(QueueUpload, m) \<in> set (ackd s)" "row_of (rows (sh ?w)) (mId m) = Some a" "live a" for m a
    proof -
      have "m \<in> set (sent (sh (wld s)))" by (rule acked_sent [OF d(5) a(2)])
      then have "row_of (rows (sh (wld s))) (mId m) \<noteq> None" using d(4) by (auto simp: published_def)
      then have old: "row_of (rows (sh (wld s))) (mId m) = Some a" by (rule requestedD(1) [OF req _ a(3,4)])
      with a(1,2,4) d(6) have "settled E (objects b (sh (wld s))) a" by (simp add: acked_settled_def)
      with same_files(1) [OF requestedD(2) [OF req old] requestedD(4) [OF req]] show ?thesis by blast
    qed
    then show ?thesis unfolding acc by (simp add: acked_settled_def)
  qed
  ultimately show ?thesis
    using good system.works [OF d(3) del] unfolding acc by (simp add: dinv_def)
qed

text \<open>
  A handler or the callback at work on a delivery: the acknowledged uploads are of other
  avatars, and the avatar of a deletion is not live.
\<close>

lemma flight_safe:
  assumes inv: "dinv E b s" and f: "in_flight f s" and "stale s = []" and "(QueueUpload, m) \<in> set (ackd s)"
    and "mId m = mId (fMsg f)" and "row_of (rows (sh (wld s))) (mId m) = Some a"
  shows "\<not> live a"
proof -
  note d = dinvD [OF inv]
  have fl: "flight_ok s f" by (rule d(8) [OF f])
  have "mKey (fMsg f) \<noteq> QueueUpload"
    using acked_not_flying [OF d(4,5) _ assms(4), of f] f assms(3,5) by auto
  moreover have "known_msg E (row_of (rows (sh (wld s)))) (fMsg f)"
    using keyedD(3) [OF d(2), of "fMsg f"] fl by (simp add: flight_ok_def)
  ultimately obtain x ks where x: "row_of (rows (sh (wld s))) (ID x) = Some x" "\<not> live x"
    "fMsg f = delete_message E \<lparr>delAvatarID = ID x, delS3Keys = ks\<rparr>"
    by (auto simp: known_msg_def)
  then have "mId (fMsg f) = ID x" by (simp add: delete_message_def)
  with x(1,2) assms(5,6) show ?thesis by simp
qed

lemma flight_job:
  assumes "ids_plain E" and inv: "dinv E b s" and f: "in_flight f s"
    and j: "delivered (sent (sh (wld s))) j" "\<not> is_request j" "job_avatar j = mId (fMsg f)"
  shows "accept (run_job E b j (wld s)) s = s\<lparr>wld := run_job E b j (wld s)\<rparr>" (is ?acc)
    and "dinv E b (s\<lparr>wld := run_job E b j (wld s)\<rparr>)" (is ?inv)
    and "works_on E b (mId (fMsg f)) (wld s) (run_job E b j (wld s))"
    and "cat b (run_job E b j (wld s)) = cat b (wld s)"
    and "sent (sh (run_job E b j (wld s))) = sent (sh (wld s))"
proof -
  note d = dinvD [OF inv]
  show ?acc ?inv
    by (rule dinv_works [OF assms(1) inv j(1,2)]; use flight_safe [OF inv f] j(3) in simp)+
  show eff: "works_on E b (mId (fMsg f)) (wld s) (run_job E b j (wld s))"
    using job_works [OF assms(1) d(1,2) j(1,2)] j(3) by simp
  show "cat b (run_job E b j (wld s)) = cat b (wld s)" by (rule works_on_sim(2) [OF d(2) eff])
  show "sent (sh (run_job E b j (wld s))) = sent (sh (wld s))" using eff by (simp add: works_on_def)
qed

lemma attempt_run:
  assumes "ids_plain E" and inv: "dinv E b s" and f: "in_flight f s"
 and run: "attempt E b f s = (r, s')"
  obtains w where "s' = s\<lparr>wld := w\<rparr>" "dinv E b (s\<lparr>wld := w\<rparr>)" "cat b w = cat b (wld s)"
    "sent (sh w) = sent (sh (wld s))"
    "\<And>a. r = Inr () \<Longrightarrow> mKey (fMsg f) = QueueUpload \<Longrightarrow> row_of (rows (sh w)) (mId (fMsg f)) = Some a \<Longrightarrow> live a \<Longrightarrow>
       settled E (objects b (sh w)) a"
proof -
  note d = dinvD [OF inv]
  have fl: "flight_ok s f" by (rule d(8) [OF f])
  show thesis
  proof (rule attempt_job [OF assms(1) d(2) fl])
    fix j
    assume j: "delivered (sent (sh (wld s))) j" "\<not> is_request j" "job_avatar j = mId (fMsg f)"
      and acc: "attempt E b f s = (fst (attempt E b f s), accept (run_job E b j (wld s)) s)"
      and up: "mKey (fMsg f) = QueueUpload \<Longrightarrow> \<exists>ev x. upAvatarID ev = mId (fMsg f) \<and>
        row_of (rows (sh (wld s))) (upAvatarID ev) = Some x \<and> upS3Key ev = S3Key x \<and>
        HandleUpload (world_processor E b) ev (wld s) = (fst (attempt E b f s), run_job E b j (wld s))"
    let ?w = "run_job E b j (wld s)"
    note job = flight_job [OF assms(1) inv f j]
    have fin: "settled E (objects b (sh ?w)) a"
      if a: "r = Inr ()" "mKey (fMsg f) = QueueUpload" "row_of (rows (sh ?w)) (mId (fMsg f)) = Some a" "live a" for a
    proof -
      obtain ev x where ev: "upAvatarID ev = mId (fMsg f)" "row_of (rows (sh (wld s))) (upAvatarID ev) = Some x"
        "upS3Key ev = S3Key x" "HandleUpload (world_processor E b) ev (wld s) = (Inr (), ?w)"
        using up [OF a(2)] run a(1) by auto
      have "tidy_row E (objects b (sh (wld s))) x" using d(9) ev(2) unfolding tidy_def by blast
      with HandleUpload_works [OF d(1,2) ev(2,3,4)] a(3,4) ev(1) show ?thesis by simp
    qed
    show thesis
    proof (rule that [of ?w])
      show "s' = s\<lparr>wld := ?w\<rparr>" using run acc job(1) by simp
    qed (fact job(2,4,5) fin)+
  qed
qed

lemma give_up_run:
  assumes "ids_plain E" and inv: "dinv E b s" and f: "in_flight f s"
  obtains w where "give_up E b f s = s\<lparr>wld := w\<rparr>" "dinv E b (s\<lparr>wld := w\<rparr>)" "cat b w = cat b (wld s)"
    "sent (sh w) = sent (sh (wld s))"
proof -
  note d = dinvD [OF inv]
  have fl: "flight_ok s f" by (rule d(8) [OF f])
  show thesis
  proof (rule give_up_job [OF assms(1) d(2) fl])
    assume "give_up E b f s = s"
    then show thesis using that [of "wld s"] inv by simp
  next
    fix j
    assume j: "delivered (sent (sh (wld s))) j" "\<not> is_request j" "job_avatar j = mId (fMsg f)"
      and acc: "give_up E b f s = accept (run_job E b j (wld s)) s"
    let ?w = "run_job E b j (wld s)"
    note job = flight_job [OF assms(1) inv f j]
    show thesis
    proof (rule that [of ?w])
      show "give_up E b f s = s\<lparr>wld := ?w\<rparr>" using acc job(1) by simp
    qed (fact job(2,4,5))+
  qed
qed

text \<open>Moves of the broker: messages change their place, the world is as it was.\<close>

lemma dinv_moves:
  assumes inv: "dinv E b s" and "wld s' = wld s" and "topology_broker (brk s')" and "whereabouts s' = whereabouts s"
    and "\<And>p. p \<in> set (contents (brk s')) \<Longrightarrow> fst p = QueueDead \<or> fst p = mKey (snd p)"
    and "\<And>f. in_flight f s' \<Longrightarrow> flight_ok s f" and "\<And>p. p \<in> set (ackd s') \<Longrightarrow> fst p = mKey (snd p)"
    and "acked_settled E b s'"
  shows "dinv E b s'"
proof -
  have "flight_ok s' f = flight_ok s f" for f by (simp add: flight_ok_def assms(2))
  moreover have "mset (sent (sh (wld s))) = whereabouts s" using dinvD(5) [OF inv] by (simp only: well_queued_def)
  ultimately have "well_queued s'"
    unfolding well_queued_def using assms(3-7) by (simp only: assms(2)) blast
  with inv assms(2,8) show ?thesis by (simp add: dinv_def)
qed

lemma well_queuedD:
  assumes "well_queued s"
  shows "p \<in> set (contents (brk s)) \<Longrightarrow> fst p = QueueDead \<or> fst p = mKey (snd p)"
    and "p \<in> set (ackd s) \<Longrightarrow> fst p = mKey (snd p)"
  using assms by (simp_all add: well_queued_def)

lemma flight_queue: "dinv E b s \<Longrightarrow> f \<in> set (unacked s) \<Longrightarrow>
    fQueue f = mKey (fMsg f) \<and> mKey (fMsg f) \<in> {QueueUpload, QueueDelete}"
  using dinvD(8) [of E b s f] keyedD(3) [OF dinvD(2), of E b s "fMsg f"] known_addressed
  by (fastforce simp: flight_ok_def addressed_def)

lemma whereabouts_remove:
  assumes "f \<in> set (unacked s)"
  shows "whereabouts s = add_mset (fMsg f) (mset (map snd (contents (brk s))) +
    mset (map fMsg (remove1 f (unacked s))) + mset (map snd (ackd s)))"
  using mset_remove1_map [OF assms, of fMsg] by (simp add: whereabouts_def)

lemma dinv_ack:
  assumes inv: "dinv E b s" and f: "f \<in> set (unacked s)"
    and fin: "\<And>a. mKey (fMsg f) = QueueUpload \<Longrightarrow> row_of (rows (sh (wld s))) (mId (fMsg f)) = Some a \<Longrightarrow> live a \<Longrightarrow>
      settled E (objects b (sh (wld s))) a"
  shows "dinv E b (snd (dAck (flight_delivery f) s))"
proof -
  note d = dinvD [OF inv] and q = flight_queue [OF inv f]
  show ?thesis
  proof (rule dinv_moves [OF inv])
    show "whereabouts (snd (dAck (flight_delivery f) s)) = whereabouts s"
      using f by (simp add: whereabouts_remove [OF f]) (simp add: whereabouts_def flight_delivery_def)
    show "acked_settled E b (snd (dAck (flight_delivery f) s))"
      using d(6) q fin f by (auto simp: acked_settled_def flight_delivery_def)
    show "flight_ok s g" if "in_flight g (snd (dAck (flight_delivery f) s))" for g
      using that f d(8) [of g] by (auto simp: flight_delivery_def dest: set_remove1_subset [THEN subsetD])
  qed (use d(7) f q well_queuedD [OF d(5)] in \<open>auto simp: flight_delivery_def\<close>)
qed

lemma dinv_nack:
  assumes inv: "dinv E b s" and f: "f \<in> set (unacked s)"
  shows "dinv E b (snd (dNack (flight_delivery f) requeue s))"
proof -
  note d = dinvD [OF inv] and q = flight_queue [OF inv f]
  let ?ps = "if requeue then [(fQueue f, fMsg f)] else [(QueueDead, fMsg f)]"
  have dl: "dead_letter (brk s) (fQueue f) (mKey (fMsg f)) = [QueueDead]"
    using topology_brokerD(2) [OF d(7), of "fQueue f"] q by simp
  have s': "snd (dNack (flight_delivery f) requeue s) = s\<lparr>unacked := remove1 f (unacked s),
      brk := (brk s)\<lparr>contents := contents (brk s) @ ?ps\<rparr>\<rparr>"
    using f dl by (simp add: flight_delivery_def)
  show ?thesis
    unfolding s'
  proof (rule dinv_moves [OF inv])
    show "whereabouts (s\<lparr>unacked := remove1 f (unacked s), brk := (brk s)\<lparr>contents := contents (brk s) @ ?ps\<rparr>\<rparr>) = whereabouts s"
      unfolding whereabouts_remove [OF f] by (simp add: whereabouts_def)
    show "acked_settled E b (s\<lparr>unacked := remove1 f (unacked s), brk := (brk s)\<lparr>contents := contents (brk s) @ ?ps\<rparr>\<rparr>)"
      using d(6) by (simp add: acked_settled_def)
    show "flight_ok s g" if "in_flight g (s\<lparr>unacked := remove1 f (unacked s), brk := (brk s)\<lparr>contents := contents (brk s) @ ?ps\<rparr>\<rparr>)" for g
      using that d(8) [of g] by (auto dest: set_remove1_subset [THEN subsetD])
  qed (use topology_brokerD(4) [OF d(7)] q well_queuedD [OF d(5)] in \<open>auto split: if_splits\<close>)
qed

lemma dinv_take_off:
  assumes inv: "dinv E b s" and c: "contents (brk s) = xs @ p # ys" and q: "fst p \<in> {QueueUpload, QueueDelete}"
  shows "dinv E b (take_off p (xs @ ys) s)"
proof -
  note d = dinvD [OF inv]
  have key: "fst p = mKey (snd p)" using well_queuedD(1) [OF d(5), of p] c q by auto
  have "snd p \<in> set (sent (sh (wld s)))" using sent_whereabouts [OF d(5)] c by (simp add: whereabouts_def)
  then have new: "flight_ok s \<lparr>fTag = next_tag s, fQueue = fst p, fMsg = snd p\<rparr>" using key by (simp add: flight_ok_def)
  show ?thesis
  proof (rule dinv_moves [OF inv])
    show "acked_settled E b (take_off p (xs @ ys) s)" using d(6) by (simp add: acked_settled_def take_off_def)
    show "flight_ok s f" if "in_flight f (take_off p (xs @ ys) s)" for f
      using that new d(8) [of f] by (auto simp: take_off_def)
  qed (use topology_brokerD(4) [OF d(7)] c well_queuedD [OF d(5)] in \<open>auto simp: take_off_def whereabouts_def\<close>)
qed

lemma dinv_requeue_all:
  assumes inv: "dinv E b s" and "fs = stale s \<or> fs = stale s @ unacked s"
  shows "dinv E b ((requeue_all s)\<lparr>stale := fs\<rparr>)"
proof -
  note d = dinvD [OF inv]
  show ?thesis
  proof (rule dinv_moves [OF inv])
    show "acked_settled E b ((requeue_all s)\<lparr>stale := fs\<rparr>)" using d(6) assms(2) by (auto simp: acked_settled_def requeue_all_def)
    show "flight_ok s f" if "in_flight f ((requeue_all s)\<lparr>stale := fs\<rparr>)" for f
      using that d(8) [of f] assms(2) by (auto simp: requeue_all_def)
    show "whereabouts ((requeue_all s)\<lparr>stale := fs\<rparr>) = whereabouts s"
      by (simp add: whereabouts_def requeue_all_def comp_def)
  qed (use topology_brokerD(4) [OF d(7)] well_queuedD [OF d(5)] flight_queue [OF inv] in \<open>auto simp: requeue_all_def\<close>)
qed

lemma dinv_step:
  assumes "keys_exact E" and "ids_plain E" and inv: "dinv E b s" and "dstep E b s s'"
  shows "dinv E b s'"
  using assms(4)
proof cases
  case (requests j)
  with dinv_request [OF assms(1,2) inv] show ?thesis by simp
next
  case declares
  with topology_brokerD(3) [OF dinvD(7) [OF inv]] inv show ?thesis by simp
next
  case (delivers xs p ys)
  with dinv_take_off [OF inv] show ?thesis by simp
next
  case (attempts f)
  from attempt_run [OF assms(2) inv attempts(2) prod.collapse [symmetric]] attempts(1) show ?thesis by metis
next
  case (acks f s1)
  have f: "in_flight f s" using acks(2) by simp
  show ?thesis
  proof (rule attempt_run [OF assms(2) inv f acks(3)])
    fix w
    assume w: "s1 = s\<lparr>wld := w\<rparr>" "dinv E b (s\<lparr>wld := w\<rparr>)"
      and fin: "\<And>a. Inr () = Inr () \<Longrightarrow> mKey (fMsg f) = QueueUpload \<Longrightarrow> row_of (rows (sh w)) (mId (fMsg f)) = Some a \<Longrightarrow> live a \<Longrightarrow>
        settled E (objects b (sh w)) a"
    have "f \<in> set (unacked s1)" "dinv E b s1" using acks(2) w by simp_all
    from dinv_ack [OF this(2,1)] fin w(1) acks(1) show ?thesis by simp
  qed
next
  case (requeues f)
  with dinv_nack [OF inv] show ?thesis by simp
next
  case (gives_up f)
  from give_up_run [OF assms(2) inv gives_up(2)] gives_up(1) show ?thesis by metis
next
  case (buries f)
  with dinv_nack [OF inv] show ?thesis by simp
next
  case dies
  have "requeue_all s = (requeue_all s)\<lparr>stale := stale s\<rparr>" by (simp add: requeue_all_def)
  with dies dinv_requeue_all [OF inv, of "stale s"] show ?thesis by simp
next
  case loses_link
  with dinv_requeue_all [OF inv, of "stale s @ unacked s"] show ?thesis by simp
qed

lemma reaches_dinv: "env_ok E \<Longrightarrow> keys_exact E \<Longrightarrow> ids_plain E \<Longrightarrow> reaches E b s \<Longrightarrow> dinv E b s"
  by (erule reaches_induct) (auto intro: dinv_starts dinv_step)

subsection \<open>Properties\<close>

lemma dstep_world:
  assumes "keys_exact E" and "ids_plain E" and inv: "dinv E b s" and "dstep E b s s'"
  shows "(\<exists>j. is_request j \<and> wld s' = run_job E b j (wld s) \<and> spec_step E j (cat b (wld s)) (cat b (wld s'))) \<or>
    cat b (wld s') = cat b (wld s) \<and> sent (sh (wld s')) = sent (sh (wld s))"
  using assms(4)
proof cases
  case (requests j)
  have "delivered (sent (sh (wld s))) j" using requests(2) by (cases j) simp_all
  from sim_job [OF assms(1,2) dinvD(1,2) [OF inv] this] requests show ?thesis by (auto simp: sim_def accept_def)
next
  case (attempts f)
  from attempt_run [OF assms(2) inv attempts(2) prod.collapse [symmetric]]
  obtain w where "snd (attempt E b f s) = s\<lparr>wld := w\<rparr>" "cat b w = cat b (wld s)" "sent (sh w) = sent (sh (wld s))"
    by metis
  with attempts(1) show ?thesis by simp
next
  case (acks f s1)
  have f: "in_flight f s" using acks(2) by simp
  from attempt_run [OF assms(2) inv f acks(3)] obtain w where "s1 = s\<lparr>wld := w\<rparr>" "cat b w = cat b (wld s)" "sent (sh w) = sent (sh (wld s))"
    by metis
  with acks(1) show ?thesis by (simp add: flight_delivery_def)
next
  case (gives_up f)
  from give_up_run [OF assms(2) inv gives_up(2)] obtain w where "give_up E b f s = s\<lparr>wld := w\<rparr>" "cat b w = cat b (wld s)"
    "sent (sh w) = sent (sh (wld s))" by metis
  with gives_up(1) show ?thesis by simp
qed (simp_all add: take_off_def flight_delivery_def requeue_all_def)

text \<open>
  C2: the deployment implements the catalogue, with queues, retries, redeliveries, dead
  letters, crashes and lost connections. In every reachable state every step is a request
  that is a step of the specification, or leaves the catalogue as it is and sends nothing;
  and every delivery a worker holds is of an accepted message under its own queue, so that
  what the handlers see is what the service published.
\<close>

theorem deployment_refines:
  assumes "env_ok E" and "keys_exact E" and "ids_plain E" and "reaches E b s"
  shows "(\<forall>s'. dstep E b s s' \<longrightarrow>
      (\<exists>j. is_request j \<and> wld s' = run_job E b j (wld s) \<and> spec_step E j (cat b (wld s)) (cat b (wld s'))) \<or>
      cat b (wld s') = cat b (wld s) \<and> sent (sh (wld s')) = sent (sh (wld s))) \<and>
    (\<forall>f. in_flight f s \<longrightarrow> fQueue f = mKey (fMsg f) \<and> fMsg f \<in> set (sent (sh (wld s))))"
proof -
  note inv = reaches_dinv [OF assms]
  show ?thesis
    using dstep_world [OF assms(2,3) inv] dinvD(8) [OF inv] unfolding flight_ok_def by blast
qed

text \<open>
  C22: no message is lost and none is duplicated. In every reachable state the messages the
  broker has accepted are, each exactly once, in the queues, unacknowledged in the hands of
  a worker, or acknowledged; what is queued is in the queue of its routing key or in the dead
  queue; and what was acknowledged came from the queue of its key.
\<close>

theorem messages_conserved:
  assumes "env_ok E" and "keys_exact E" and "ids_plain E" and "reaches E b s"
  shows "mset (sent (sh (wld s))) = mset (map snd (contents (brk s))) + mset (map fMsg (unacked s)) + mset (map snd (ackd s)) \<and>
    (\<forall>(q, m) \<in> set (contents (brk s)). q = QueueDead \<or> q = mKey m) \<and> (\<forall>(q, m) \<in> set (ackd s). q = mKey m) \<and>
    (\<forall>m \<in> set (sent (sh (wld s))). mExchange m = Exchange \<and> mKey m \<in> {QueueUpload, QueueDelete})"
proof -
  note inv = reaches_dinv [OF assms]
  have wq: "well_queued s" by (rule dinvD(5) [OF inv])
  have "addressed m" if "m \<in> set (sent (sh (wld s)))" for m
    using keyedD(3) [OF dinvD(2) [OF inv], of m] that by (auto intro: known_addressed)
  with wq show ?thesis
    by (auto simp: well_queued_def whereabouts_def addressed_def)
qed

lemma unsettled_somewhere:
  assumes inv: "dinv E b s" and "stale s = []" and "m \<in> set (sent (sh (wld s)))" and "mKey m = QueueUpload"
    and "row_of (rows (sh (wld s))) (mId m) = Some a" and "live a"
  shows "(QueueUpload, m) \<in> set (contents (brk s)) \<or> (\<exists>f \<in> set (unacked s). fMsg f = m) \<or>
    (QueueDead, m) \<in> set (contents (brk s)) \<or> settled E (objects b (sh (wld s))) a"
proof (cases "(QueueUpload, m) \<in> set (ackd s)")
  case True
  with dinvD(6) [OF inv] assms(2,5,6) show ?thesis by (auto simp: acked_settled_def)
next
  case False
  note d = dinvD [OF inv]
  have "m \<notin> snd ` set (ackd s)" using False well_queuedD(2) [OF d(5)] assms(4) by fastforce
  moreover have "m \<in># whereabouts s" using sent_whereabouts [OF d(5)] assms(3) by simp
  ultimately have "m \<in> snd ` set (contents (brk s)) \<or> (\<exists>f \<in> set (unacked s). fMsg f = m)"
    by (auto simp: whereabouts_def)
  then show ?thesis using well_queuedD(1) [OF d(5)] assms(4) by fastforce
qed

text \<open>
  C3: no upload is forgotten while no handler outlives its connection. In every state reached
  in which that has not happened (no delivery is stale), and for every accepted upload event
  of a live avatar: the event is in the upload queue, in the hands of a worker, in the dead
  queue, or the upload is settled. Settled means that the row is completed and lists both
  thumbnails and both are stored as the code makes them from the stored original, or that the
  row is failed and there is a size for which the code makes no thumbnail from the stored
  original.
\<close>

theorem no_upload_forgotten:
  assumes "env_ok E" and "keys_exact E" and "ids_plain E" and "reaches E b s" and "stale s = []"
    and "m \<in> set (sent (sh (wld s)))" and "mKey m = QueueUpload"
    and "row_of (rows (sh (wld s))) (mId m) = Some a" and "live a"
  shows "(QueueUpload, m) \<in> set (contents (brk s)) \<or> (\<exists>f \<in> set (unacked s). fMsg f = m) \<or>
    (QueueDead, m) \<in> set (contents (brk s)) \<or> settled E (objects b (sh (wld s))) a"
  by (rule unsettled_somewhere [OF reaches_dinv [OF assms(1-4)] assms(5-9)])

subsection \<open>The source's process is a run of steps\<close>

lemma attempt_keeps_flights:
  "attempt E b f s = (r, s') \<Longrightarrow> unacked s' = unacked s \<and> stale s' = stale s"
  by (auto simp: attempt_def queue_handler_def handle_upload_def handle_delete_def deployed_handlers_def on_world_def
      accept_def split: if_splits sum.splits prod.splits)

lemma give_up_keeps_flights: "unacked (give_up E b f s) = unacked s \<and> stale (give_up E b f s) = stale s"
  by (auto simp: give_up_def queue_dead_def dead_upload_def deployed_handlers_def accept_def split: option.splits sum.splits)

text \<open>While a handler waits for its next attempt the others go on, but nobody else settles its delivery.\<close>

definition waits_for_others :: "env \<Rightarrow> string \<Rightarrow> flight \<Rightarrow> deployment goctx \<Rightarrow> bool" where
  "waits_for_others E b f ctx \<longleftrightarrow> (\<forall>t s. (dstep E b)\<^sup>*\<^sup>* s (snd (waitFor ctx t s)) \<and>
     (in_flight f s \<longrightarrow> in_flight f (snd (waitFor ctx t s))))"

lemma withRetry_path:
  assumes wait: "waits_for_others E b f ctx" and "in_flight f s"
    and "withRetry ctx backoff (queue_handler (deployed_handlers E b) (fQueue f)) (flight_delivery f) n s = (r, s')"
  shows "in_flight f s' \<and> (dstep E b)\<^sup>*\<^sup>* s s' \<and>
    (r = Inr () \<longrightarrow> (\<exists>t. (dstep E b)\<^sup>*\<^sup>* s t \<and> in_flight f t \<and> attempt E b f t = (Inr (), s')))"
  using assms(2,3)
proof (induction "length backoff - n" arbitrary: n s rule: less_induct)
  case less
  obtain r1 s1 where h: "attempt E b f s = (r1, s1)" by fastforce
  then have h': "queue_handler (deployed_handlers E b) (fQueue f) (flight_delivery f) s = (r1, s1)" by (simp add: attempt_def)
  have f1: "in_flight f s1" using attempt_keeps_flights [OF h] less.prems(1) by simp
  have st1: "dstep E b s s1" using dstep.attempts [OF less.prems(1), where E = E and b = b] h by simp
  show ?case
  proof (cases "r1 = Inr () \<or> length backoff \<le> n \<or> ctxErr ctx s1 \<noteq> None")
    case True
    then have "r = r1" "s' = s1"
      using less.prems(2) h' by (subst (asm) withRetry.simps; cases r1; auto split: if_splits)+
    with f1 st1 h less.prems(1) show ?thesis by blast
  next
    case False
    then obtain e where r1: "r1 = Inl e" by (cases r1) auto
    obtain c s2 where wt: "waitFor ctx (backoff ! n) s1 = (c, s2)" by fastforce
    have s2: "(dstep E b)\<^sup>*\<^sup>* s1 s2" "in_flight f s2"
      using wait f1 wt unfolding waits_for_others_def by (metis snd_conv)+
    have run: "(dstep E b)\<^sup>*\<^sup>* s s2" by (rule converse_rtranclp_into_rtranclp [OF st1 s2(1)])
    show ?thesis
    proof (cases c)
      case True
      have "n < length backoff" using False by auto
      then have shorter: "length backoff - Suc n < length backoff - n" by (rule diff_less_mono2 [OF lessI])
      have "withRetry ctx backoff (queue_handler (deployed_handlers E b) (fQueue f)) (flight_delivery f) (Suc n) s2 = (r, s')"
        using less.prems(2) h' r1 wt True False by (subst (asm) withRetry.simps) simp
      from less.hyps [OF shorter s2(2) this] run show ?thesis by (meson rtranclp_trans)
    next
      case c: False
      have "r = r1 \<and> s' = s2"
        using less.prems(2) h' r1 wt c False by (subst (asm) withRetry.simps) simp
      with r1 s2(2) run show ?thesis by simp
    qed
  qed
qed

lemma unsettled [simp]:
  "f \<notin> set (unacked s) \<Longrightarrow> snd (dAck (flight_delivery f) s) = s"
  "f \<notin> set (unacked s) \<Longrightarrow> snd (dNack (flight_delivery f) requeue s) = s"
  by (simp_all add: flight_delivery_def)

lemma settle_path:
  assumes "(dstep E b)\<^sup>*\<^sup>* s t" and "f \<in> set (unacked t) \<Longrightarrow> dstep E b t (snd (dNack (flight_delivery f) requeue t))"
  shows "(dstep E b)\<^sup>*\<^sup>* s (snd (dNack (flight_delivery f) requeue t))"
  using assms by (cases "f \<in> set (unacked t)") auto

lemma process_path:
  assumes wait: "waits_for_others E b f ctx" and f: "in_flight f s"
  shows "(dstep E b)\<^sup>*\<^sup>* s (process_flight ctx backoff E b f s)"
proof -
  let ?d = "flight_delivery f"
  obtain r s1 where run: "withRetry ctx backoff (queue_handler (deployed_handlers E b) (fQueue f)) ?d 0 s = (r, s1)" by fastforce
  note path = withRetry_path [OF wait f run]
  have f1: "in_flight f s1" and p1: "(dstep E b)\<^sup>*\<^sup>* s s1" using path by blast+
  show ?thesis
  proof (cases r)
    case (Inr u)
    then obtain t where t: "(dstep E b)\<^sup>*\<^sup>* s t" "in_flight f t" "attempt E b f t = (Inr (), s1)" using path by auto
    have res: "process_flight ctx backoff E b f s = snd (dAck ?d s1)" using run Inr by (simp add: process_flight_def process_def)
    show ?thesis
    proof (cases "f \<in> set (unacked t)")
      case True
      from t(1) dstep.acks [OF True t(3)] show ?thesis unfolding res by (rule rtranclp.rtrancl_into_rtrancl)
    next
      case False
      then have "f \<notin> set (unacked s1)" using attempt_keeps_flights [OF t(3)] by simp
      with p1 show ?thesis by (simp add: res)
    qed
  next
    case (Inl e)
    show ?thesis
    proof (cases "ctxErr ctx s1")
      case (Some c)
      have "process_flight ctx backoff E b f s = snd (dNack ?d True s1)"
        using run Inl Some by (simp add: process_flight_def process_def)
      then show ?thesis using settle_path [OF p1 dstep.requeues] by simp
    next
      case None
      let ?t = "give_up E b f s1"
      have "process_flight ctx backoff E b f s = snd (dNack ?d False ?t)"
        using run Inl None by (simp add: process_flight_def process_def give_up_def)
      moreover have "(dstep E b)\<^sup>*\<^sup>* s ?t" using p1 dstep.gives_up [OF f1] by (rule rtranclp.rtrancl_into_rtrancl)
      ultimately show ?thesis using settle_path [OF _ dstep.buries] by simp
    qed
  qed
qed

text \<open>
  C23: the step relation is the source's. Whatever the backoff, the context and its timers do,
  process on a delivery, with all its attempts, its callback and its settlement, is a
  sequence of steps of the deployment, in which the other processes take steps while it
  waits; so from a reachable state it ends in a reachable one, where all that is proved of
  the deployment holds.
\<close>

theorem process_simulated:
  assumes "waits_for_others E b f ctx" and "in_flight f s" and "reaches E b s"
  shows "(dstep E b)\<^sup>*\<^sup>* s (process ctx backoff (queue_handler (deployed_handlers E b) (fQueue f))
      (queue_dead (deployed_handlers E b) (fQueue f)) (flight_delivery f) s) \<and>
    reaches E b (process ctx backoff (queue_handler (deployed_handlers E b) (fQueue f))
      (queue_dead (deployed_handlers E b) (fQueue f)) (flight_delivery f) s)"
  using process_path [OF assms(1,2), of backoff] reaches_run [OF assms(3)] by (simp add: process_flight_def)

subsection \<open>A concrete deployment\<close>

definition sample_deployment :: deployment where
  "sample_deployment = \<lparr>wld = sample_world [] Map.empty [], brk = snd (Declare broker_channel no_broker), next_tag = 0,
     unacked = [], stale = [], ackd = []\<rparr>"

lemma sample_starts: "starts ''b'' sample_deployment"
  by (simp add: starts_def sample_deployment_def quiet_def) (metis prod.collapse)

text \<open>After the first upload: its event is in the queue.\<close>

lemma sample_uploaded:
  obtains s m where "reaches plain_env ''b'' s" "sent (sh (wld s)) = [m]" "mKey m = QueueUpload"
    "contents (brk s) = [(QueueUpload, m)]" "unacked s = []" "stale s = []" "ackd s = []"
    "script (wld s) = []" "buckets (sh (wld s)) ''b'' \<noteq> None"
    "\<exists>y. row_of (rows (sh (wld s))) (mId m) = Some y \<and> live y \<and> ProcessingStatus y = ProcessingStatusPending"
proof -
  obtain a w where run: "svc_Upload (world_service plain_env ''b'') ''ann'' ''n'' ''abcd'' (sample_world [] Map.empty []) = (Inr a, w)"
    and w: "sent (sh w) = [upload_message plain_env (upload_event a)]" "script w = []" "buckets (sh w) ''b'' \<noteq> None"
      "\<exists>y. row_of (rows (sh w)) (ID a) = Some y \<and> live y \<and> ProcessingStatus y = ProcessingStatusPending"
    by (rule sample_plain_upload)
  let ?j = "UploadJob ''ann'' ''n'' ''abcd''" and ?s0 = sample_deployment
  have wld: "wld ?s0 = sample_world [] Map.empty []" "run_job plain_env ''b'' ?j (wld ?s0) = w"
    using run by (simp_all add: sample_deployment_def)
  have "Declare broker_channel no_broker = (fst (Declare broker_channel no_broker), brk ?s0)" by (simp add: sample_deployment_def)
  from fresh_topology [OF this] have top: "topology_broker (brk ?s0)" "contents (brk ?s0) = []" by simp_all
  have "\<forall>m \<in> set [upload_message plain_env (upload_event a)]. addressed m" by (simp add: addressed_def upload_message_def)
  from accept_topology [OF top(1) _ this, of w] have acc: "accept w ?s0 = ?s0\<lparr>wld := w, brk := (brk ?s0)\<lparr>contents :=
      [(QueueUpload, upload_message plain_env (upload_event a))]\<rparr>\<rparr>" using w(1) wld(1) top(2) by simp
  have "is_request ?j" by simp
  from dstep.requests [OF this, where E = plain_env and b = "''b''" and s = ?s0]
  have "dstep plain_env ''b'' ?s0 (accept w ?s0)" unfolding wld(2) .
  then have "reaches plain_env ''b'' (accept w ?s0)" using sample_starts unfolding reaches_def by blast
  then show thesis
    by (rule that [of _ "upload_message plain_env (upload_event a)"], unfold acc)
       (use w in \<open>simp_all add: sample_deployment_def upload_message_def\<close>)
qed

theorem deployment_refines_witness:
  "\<exists>s. reaches plain_env ''b'' s \<and> sent (sh (wld s)) \<noteq> [] \<and> cat ''b'' (wld (requeue_all s)) = cat ''b'' (wld s) \<and> stale s = []"
proof -
  obtain s where s: "reaches plain_env ''b'' s" "sent (sh (wld s)) \<noteq> []" "stale s = []" using sample_uploaded by (metis list.distinct(1))
  have "dstep plain_env ''b'' s (requeue_all s)" by (rule dstep.dies)
  from deployment_refines [OF plain_env_ok s(1), THEN conjunct1, rule_format, OF this]
  have "cat ''b'' (wld (requeue_all s)) = cat ''b'' (wld s)" by (auto simp: requeue_all_def)
  with s show ?thesis by blast
qed

theorem messages_conserved_witness:
  "\<exists>s m. reaches plain_env ''b'' s \<and> sent (sh (wld s)) = [m] \<and> mExchange m = Exchange \<and>
     mset (map snd (contents (brk s))) + mset (map fMsg (unacked s)) + mset (map snd (ackd s)) = {#m#}"
proof -
  obtain s m where s: "reaches plain_env ''b'' s" "sent (sh (wld s)) = [m]" by (rule sample_uploaded)
  from messages_conserved [OF plain_env_ok s(1)] s show ?thesis by (intro exI [of _ s] exI [of _ m]) simp
qed

theorem no_upload_forgotten_witness:
  "\<exists>s m. reaches plain_env ''b'' s \<and> sent (sh (wld s)) = [m] \<and> unacked s = [] \<and>
     ((QueueUpload, m) \<in> set (contents (brk s)) \<or> (QueueDead, m) \<in> set (contents (brk s)))"
proof -
  obtain s m where s: "reaches plain_env ''b'' s" "sent (sh (wld s)) = [m]" "mKey m = QueueUpload" "unacked s = []" "stale s = []"
    and row: "\<exists>y. row_of (rows (sh (wld s))) (mId m) = Some y \<and> live y \<and> ProcessingStatus y = ProcessingStatusPending"
    by (rule sample_uploaded)
  obtain y where y: "row_of (rows (sh (wld s))) (mId m) = Some y" "live y" "ProcessingStatus y = ProcessingStatusPending" using row by blast
  have "m \<in> set (sent (sh (wld s)))" using s(2) by simp
  note somewhere = no_upload_forgotten [OF plain_env_ok s(1,5) this s(3) y(1,2)]
  have "\<not> settled plain_env (objects ''b'' (sh (wld s))) y" using y(3) by (simp add: settled_def)
  with somewhere s show ?thesis by auto
qed

definition lone_ctx :: "deployment goctx" where
  "lone_ctx = \<lparr>ctxErr = (\<lambda>_. None), waitFor = (\<lambda>t s. (True, s))\<rparr>"

theorem process_simulated_witness:
  "\<exists>s f. f \<in> set (unacked s) \<and> reaches plain_env ''b'' (process lone_ctx defaultBackoff
     (queue_handler (deployed_handlers plain_env ''b'') (fQueue f)) (queue_dead (deployed_handlers plain_env ''b'') (fQueue f))
     (flight_delivery f) s)"
proof -
  obtain s m where s: "reaches plain_env ''b'' s" "contents (brk s) = [(QueueUpload, m)]" by (rule sample_uploaded)
  let ?f = "\<lparr>fTag = next_tag s, fQueue = QueueUpload, fMsg = m\<rparr>" and ?s = "take_off (QueueUpload, m) [] s"
  have "dstep plain_env ''b'' s ?s" using dstep.delivers [of s "[]" "(QueueUpload, m)" "[]"] s(2) by simp
  then have r: "reaches plain_env ''b'' ?s" using reaches_run [OF s(1)] by blast
  have f: "?f \<in> set (unacked ?s)" by (simp add: take_off_def)
  then have fl: "in_flight ?f ?s" by simp
  have "waits_for_others plain_env ''b'' ?f lone_ctx" by (simp add: waits_for_others_def lone_ctx_def)
  from process_simulated [OF this fl r, of defaultBackoff, THEN conjunct2] f show ?thesis
    by (intro exI [of _ ?s] exI [of _ ?f] conjI)
qed

end
