(* ===== verification/Drain.thy ===== *)
theory Drain
  imports Delivery
begin

section \<open>Emptying the queues\<close>

text \<open>
  A worker that is left alone: it takes the messages of the work queues one after the other
  and runs the source's \<^verbatim>\<open>process\<close> on each. Every message is settled, with any faults; and
  when every call is answered, all are acknowledged and every live avatar whose event was
  accepted is settled.
\<close>

subsection \<open>Answered runs of the jobs\<close>

definition calm :: "string \<Rightarrow> world \<Rightarrow> bool" where
  "calm b w \<longleftrightarrow> script w = [] \<and> buckets (sh w) b \<noteq> None"

lemma pg_GetByID_gone:
  assumes good: "good_world E w" and "script w = []" and row: "row_of (rows (sh w)) i = Some x" and "\<not> live x"
  shows "pg_GetByID E i w = (Inl ErrNotFound, w)"
proof -
  have "find (\<lambda>a. ID a = i \<and> live a) (scan_order E ''by id'' (rows (sh w))) = None"
    using row_of_unique [OF good row] assms(4) good_worldD(1) [OF good] by (auto simp: find_None_iff)
  with assms(2) uuid_of_row [OF good row] show ?thesis
    by (simp add: pg_GetByID_def remote_answered sql_select_by_id_def scanAvatar_def)
qed

lemma status_answered:
  assumes good: "good_world E w" and "calm b w" and row: "row_of (rows (sh w)) i = Some x" and st: "st \<in> set processing_status_enum"
  obtains w' where "pg_SetProcessingStatus E i st w = (Inr (), w')" "good_world E w'" "calm b w'"
    "row_of (rows (sh w')) i \<noteq> None" "objects b (sh w') = objects b (sh w)"
proof -
  let ?upd = "\<lambda>now a. a\<lparr>ProcessingStatus := st, UpdatedAt := now\<rparr>"
  define w' where "w' = w\<lparr>sh := (sh w)\<lparr>rows := update_where (\<lambda>a. ID a = i) (?upd (clock w)) (rows (sh w))\<rparr>\<rparr>"
  have run: "pg_SetProcessingStatus E i st w = (Inr (), w')"
    using pg_exec_answered [OF good _ row, of ?upd] assms(2) st by (simp add: pg_SetProcessingStatus_def w'_def calm_def)
  have "good_world E w'"
    using pg_update_step [OF good row _ run [unfolded pg_SetProcessingStatus_def], of "[]"] st
    by (auto simp: processing_status_enum_def same_record_def row_ok_def)
  moreover have "row_of (rows (sh w')) i \<noteq> None"
    using row_of_update_where [OF good_worldD(4) [OF good] row, of "?upd (clock w)" "\<lambda>_. True"] by (simp add: w'_def)
  ultimately show thesis
    using assms(2) by (intro that [OF run]) (simp_all add: w'_def calm_def objects_def)
qed

lemma make_thumbs_returns:
  assumes good: "good_world E w" and calm: "calm b w" and row: "row_of (rows (sh w)) (upAvatarID ev) = Some x"
  shows "\<exists>st w'. make_thumbs (world_processor E b) ev src w = ((Inr (), st), w') \<and> calm b w'"
proof -
  let ?i = "upAvatarID ev"
  obtain m where m: "script w = []" "buckets (sh w) b = Some m" using calm by (auto simp: calm_def)
  have failed: "ProcessingStatusFailed \<in> set processing_status_enum" by (simp add: processing_status_enum_def)
  show ?thesis
  proof (cases "Generate (world_imaging E) src 100")
    case (Inl e)
    obtain w' where "pg_SetProcessingStatus E ?i ProcessingStatusFailed w = (Inr (), w')" "calm b w'"
      by (rule status_answered [OF good calm row failed])
    with Inl show ?thesis by (simp add: make_thumbs_def ThumbnailSizes_def)
  next
    case (Inr t1)
    define w1 where "w1 = w\<lparr>sh := (sh w)\<lparr>buckets := (buckets (sh w))(b \<mapsto> m(ThumbnailKey ?i 100 \<mapsto>
      \<lparr>oType = ''image/jpeg'', oData = t1\<rparr>))\<rparr>\<rparr>"
    show ?thesis
    proof (cases "Generate (world_imaging E) src 300")
      case (Inl e)
      have w1: "good_world E w1" "calm b w1" "row_of (rows (sh w1)) ?i = Some x"
        using good row m by (simp_all add: w1_def good_world_def calm_def)
      obtain w' where "pg_SetProcessingStatus E ?i ProcessingStatusFailed w1 = (Inr (), w')" "calm b w'"
        by (rule status_answered [OF w1 failed])
      moreover have "s3_Put (world_store b) (ThumbnailKey ?i 100) ''image/jpeg'' t1 (int (length t1)) w = (Inr (), w1)"
        by (simp add: s3_Put_answered [OF m] w1_def)
      ultimately show ?thesis
        using Inl Inr by (simp add: make_thumbs_def ThumbnailSizes_def Let_def)
    next
      case (Inr t2)
      from make_thumbs_answered [OF good m(1) row m(2) \<open>Generate (world_imaging E) src 100 = Inr t1\<close> this] m(1)
      show ?thesis by (simp add: calm_def)
    qed
  qed
qed

lemma HandleUpload_returns:
  assumes good: "good_world E w" and calm: "calm b w" and row: "row_of (rows (sh w)) (upAvatarID ev) = Some x"
    and ob: "live x \<Longrightarrow> objects b (sh w) (upS3Key ev) \<noteq> None"
  shows "\<exists>w'. HandleUpload (world_processor E b) ev w = (Inr (), w') \<and> calm b w'"
proof -
  have quiet: "script w = []" using calm by (simp add: calm_def)
  have processing: "ProcessingStatusProcessing \<in> set processing_status_enum" by (simp add: processing_status_enum_def)
  have obs: "calm b (v\<lparr>observed := l\<rparr>) = calm b v" for v l by (simp add: calm_def)
  have "\<exists>st w'. upload_body (world_processor E b) ev w = ((Inr (), st), w') \<and> calm b w'"
  proof (cases "live x")
    case False
    with pg_GetByID_gone [OF good quiet row] calm show ?thesis by (simp add: upload_body_def)
  next
    case True
    note get = pg_GetByID_answered [OF good quiet row True]
    show ?thesis
    proof (cases "ProcessingStatus x = ProcessingStatusCompleted \<or> ProcessingStatus x = ProcessingStatusDeleted")
      case True
      with get calm show ?thesis by (simp add: upload_body_def)
    next
      case False
      obtain o1 where o1: "objects b (sh w) (upS3Key ev) = Some o1" using ob [OF True] by blast
      obtain w1 where w1: "pg_SetProcessingStatus E (upAvatarID ev) ProcessingStatusProcessing w = (Inr (), w1)"
        "good_world E w1" "calm b w1" "row_of (rows (sh w1)) (upAvatarID ev) \<noteq> None" "objects b (sh w1) = objects b (sh w)"
        by (rule status_answered [OF good calm row processing])
      obtain y where y: "row_of (rows (sh w1)) (upAvatarID ev) = Some y" using w1(4) by blast
      have "objects b (sh w1) (upS3Key ev) = Some o1" using o1 w1(5) by simp
      note rd = s3_Get_answered [OF _ this] 
      have "script w1 = []" using w1(3) by (simp add: calm_def)
      from make_thumbs_returns [OF w1(2,3) y, of "oData o1"] rd [OF this] w1(1) False get show ?thesis
        by (simp add: upload_body_def process_avatar_def)
    qed
  qed
  then show ?thesis by (auto simp: HandleUpload_def obs)
qed

lemma HandleDelete_returns:
  assumes "good_world E w" and "calm b w" and "row_of (rows (sh w)) (delAvatarID dv) = Some x"
  shows "\<exists>w'. HandleDelete (world_processor E b) dv w = (Inr (), w') \<and> calm b w'"
proof -
  obtain m where m: "script w = []" "buckets (sh w) b = Some m" using assms(2) by (auto simp: calm_def)
  from HandleDelete_answered [OF assms(1) m(1) assms(3) m(2)] m(1) show ?thesis by (simp add: calm_def)
qed

subsection \<open>One delivery, undisturbed\<close>

lemma attempt_returns:
  assumes "ids_plain E" and inv: "dinv E b s" and f: "in_flight f s" and calm: "calm b (wld s)"
  shows "\<exists>w. attempt E b f s = (Inr (), accept w s) \<and> calm b w"
proof -
  note d = dinvD [OF inv]
  have fl: "flight_ok s f" by (rule d(8) [OF f])
  have m: "fMsg f \<in> set (vMsgs (world_view b (wld s)))" using fl by (simp add: flight_ok_def)
  obtain x where x: "row_of (rows (sh (wld s))) (mId (fMsg f)) = Some x"
    "mKey (fMsg f) = QueueUpload \<longrightarrow> live x \<longrightarrow> objects b (sh (wld s)) (S3Key x) \<noteq> None"
    using d(4) m unfolding published_def world_view_sel by blast
  from known_decodes [OF assms(1) d(2) m] show ?thesis
  proof (elim disjE conjE exE)
    fix ev
    assume ev: "mKey (fMsg f) = QueueUpload" "unmarshal_upload (Some (mBody (fMsg f))) = Inr ev" "upAvatarID ev = mId (fMsg f)"
    have "upS3Key ev = S3Key x" using known_upload [OF assms(1) d(2) m ev(1,2)] x(1) ev(3) by auto
    then have "\<exists>w. HandleUpload (world_processor E b) ev (wld s) = (Inr (), w) \<and> calm b w"
      using HandleUpload_returns [OF d(1) calm, of ev x] x ev(1,3) by simp
    then show ?thesis
      using ev fl by (auto simp: attempt_def queue_handler_def flight_ok_def handle_upload_def flight_delivery_def
          deployed_handlers_def on_world_def)
  next
    fix dv
    assume dv: "mKey (fMsg f) = QueueDelete" "unmarshal_delete (Some (mBody (fMsg f))) = Inr dv" "delAvatarID dv = mId (fMsg f)"
    have "\<exists>w. HandleDelete (world_processor E b) dv (wld s) = (Inr (), w) \<and> calm b w"
      using HandleDelete_returns [OF d(1) calm, of dv x] x(1) dv(3) by simp
    then show ?thesis
      using dv fl by (auto simp: attempt_def queue_handler_def flight_ok_def handle_delete_def flight_delivery_def
          deployed_handlers_def on_world_def)
  qed
qed

text \<open>Nothing shuts down, and nothing else happens while a handler waits.\<close>

definition alone :: "deployment goctx \<Rightarrow> bool" where
  "alone ctx \<longleftrightarrow> (\<forall>s. ctxErr ctx s = None) \<and> (\<forall>t s. waitFor ctx t s = (True, s))"

lemma alone_waits: "alone ctx \<Longrightarrow> waits_for_others E b f ctx"
  by (simp add: alone_def waits_for_others_def)

lemma withRetry_alone:
  assumes "ids_plain E" and "alone ctx" and "dinv E b s" and "in_flight f s"
    and "withRetry ctx backoff (queue_handler (deployed_handlers E b) (fQueue f)) (flight_delivery f) n s = (r, s')"
  shows "\<exists>w. s' = s\<lparr>wld := w\<rparr> \<and> dinv E b s' \<and> cat b w = cat b (wld s) \<and> sent (sh w) = sent (sh (wld s)) \<and>
    (calm b (wld s) \<longrightarrow> r = Inr () \<and> calm b w)"
  using assms(3-5)
proof (induction "length backoff - n" arbitrary: n s rule: less_induct)
  case less
  obtain r1 s1 where h: "attempt E b f s = (r1, s1)" by fastforce
  then have h': "queue_handler (deployed_handlers E b) (fQueue f) (flight_delivery f) s = (r1, s1)" by (simp add: attempt_def)
  obtain w1 where w1: "s1 = s\<lparr>wld := w1\<rparr>" "dinv E b s1" "cat b w1 = cat b (wld s)" "sent (sh w1) = sent (sh (wld s))"
    using attempt_run [OF assms(1) less.prems(1,2) h] by metis
  have calm: "r1 = Inr () \<and> calm b w1" if c: "calm b (wld s)"
  proof -
    obtain w where "r1 = Inr ()" "s1 = accept w s" "calm b w" using attempt_returns [OF assms(1) less.prems(1,2) c] h by auto
    moreover have "wld s1 = w1" using w1(1) by simp
    moreover from \<open>s1 = accept w s\<close> have "wld s1 = w" by (simp add: accept_def)
    ultimately show ?thesis by simp
  qed
  show ?case
  proof (cases "r1 = Inr () \<or> length backoff \<le> n")
    case True
    then have "r = r1 \<and> s' = s1"
      using less.prems(3) h' by (subst (asm) withRetry.simps; cases r1; auto split: if_splits)
    with w1 calm show ?thesis by blast
  next
    case False
    then obtain e where r1: "r1 = Inl e" by (cases r1) auto
    have "n < length backoff" using False by auto
    then have shorter: "length backoff - Suc n < length backoff - n" by (rule diff_less_mono2 [OF lessI])
    have again: "withRetry ctx backoff (queue_handler (deployed_handlers E b) (fQueue f)) (flight_delivery f) (Suc n) s1 = (r, s')"
      using less.prems(3) h' r1 assms(2) False by (subst (asm) withRetry.simps) (simp add: alone_def)
    have "in_flight f s1" using less.prems(2) w1(1) by simp
    from less.hyps [OF shorter w1(2) this again] obtain w where "s' = s1\<lparr>wld := w\<rparr>" "dinv E b s'" "cat b w = cat b w1"
      "sent (sh w) = sent (sh w1)" using w1(1) by auto
    with w1 calm r1 show ?thesis by (intro exI [of _ w]) auto
  qed
qed

lemma dinv_run:
  assumes "keys_exact E" and "ids_plain E" and "dinv E b s" and "(dstep E b)\<^sup>*\<^sup>* s s'"
  shows "dinv E b s'"
  using assms(4,3) by (induction rule: rtranclp_induct) (auto intro: dinv_step [OF assms(1,2)])

lemma process_settles:
  assumes "keys_exact E" and "ids_plain E" and alone: "alone ctx" and inv: "dinv E b s" and f: "f \<in> set (unacked s)"
  obtains w where "dinv E b (process_flight ctx backoff E b f s)" "(dstep E b)\<^sup>*\<^sup>* s (process_flight ctx backoff E b f s)"
    "cat b w = cat b (wld s)" "sent (sh w) = sent (sh (wld s))"
    "process_flight ctx backoff E b f s = s\<lparr>wld := w, unacked := remove1 f (unacked s), ackd := ackd s @ [(fQueue f, fMsg f)]\<rparr> \<and>
         (calm b (wld s) \<longrightarrow> calm b w) \<or>
     process_flight ctx backoff E b f s = s\<lparr>wld := w, unacked := remove1 f (unacked s),
         brk := (brk s)\<lparr>contents := contents (brk s) @ [(QueueDead, fMsg f)]\<rparr>\<rparr> \<and> \<not> calm b (wld s)"
proof -
  let ?d = "flight_delivery f"
  have fl: "in_flight f s" using f by simp
  have path: "(dstep E b)\<^sup>*\<^sup>* s (process_flight ctx backoff E b f s)" by (rule process_path [OF alone_waits [OF alone] fl])
  note inv' = dinv_run [OF assms(1,2) inv path]
  obtain r s1 where run: "withRetry ctx backoff (queue_handler (deployed_handlers E b) (fQueue f)) ?d 0 s = (r, s1)" by fastforce
  obtain w1 where w1: "s1 = s\<lparr>wld := w1\<rparr>" "dinv E b s1" "cat b w1 = cat b (wld s)" "sent (sh w1) = sent (sh (wld s))"
    "calm b (wld s) \<Longrightarrow> r = Inr () \<and> calm b w1"
    using withRetry_alone [OF assms(2) alone inv fl run] by auto
  have f1: "f \<in> set (unacked s1)" using f w1(1) by simp
  show thesis
  proof (cases r)
    case (Inr u)
    have "process_flight ctx backoff E b f s = snd (dAck ?d s1)" using run Inr by (simp add: process_flight_def process_def)
    also have "\<dots> = s\<lparr>wld := w1, unacked := remove1 f (unacked s), ackd := ackd s @ [(fQueue f, fMsg f)]\<rparr>"
      using f by (simp add: flight_delivery_def w1(1))
    finally show thesis using that [OF inv' path w1(3,4)] w1(5) by blast
  next
    case (Inl e)
    have p: "process_flight ctx backoff E b f s = snd (dNack ?d False (give_up E b f s1))"
      using run Inl alone by (simp add: process_flight_def process_def give_up_def alone_def)
    have "in_flight f s1" using f1 by simp
    then obtain w where w: "give_up E b f s1 = s1\<lparr>wld := w\<rparr>" "cat b w = cat b (wld s1)" "sent (sh w) = sent (sh (wld s1))"
      using give_up_run [OF assms(2) w1(2)] by metis
    have g: "give_up E b f s1 = s\<lparr>wld := w\<rparr>" using w(1) w1(1) by simp
    have dl: "dead_letter (brk s) (fQueue f) (mKey (fMsg f)) = [QueueDead]"
      using topology_brokerD(2) [OF dinvD(7) [OF inv], of "fQueue f"] flight_queue [OF inv f] by simp
    have "process_flight ctx backoff E b f s = s\<lparr>wld := w, unacked := remove1 f (unacked s),
         brk := (brk s)\<lparr>contents := contents (brk s) @ [(QueueDead, fMsg f)]\<rparr>\<rparr>"
      using f dl unfolding p g by (simp add: flight_delivery_def)
    moreover have "cat b w = cat b (wld s)" "sent (sh w) = sent (sh (wld s))" using w(2,3) w1(1,3,4) by simp_all
    moreover have "\<not> calm b (wld s)" using w1(5) Inl by auto
    ultimately show thesis using that [OF inv' path] by blast
  qed
qed

subsection \<open>All the work\<close>

text \<open>
  The broker hands out the given messages one by one, and each is processed before the next:
  a prefetch limit of one is enough.
\<close>

definition ready :: "broker \<Rightarrow> (string \<times> message) list" where
  "ready br = filter (\<lambda>p. fst p \<in> {QueueUpload, QueueDelete}) (contents br)"

definition next_flight :: "string \<times> message \<Rightarrow> deployment \<Rightarrow> flight" where
  "next_flight p s = \<lparr>fTag = next_tag s, fQueue = fst p, fMsg = snd p\<rparr>"

fun drain :: "deployment goctx \<Rightarrow> int list \<Rightarrow> env \<Rightarrow> string \<Rightarrow> (string \<times> message) list \<Rightarrow> deployment \<Rightarrow> deployment" where
  "drain ctx backoff E b [] s = s"
| "drain ctx backoff E b (p # ps) s = drain ctx backoff E b ps
     (process_flight ctx backoff E b (next_flight p s) (take_off p (remove1 p (contents (brk s))) s))"

text \<open>What is left after it: every message taken is acknowledged or in the dead queue.\<close>

definition drained :: "string \<Rightarrow> (string \<times> message) list \<Rightarrow> deployment \<Rightarrow> deployment \<Rightarrow> bool" where
  "drained b ps s s' \<longleftrightarrow> unacked s' = unacked s \<and> stale s' = stale s \<and>
     cat b (wld s') = cat b (wld s) \<and> sent (sh (wld s')) = sent (sh (wld s)) \<and>
     (\<exists>acks deads. mset ps = mset acks + mset deads \<and> ackd s' = ackd s @ acks \<and>
        mset (contents (brk s')) = mset (contents (brk s)) - mset ps + mset (map (\<lambda>p. (QueueDead, snd p)) deads) \<and>
        (calm b (wld s) \<longrightarrow> deads = [] \<and> calm b (wld s')))"

lemma drained_trans_acked:
  assumes "drained b ps s1 s'" and "unacked s1 = unacked s" "stale s1 = stale s" "cat b (wld s1) = cat b (wld s)"
    "sent (sh (wld s1)) = sent (sh (wld s))" "ackd s1 = ackd s @ [p]"
    "mset (contents (brk s1)) = mset (contents (brk s)) - {#p#}" "calm b (wld s) \<Longrightarrow> calm b (wld s1)"
  shows "drained b (p # ps) s s'"
proof -
  obtain acks deads where 1: "mset ps = mset acks + mset deads" "ackd s' = ackd s1 @ acks"
    "mset (contents (brk s')) = mset (contents (brk s1)) - mset ps + mset (map (\<lambda>p. (QueueDead, snd p)) deads)"
    "calm b (wld s1) \<longrightarrow> deads = [] \<and> calm b (wld s')" using assms(1) by (auto simp: drained_def)
  with assms show ?thesis
    unfolding drained_def by (intro conjI exI [of _ "p # acks"] exI [of _ deads]) simp_all
qed

lemma drained_trans_dead:
  assumes "drained b ps s1 s'" and "unacked s1 = unacked s" "stale s1 = stale s" "cat b (wld s1) = cat b (wld s)"
    "sent (sh (wld s1)) = sent (sh (wld s))" "ackd s1 = ackd s"
    "mset (contents (brk s1)) = mset (contents (brk s)) - {#p#} + {#(QueueDead, snd p)#}" "\<not> calm b (wld s)"
    and "mset (p # ps) \<subseteq># mset (contents (brk s))"
  shows "drained b (p # ps) s s'"
proof -
  obtain acks deads where 1: "mset ps = mset acks + mset deads" "ackd s' = ackd s1 @ acks"
    "mset (contents (brk s')) = mset (contents (brk s1)) - mset ps + mset (map (\<lambda>p. (QueueDead, snd p)) deads)"
    using assms(1) by (auto simp: drained_def)
  have left: "mset ps \<subseteq># mset (contents (brk s)) - {#p#}" using assms(9) by (simp add: insert_subset_eq_iff)
  have "mset (contents (brk s1)) - mset ps = mset (contents (brk s)) - mset (p # ps) + {#(QueueDead, snd p)#}"
    unfolding assms(7) subset_mset.add_diff_assoc2 [OF left, symmetric] by simp
  with 1 assms show ?thesis
    unfolding drained_def by (intro conjI exI [of _ acks] exI [of _ "p # deads"]) simp_all
qed

lemma drain_run:
  assumes "keys_exact E" and "ids_plain E" and alone: "alone ctx"
  shows "dinv E b s \<Longrightarrow> unacked s = [] \<Longrightarrow> mset ps \<subseteq># mset (contents (brk s)) \<Longrightarrow>
    \<forall>p \<in> set ps. fst p \<in> {QueueUpload, QueueDelete} \<Longrightarrow>
    (dstep E b)\<^sup>*\<^sup>* s (drain ctx backoff E b ps s) \<and> drained b ps s (drain ctx backoff E b ps s)"
proof (induction ps arbitrary: s)
  case Nil
  have "drained b [] s s" unfolding drained_def by (intro conjI exI [of _ "[]"]) simp_all
  then show ?case by simp
next
  case (Cons p ps)
  let ?f = "next_flight p s" and ?s0 = "take_off p (remove1 p (contents (brk s))) s"
  have "p \<in> set (contents (brk s))" using Cons.prems(3) by (metis insert_subset_eq_iff mset.simps(2) set_mset_mset)
  then obtain xs ys where c: "contents (brk s) = xs @ p # ys" "p \<notin> set xs" by (meson split_list_first)
  then have rest: "remove1 p (contents (brk s)) = xs @ ys" by (simp add: remove1_append)
  have work: "fst p \<in> {QueueUpload, QueueDelete}" using Cons.prems(4) by simp
  have inv0: "dinv E b ?s0" unfolding rest by (rule dinv_take_off [OF Cons.prems(1) c(1) work])
  have step0: "dstep E b s ?s0" unfolding rest by (rule dstep.delivers [OF c(1) work])
  have s0: "unacked ?s0 = [?f]" "wld ?s0 = wld s" "stale ?s0 = stale s" "ackd ?s0 = ackd s"
    "contents (brk ?s0) = remove1 p (contents (brk s))"
    using Cons.prems(2) by (simp_all add: take_off_def next_flight_def)
  have f: "?f \<in> set (unacked ?s0)" "fQueue ?f = fst p" "fMsg ?f = snd p" by (simp add: s0(1)) (simp_all add: next_flight_def)
  define s1 where "s1 = process_flight ctx backoff E b ?f ?s0"
  obtain w where w: "dinv E b s1" "(dstep E b)\<^sup>*\<^sup>* ?s0 s1" "cat b w = cat b (wld ?s0)" "sent (sh w) = sent (sh (wld ?s0))"
    "s1 = ?s0\<lparr>wld := w, unacked := remove1 ?f (unacked ?s0), ackd := ackd ?s0 @ [(fQueue ?f, fMsg ?f)]\<rparr> \<and>
       (calm b (wld ?s0) \<longrightarrow> calm b w) \<or>
     s1 = ?s0\<lparr>wld := w, unacked := remove1 ?f (unacked ?s0),
       brk := (brk ?s0)\<lparr>contents := contents (brk ?s0) @ [(QueueDead, fMsg ?f)]\<rparr>\<rparr> \<and> \<not> calm b (wld ?s0)"
    unfolding s1_def by (rule process_settles [OF assms inv0 f(1)])
  have "remove1 ?f [?f] = []" by simp
  note w = w [unfolded s0 this f(2,3) prod.collapse]
  have s1: "unacked s1 = []" "wld s1 = w" "stale s1 = stale s" using w(5) s0 by auto
  have left: "mset ps \<subseteq># mset (contents (brk s)) - {#p#}" using Cons.prems(3) by (simp add: insert_subset_eq_iff)
  have "mset ps \<subseteq># mset (contents (brk s1))"
    using w(5) left by (elim disjE conjE) (simp_all add: s0(5) subset_mset.trans [OF left])
  then have IH: "(dstep E b)\<^sup>*\<^sup>* s1 (drain ctx backoff E b ps s1)" "drained b ps s1 (drain ctx backoff E b ps s1)"
    using Cons.IH [OF w(1) s1(1)] Cons.prems(4) by simp_all
  have "(dstep E b)\<^sup>*\<^sup>* s (drain ctx backoff E b ps s1)"
    using converse_rtranclp_into_rtranclp [OF step0 rtranclp_trans [OF w(2) IH(1)]] .
  moreover have "drained b (p # ps) s (drain ctx backoff E b ps s1)"
    using w(5)
  proof (elim disjE conjE)
    assume a: "s1 = ?s0\<lparr>wld := w, unacked := [], ackd := ackd s @ [p]\<rparr>" "calm b (wld s) \<longrightarrow> calm b w"
    show ?thesis
      by (rule drained_trans_acked [OF IH(2)]) (use a w(3,4) s0 s1 Cons.prems(2) in simp_all)
  next
    assume a: "s1 = ?s0\<lparr>wld := w, unacked := [], brk := (brk ?s0)\<lparr>contents := remove1 p (contents (brk s)) @ [(QueueDead, snd p)]\<rparr>\<rparr>"
      "\<not> calm b (wld s)"
    show ?thesis
      by (rule drained_trans_dead [OF IH(2)]) (use a w(3,4) s0 s1 Cons.prems(2,3) in simp_all)
  qed
  ultimately show ?case by (simp add: s1_def)
qed

subsection \<open>Properties\<close>

lemma mset_minus_filter: "mset xs - mset (filter P xs) = mset (filter (\<lambda>x. \<not> P x) xs)"
  by (induction xs) auto

lemma drained_ready:
  assumes "drained b (ready (brk s)) s s'"
  shows "ready (brk s') = []"
    and "p \<in> set (ready (brk s)) \<Longrightarrow> p \<in> set (ackd s') \<or> (QueueDead, snd p) \<in> set (contents (brk s'))"
    and "calm b (wld s) \<Longrightarrow> mset (ackd s') = mset (ackd s) + mset (ready (brk s)) \<and>
      mset (contents (brk s')) = mset (contents (brk s)) - mset (ready (brk s))"
proof -
  obtain acks deads where 1: "mset (ready (brk s)) = mset acks + mset deads" "ackd s' = ackd s @ acks"
    "mset (contents (brk s')) = mset (contents (brk s)) - mset (ready (brk s)) + mset (map (\<lambda>p. (QueueDead, snd p)) deads)"
    "calm b (wld s) \<longrightarrow> deads = []" using assms by (auto simp: drained_def)
  have "mset (contents (brk s')) = mset (filter (\<lambda>p. fst p \<notin> {QueueUpload, QueueDelete}) (contents (brk s)) @
      map (\<lambda>p. (QueueDead, snd p)) deads)"
    using 1(3) by (simp only: ready_def mset_minus_filter mset_append)
  then have set: "set (contents (brk s')) = set (filter (\<lambda>p. fst p \<notin> {QueueUpload, QueueDelete}) (contents (brk s)) @
      map (\<lambda>p. (QueueDead, snd p)) deads)" by (rule mset_eq_setD)
  then show "ready (brk s') = []" by (auto simp: ready_def filter_empty_conv)
  show "p \<in> set (ackd s') \<or> (QueueDead, snd p) \<in> set (contents (brk s'))" if "p \<in> set (ready (brk s))"
  proof -
    have "set (ready (brk s)) = set acks \<union> set deads"
      using 1(1) by (metis mset_append mset_eq_setD set_append)
    with that 1(2) set show ?thesis by auto
  qed
  show "mset (ackd s') = mset (ackd s) + mset (ready (brk s)) \<and>
      mset (contents (brk s')) = mset (contents (brk s)) - mset (ready (brk s))" if "calm b (wld s)"
    using that 1 by simp
qed

lemma drain_ready:
  assumes "keys_exact E" and "ids_plain E" and "alone ctx" and "dinv E b s" and "unacked s = []"
  shows "(dstep E b)\<^sup>*\<^sup>* s (drain ctx backoff E b (ready (brk s)) s)"
    and "drained b (ready (brk s)) s (drain ctx backoff E b (ready (brk s)) s)"
proof -
  have "mset (ready (brk s)) \<subseteq># mset (contents (brk s))" by (simp add: ready_def mset_filter)
  moreover have "\<forall>p \<in> set (ready (brk s)). fst p \<in> {QueueUpload, QueueDelete}" by (simp add: ready_def)
  ultimately show "(dstep E b)\<^sup>*\<^sup>* s (drain ctx backoff E b (ready (brk s)) s)"
    "drained b (ready (brk s)) s (drain ctx backoff E b (ready (brk s)) s)"
    using drain_run [OF assms] by blast+
qed

text \<open>
  C24: a worker empties the queues, whatever fails. Left alone with the messages of a
  reachable state, with any back-off schedule and with any faults of database, bucket and
  broker calls, a worker that processes them one after the other comes to an end: no message
  is left in a work queue or in its hands, and each is acknowledged or in the dead queue.
  What it does is a run of steps that leaves the catalogue as it is.
\<close>

theorem worker_drains:
  assumes "env_ok E" and "keys_exact E" and "ids_plain E" and "reaches E b s" and "unacked s = []" and "alone ctx"
  shows "let s' = drain ctx backoff E b (ready (brk s)) s in
    (dstep E b)\<^sup>*\<^sup>* s s' \<and> unacked s' = [] \<and> ready (brk s') = [] \<and> cat b (wld s') = cat b (wld s) \<and>
    (\<forall>p \<in> set (ready (brk s)). p \<in> set (ackd s') \<or> (QueueDead, snd p) \<in> set (contents (brk s')))"
proof -
  note run = drain_ready [OF assms(2,3,6) reaches_dinv [OF assms(1-4)] assms(5), of backoff]
  show ?thesis
    using run(1) drained_ready(1,2) [OF run(2)] run(2) assms(5) unfolding drained_def Let_def by auto
qed

text \<open>
  C4: when the calls are answered, all the work gets done. From a reachable state in which no
  delivery is open, no handler has outlived its connection, every call is answered and the
  bucket is there, the worker acknowledges every queued message and buries none. After it,
  every live avatar whose upload event was accepted, unless that event was in the dead queue
  before, is settled: its row is completed and lists both thumbnails and both are stored as
  the code makes them from the stored original, or its row is failed and there is a size for
  which the code makes no thumbnail from the stored original. It does not matter how many
  uploads and deletions were interleaved before, nor which faults they met.
\<close>

theorem uploads_get_processed:
  assumes "env_ok E" and "keys_exact E" and "ids_plain E" and "reaches E b s" and "unacked s = []" and "stale s = []"
    and "alone ctx" and "script (wld s) = []" and "buckets (sh (wld s)) b \<noteq> None"
  shows "let s' = drain ctx backoff E b (ready (brk s)) s in
    mset (ackd s') = mset (ackd s) + mset (ready (brk s)) \<and>
    mset (contents (brk s')) = mset (contents (brk s)) - mset (ready (brk s)) \<and>
    (\<forall>m a. m \<in> set (sent (sh (wld s))) \<longrightarrow> mKey m = QueueUpload \<longrightarrow> (QueueDead, m) \<notin> set (contents (brk s)) \<longrightarrow>
       row_of (rows (sh (wld s'))) (mId m) = Some a \<longrightarrow> live a \<longrightarrow> settled E (objects b (sh (wld s'))) a)"
proof -
  define s' where "s' = drain ctx backoff E b (ready (brk s)) s"
  note inv = reaches_dinv [OF assms(1-4)]
  note run = drain_ready [OF assms(2,3,7) inv assms(5), of backoff, folded s'_def]
  have inv': "dinv E b s'" by (rule dinv_run [OF assms(2,3) inv run(1)])
  have calm: "calm b (wld s)" using assms(8,9) by (simp add: calm_def)
  note left = drained_ready(3) [OF run(2) calm]
  have s': "unacked s' = []" "stale s' = []" "sent (sh (wld s')) = sent (sh (wld s))"
    using run(2) assms(5,6) by (simp_all add: drained_def)
  have sub: "set (contents (brk s')) \<subseteq> set (contents (brk s))"
    using left by (metis diff_subset_eq_self set_mset_mono set_mset_mset)
  have "settled E (objects b (sh (wld s'))) a"
    if a: "m \<in> set (sent (sh (wld s)))" "mKey m = QueueUpload" "(QueueDead, m) \<notin> set (contents (brk s))"
      "row_of (rows (sh (wld s'))) (mId m) = Some a" "live a" for m a
  proof -
    have "(QueueUpload, m) \<notin> set (contents (brk s'))" using drained_ready(1) [OF run(2)]
      by (auto simp: ready_def filter_empty_conv)
    with unsettled_somewhere [OF inv' s'(2) _ a(2,4,5)] a(1,3) s' sub show ?thesis by auto
  qed
  with left show ?thesis unfolding Let_def s'_def [symmetric] by blast
qed

subsection \<open>An outage at the wrong moment\<close>

text \<open>A turn in which the call is refused, and what an attempt makes of it.\<close>

definition refused :: "int \<Rightarrow> net_error \<Rightarrow> turn" where
  "refused now e = ((\<lambda>s. s), now, Refused e)"

lemma HandleUpload_refused:
  assumes "script w = refused now e # ts"
  shows "\<exists>w'. HandleUpload (world_processor E b) ev w = (Inl (Wrapf ''scan avatar'' (Net e)), w') \<and>
    sh w' = sh w \<and> script w' = ts"
  using assms
  by (simp add: HandleUpload_def upload_body_def pg_GetByID_def remote_def take_turn_def refused_def scanAvatar_def)

lemma retries_refused:
  assumes alone: "alone ctx" and "fQueue f = QueueUpload" and "unmarshal_upload (Some (mBody (fMsg f))) = Inr ev"
  shows "topology_broker (brk s) \<Longrightarrow> script (wld s) = replicate (Suc (length backoff - n)) (refused now e) \<Longrightarrow>
    \<exists>w err. withRetry ctx backoff (queue_handler (deployed_handlers E b) (fQueue f)) (flight_delivery f) n s =
      (Inl err, s\<lparr>wld := w\<rparr>) \<and> sh w = sh (wld s) \<and> script w = []"
proof (induction "length backoff - n" arbitrary: n s)
  case (0 n s)
  have "script (wld s) = refused now e # []" using 0 by simp
  from HandleUpload_refused [OF this] obtain w err where
    w: "HandleUpload (world_processor E b) ev (wld s) = (Inl err, w)" "sh w = sh (wld s)" "script w = []" by blast
  have "accept w s = s\<lparr>wld := w\<rparr>" by (rule accept_silent [OF 0(2)]) (simp add: w(2))
  then have "queue_handler (deployed_handlers E b) (fQueue f) (flight_delivery f) s = (Inl err, s\<lparr>wld := w\<rparr>)"
    using w(1) assms(2,3) by (simp add: queue_handler_def handle_upload_def flight_delivery_def deployed_handlers_def on_world_def)
  moreover have "length backoff \<le> n" using 0(1) by simp
  ultimately have "withRetry ctx backoff (queue_handler (deployed_handlers E b) (fQueue f)) (flight_delivery f) n s =
      (Inl err, s\<lparr>wld := w\<rparr>)" by (subst withRetry.simps) simp
  with w(2,3) show ?case by blast
next
  case (Suc k n s)
  have "script (wld s) = refused now e # replicate (Suc k) (refused now e)" using Suc.prems(2) Suc.hyps(2) by simp
  from HandleUpload_refused [OF this] obtain w err where
    w: "HandleUpload (world_processor E b) ev (wld s) = (Inl err, w)" "sh w = sh (wld s)" "script w = replicate (Suc k) (refused now e)"
    by blast
  have "accept w s = s\<lparr>wld := w\<rparr>" by (rule accept_silent [OF Suc.prems(1)]) (simp add: w(2))
  then have h: "queue_handler (deployed_handlers E b) (fQueue f) (flight_delivery f) s = (Inl err, s\<lparr>wld := w\<rparr>)"
    using w(1) assms(2,3) by (simp add: queue_handler_def handle_upload_def flight_delivery_def deployed_handlers_def on_world_def)
  have k: "k = length backoff - Suc n" and more: "\<not> length backoff \<le> n" using Suc.hyps(2) by simp_all
  have again: "withRetry ctx backoff (queue_handler (deployed_handlers E b) (fQueue f)) (flight_delivery f) n s =
      withRetry ctx backoff (queue_handler (deployed_handlers E b) (fQueue f)) (flight_delivery f) (Suc n) (s\<lparr>wld := w\<rparr>)"
    using h alone more by (subst withRetry.simps) (simp add: alone_def)
  have "topology_broker (brk (s\<lparr>wld := w\<rparr>))" "script (wld (s\<lparr>wld := w\<rparr>)) = replicate (Suc (length backoff - Suc n)) (refused now e)"
    using Suc.prems(1) w(3) k by simp_all
  from Suc.hyps(1) [OF k this] w(2) show ?case unfolding again by auto
qed

text \<open>
  C25: an outage can turn a finished upload into a failed one. When the event of a completed
  avatar is delivered once more (its acknowledgement was lost, or its worker died) and the
  database refuses the calls for as long as the retries go on, the callback that follows
  marks the avatar failed, although both thumbnails are stored, listed and served, and the
  message is buried; UploadFailed does not look at the status it overwrites.
\<close>

theorem outage_fails_completed:
  assumes "good_world E (wld s)" and "topology_broker (brk s)" and "alone ctx"
    and "f \<in> set (unacked s)" and "fQueue f = QueueUpload" and "mKey (fMsg f) = QueueUpload"
    and "unmarshal_upload (Some (mBody (fMsg f))) = Inr ev"
    and "row_of (rows (sh (wld s))) (upAvatarID ev) = Some x" and "live x" and "ProcessingStatus x = ProcessingStatusCompleted"
    and "script (wld s) = replicate (Suc (length backoff)) (refused now e)"
  shows "let s' = process ctx backoff (queue_handler (deployed_handlers E b) (fQueue f))
      (queue_dead (deployed_handlers E b) (fQueue f)) (flight_delivery f) s in
    \<exists>y. row_of (rows (sh (wld s'))) (upAvatarID ev) = Some y \<and> live y \<and> Thumbnails y = Thumbnails x \<and>
      ProcessingStatus y = ProcessingStatusFailed \<and> objects b (sh (wld s')) = objects b (sh (wld s)) \<and>
      (QueueDead, fMsg f) \<in> set (contents (brk s'))"
proof -
  let ?i = "upAvatarID ev" and ?upd = "\<lambda>now a. a\<lparr>ProcessingStatus := ProcessingStatusFailed, UpdatedAt := now\<rparr>"
  obtain w err where run: "withRetry ctx backoff (queue_handler (deployed_handlers E b) (fQueue f)) (flight_delivery f) 0 s =
      (Inl err, s\<lparr>wld := w\<rparr>)" and w: "sh w = sh (wld s)" "script w = []"
    using retries_refused [OF assms(3,5,7) assms(2), of backoff 0 now e E b] assms(11) by auto
  have good: "good_world E w" using assms(1) w by (simp add: good_world_def quiet_def)
  have row: "row_of (rows (sh w)) ?i = Some x" using assms(8) w(1) by simp
  define w' where "w' = w\<lparr>sh := (sh w)\<lparr>rows := update_where (\<lambda>a. ID a = ?i) (?upd (clock w)) (rows (sh w))\<rparr>\<rparr>"
  have "pg_SetProcessingStatus E ?i ProcessingStatusFailed w = (Inr (), w')"
    using pg_exec_answered [OF good w(2) row, of ?upd]
    by (simp add: pg_SetProcessingStatus_def w'_def processing_status_enum_def)
  then have failed: "UploadFailed (world_processor E b) ev w = w'" by (simp add: UploadFailed_def)
  have "accept w' (s\<lparr>wld := w\<rparr>) = s\<lparr>wld := w'\<rparr>"
    using accept_silent [of "s\<lparr>wld := w\<rparr>" w'] assms(2) by (simp add: w'_def)
  then have dead: "give_up E b f (s\<lparr>wld := w\<rparr>) = s\<lparr>wld := w'\<rparr>"
    using failed assms(5,7) by (simp add: give_up_def queue_dead_def dead_upload_def flight_delivery_def deployed_handlers_def)
  have "process ctx backoff (queue_handler (deployed_handlers E b) (fQueue f))
      (queue_dead (deployed_handlers E b) (fQueue f)) (flight_delivery f) s = snd (dNack (flight_delivery f) False (s\<lparr>wld := w'\<rparr>))"
    using run dead assms(3) by (simp add: process_def give_up_def alone_def)
  also have "\<dots> = s\<lparr>wld := w', unacked := remove1 f (unacked s),
      brk := (brk s)\<lparr>contents := contents (brk s) @ [(QueueDead, fMsg f)]\<rparr>\<rparr>"
    using assms(4-6) topology_brokerD(2) [OF assms(2), of QueueUpload] by (simp add: flight_delivery_def)
  moreover have "row_of (rows (sh w')) ?i = Some (?upd (clock w) x)"
    using row_of_update_where [OF good_worldD(4) [OF good] row, of "?upd (clock w)" "\<lambda>_. True"] by (simp add: w'_def)
  moreover have "objects b (sh w') = objects b (sh (wld s))" using w(1) by (simp add: w'_def objects_def)
  ultimately show ?thesis using assms(9) by (simp add: Let_def live_def)
qed

subsection \<open>Concrete runs\<close>

lemma alone_lone_ctx: "alone lone_ctx"
  by (simp add: alone_def lone_ctx_def)

theorem worker_drains_witness:
  "\<exists>s m. reaches plain_env ''b'' s \<and> ready (brk s) = [(QueueUpload, m)] \<and>
     (\<exists>s'. (dstep plain_env ''b'')\<^sup>*\<^sup>* s s' \<and> unacked s' = [] \<and> ready (brk s') = [])"
proof -
  obtain s m where s: "reaches plain_env ''b'' s" "contents (brk s) = [(QueueUpload, m)]" "unacked s = []"
    by (rule sample_uploaded)
  have "ready (brk s) = [(QueueUpload, m)]" using s(2) by (simp add: ready_def)
  with s worker_drains [OF plain_env_ok s(1,3) alone_lone_ctx, of defaultBackoff] show ?thesis
    unfolding Let_def by blast
qed

theorem uploads_get_processed_witness:
  "\<exists>s m a. reaches plain_env ''b'' s \<and> sent (sh (wld s)) = [m] \<and>
     row_of (rows (sh (wld s))) (mId m) = Some a \<and> ProcessingStatus a = ProcessingStatusPending \<and>
     ackd (drain lone_ctx defaultBackoff plain_env ''b'' (ready (brk s)) s) = [(QueueUpload, m)]"
proof -
  obtain s m where s: "reaches plain_env ''b'' s" "sent (sh (wld s)) = [m]" "mKey m = QueueUpload"
    "contents (brk s) = [(QueueUpload, m)]" "unacked s = []" "stale s = []" "ackd s = []" "script (wld s) = []"
    "buckets (sh (wld s)) ''b'' \<noteq> None"
    and row: "\<exists>y. row_of (rows (sh (wld s))) (mId m) = Some y \<and> live y \<and> ProcessingStatus y = ProcessingStatusPending"
    by (rule sample_uploaded)
  have "ready (brk s) = [(QueueUpload, m)]" using s(4) by (simp add: ready_def)
  then have "mset (ackd (drain lone_ctx defaultBackoff plain_env ''b'' (ready (brk s)) s)) = {#(QueueUpload, m)#}"
    using uploads_get_processed [OF plain_env_ok s(1,5,6) alone_lone_ctx s(8,9), of defaultBackoff] s(7)
    unfolding Let_def by simp
  with s(1,2) row show ?thesis by auto
qed

text \<open>A completed avatar whose event is delivered again.\<close>

definition completed_row :: avatar where
  "completed_row = (sample_row ''a1'' 3 None)\<lparr>ProcessingStatus := ProcessingStatusCompleted,
     Thumbnails := thumb_keys ''a1'' ThumbnailSizes\<rparr>"

definition redelivered :: deployment where
  "redelivered = sample_deployment\<lparr>
     wld := sample_world [completed_row] Map.empty (replicate 4 (refused 60 (NetMsg ''timeout''))),
     unacked := [\<lparr>fTag = 0, fQueue = QueueUpload, fMsg = upload_message sample_env (upload_event completed_row)\<rparr>]\<rparr>"

theorem outage_fails_completed_witness:
  "\<exists>y. row_of (rows (sh (wld (process lone_ctx defaultBackoff (queue_handler (deployed_handlers sample_env ''b'') QueueUpload)
      (queue_dead (deployed_handlers sample_env ''b'') QueueUpload) (flight_delivery (hd (unacked redelivered))) redelivered)))) ''a1'' = Some y \<and>
    ProcessingStatus y = ProcessingStatusFailed \<and> Thumbnails y = thumb_keys ''a1'' ThumbnailSizes"
proof -
  let ?f = "hd (unacked redelivered)" and ?ev = "upload_event completed_row"
  have f: "?f \<in> set (unacked redelivered)" "fQueue ?f = QueueUpload" "mKey (fMsg ?f) = QueueUpload"
    by (simp_all add: redelivered_def upload_message_def)
  have ids: "upAvatarID ?ev = ''a1''" "upUserID ?ev = ''ann''" "upS3Key ?ev = OriginalKey ''a1''"
    by (simp_all add: upload_event_def completed_row_def sample_row_def)
  have "valid_utf8 ''a1''" "valid_utf8 ''ann''" "valid_utf8 (OriginalKey ''a1'')"
    by (auto simp: OriginalKey_def intro!: valid_utf8_ascii)
  then have dec: "unmarshal_upload (Some (mBody (fMsg ?f))) = Inr ?ev"
    using ids by (simp add: redelivered_def upload_message_def upload_roundtrip_clean)
  have "Declare broker_channel no_broker = (fst (Declare broker_channel no_broker), brk redelivered)"
    by (simp add: redelivered_def sample_deployment_def)
  then have top: "topology_broker (brk redelivered)" using fresh_topology by blast
  have w: "wld redelivered = sample_world [completed_row] Map.empty (replicate 4 (refused 60 (NetMsg ''timeout'')))"
    by (simp add: redelivered_def)
  have ok: "row_ok sample_env completed_row"
    using sample_row_ok [of "''a1''" 3 None] by (simp add: completed_row_def row_ok_def processing_status_enum_def)
  have good: "good_world sample_env (wld redelivered)"
    using ok unfolding w by (simp add: good_world_def table_ok_def quiet_def refused_def list_all_iff)
  have row: "row_of (rows (sh (wld redelivered))) (upAvatarID ?ev) = Some completed_row"
    unfolding w ids by (simp add: row_of_def completed_row_def)
  have st: "live completed_row" "ProcessingStatus completed_row = ProcessingStatusCompleted"
    "Thumbnails completed_row = thumb_keys ''a1'' ThumbnailSizes" by (simp_all add: completed_row_def live_def)
  have script: "script (wld redelivered) = replicate (Suc (length defaultBackoff)) (refused 60 (NetMsg ''timeout''))"
    unfolding w by (simp add: defaultBackoff_def numeral_eq_Suc)
  from outage_fails_completed [OF good top alone_lone_ctx f dec row st(1,2) script, where b = "''b''"] show ?thesis
    unfolding Let_def f(2) ids(1) st(3) by blast
qed

end
