(* ===== verification/Shutdown.thy ===== *)
theory Shutdown
  imports Consumer "HOL-Library.Multiset"
begin

section \<open>The goroutines of Run with their deliveries\<close>

text \<open>
  \<open>run_step\<close> of theory Consumer treats a loop as running or returned. Here each loop works on
  its deliveries, in the small steps that matter when a shutdown or the loss of the
  connection falls between them: taking a delivery off the channel, a call of the handler,
  the wait before the next attempt, the verdict, the settlement. The broker's side is the
  queues, the deliveries not yet settled, and what was acknowledged or dead-lettered. It is
  shown that these steps are steps of \<open>run_step\<close> for the goroutines, that no message is lost
  or acknowledged without success whenever the shutdown comes, and that it comes to an end.
\<close>

subsection \<open>The state\<close>

datatype queue = Uploads | Deletes

text \<open>
  The phases of \<^verbatim>\<open>process\<close>: the attempt with its number is being made, the wait after it, all
  attempts have failed, the settlement is decided and its call is next.
\<close>

datatype phase = Attempting nat | Waiting nat | Failed | Decided settlement

record run_state =
  grp :: group
  fetched :: "queue \<Rightarrow> nat list"
  current :: "queue \<Rightarrow> (nat \<times> phase) option"
  waiting :: "queue \<Rightarrow> nat list"
  held :: "queue \<Rightarrow> nat list"
  acked :: "queue \<Rightarrow> nat list"
  buried :: "queue \<Rightarrow> nat list"
  accepted :: "queue \<Rightarrow> nat list"
  successes :: "queue \<Rightarrow> nat list"
  failures :: "queue \<Rightarrow> nat list"

definition loop_of :: "queue \<Rightarrow> group \<Rightarrow> goroutine" where
  "loop_of q g = (case q of Uploads \<Rightarrow> upLoop g | Deletes \<Rightarrow> delLoop g)"

definition loop_ends :: "queue \<Rightarrow> go_error option \<Rightarrow> group \<Rightarrow> group" where
  "loop_ends q e g = note_error e (case q of Uploads \<Rightarrow> g\<lparr>upLoop := Returned e\<rparr> | Deletes \<Rightarrow> g\<lparr>delLoop := Returned e\<rparr>)"

definition run_starts :: run_state where
  "run_starts = \<lparr>grp = started, fetched = (\<lambda>_. []), current = (\<lambda>_. None), waiting = (\<lambda>_. []), held = (\<lambda>_. []),
     acked = (\<lambda>_. []), buried = (\<lambda>_. []), accepted = (\<lambda>_. []), successes = (\<lambda>_. []), failures = (\<lambda>_. [])\<rparr>"

text \<open>The connection is gone: the broker puts what was not settled back into its queue.\<close>

definition cut :: "run_state \<Rightarrow> run_state" where
  "cut s = s\<lparr>grp := (grp s)\<lparr>connClosed := True\<rparr>, waiting := (\<lambda>q. waiting s q @ held s q), held := (\<lambda>_. [])\<rparr>"

definition now_at :: "queue \<Rightarrow> (nat \<times> phase) option \<Rightarrow> run_state \<Rightarrow> run_state" where
  "now_at q j s = s\<lparr>current := (current s)(q := j)\<rparr>"

text \<open>\<^verbatim>\<open>Ack\<close> and \<^verbatim>\<open>Nack\<close> reach the broker over the connection or fail.\<close>

definition settle :: "queue \<Rightarrow> nat \<Rightarrow> settlement \<Rightarrow> run_state \<Rightarrow> run_state" where
  "settle q x v s = (if connClosed (grp s) then s else (let
     s1 = s\<lparr>held := (held s)(q := remove1 x (held s q))\<rparr> in
     (case v of
        Acked \<Rightarrow> s1\<lparr>acked := (acked s)(q := acked s q @ [x])\<rparr>
      | Requeued \<Rightarrow> s1\<lparr>waiting := (waiting s)(q := waiting s q @ [x])\<rparr>
      | DeadLettered \<Rightarrow> s1\<lparr>buried := (buried s)(q := buried s q @ [x])\<rparr>)))"

subsection \<open>The steps\<close>

text \<open>
  What happens around the worker: a shutdown is asked for, the connection dies, a message
  is accepted, the broker delivers one to the channel, at most \<^verbatim>\<open>prefetch\<close> of them unsettled.
\<close>

inductive outer_step :: "nat \<Rightarrow> run_state \<Rightarrow> run_state \<Rightarrow> bool" for prefetch where
  cancels: "outer_step prefetch s (s\<lparr>grp := (grp s)\<lparr>parentDone := True\<rparr>\<rparr>)"
| dies: "outer_step prefetch s (cut s)"
| arrives: "outer_step prefetch s (s\<lparr>accepted := (accepted s)(q := accepted s q @ [x]),
    waiting := (waiting s)(q := waiting s q @ [x])\<rparr>)"
| delivers: "waiting s q = xs @ x # ys \<Longrightarrow> \<not> connClosed (grp s) \<Longrightarrow> length (held s q) < prefetch \<Longrightarrow>
    outer_step prefetch s (s\<lparr>waiting := (waiting s)(q := xs @ ys), held := (held s)(q := held s q @ [x]),
      fetched := (fetched s)(q := fetched s q @ [x])\<rparr>)"

text \<open>
  The goroutines. The loop may take a buffered delivery although its context is done, as
  \<^verbatim>\<open>select\<close> prefers no case; \<open>retries\<close> is the number of back-off entries.
\<close>

inductive inner_step :: "nat \<Rightarrow> run_state \<Rightarrow> run_state \<Rightarrow> bool" for retries where
  takes: "loop_of q (grp s) = Running \<Longrightarrow> current s q = None \<Longrightarrow> fetched s q = x # xs \<Longrightarrow>
    inner_step retries s (now_at q (Some (x, Attempting 0)) (s\<lparr>fetched := (fetched s)(q := xs)\<rparr>))"
| succeeds: "current s q = Some (x, Attempting i) \<Longrightarrow>
    inner_step retries s (now_at q (Some (x, Decided Acked)) (s\<lparr>successes := (successes s)(q := successes s q @ [x])\<rparr>))"
| fails: "current s q = Some (x, Attempting i) \<Longrightarrow>
    inner_step retries s (now_at q (Some (x, if retries \<le> i \<or> gctxDone (grp s) then Failed else Waiting i))
      (s\<lparr>failures := (failures s)(q := failures s q @ [x])\<rparr>))"
| fires: "current s q = Some (x, Waiting i) \<Longrightarrow> inner_step retries s (now_at q (Some (x, Attempting (Suc i))) s)"
| wakes: "current s q = Some (x, Waiting i) \<Longrightarrow> gctxDone (grp s) \<Longrightarrow> inner_step retries s (now_at q (Some (x, Failed)) s)"
| decides: "current s q = Some (x, Failed) \<Longrightarrow>
    inner_step retries s (now_at q (Some (x, Decided (if gctxDone (grp s) then Requeued else DeadLettered))) s)"
| settles: "current s q = Some (x, Decided v) \<Longrightarrow> inner_step retries s (now_at q None (settle q x v s))"
| ends: "loop_of q (grp s) = Running \<Longrightarrow> current s q = None \<Longrightarrow> loop_return (grp s) e \<Longrightarrow>
    inner_step retries s (s\<lparr>grp := loop_ends q e (grp s)\<rparr>)"
| closes: "closer (grp s) = Running \<Longrightarrow> gctxDone (grp s) \<Longrightarrow> (connClosed (grp s) \<Longrightarrow> e = Some ErrAmqpClosed) \<Longrightarrow>
    inner_step retries s (cut (s\<lparr>grp := note_error e ((grp s)\<lparr>closer := Returned e, connClosed := True\<rparr>)\<rparr>))"

definition worker_step :: "nat \<Rightarrow> nat \<Rightarrow> run_state \<Rightarrow> run_state \<Rightarrow> bool" where
  "worker_step prefetch retries s s' \<longleftrightarrow> outer_step prefetch s s' \<or> inner_step retries s s'"

lemmas run_updates = cut_def now_at_def settle_def loop_ends_def note_error_def loop_of_def gctxDone_def

text \<open>For the goroutines these are steps of Run, or none.\<close>

lemma step_run_step: "worker_step prefetch retries s s' \<Longrightarrow> run_step (grp s) (grp s') \<or> grp s' = grp s"
  unfolding worker_step_def
proof (elim disjE)
  assume "outer_step prefetch s s'"
  then show ?thesis by (cases rule: outer_step.cases) (auto simp: cut_def intro: run_step.intros)
next
  assume "inner_step retries s s'"
  then show ?thesis
  proof (cases rule: inner_step.cases)
    case (ends q e)
    then show ?thesis by (cases q) (auto simp: loop_of_def loop_ends_def intro: run_step.intros)
  next
    case (closes e)
    then have "grp s' = note_error e ((grp s)\<lparr>closer := Returned e, connClosed := True\<rparr>)"
      by (simp add: cut_def note_error_def)
    with closes(2-) show ?thesis by (auto intro: run_step.intros)
  qed (auto simp: now_at_def settle_def Let_def split: settlement.splits)
qed

lemma steps_run: "(worker_step prefetch retries)\<^sup>*\<^sup>* run_starts s \<Longrightarrow> run_step\<^sup>*\<^sup>* started (grp s)"
proof (induction rule: rtranclp_induct)
  case (step t u)
  then show ?case using step_run_step by (metis rtranclp.rtrancl_into_rtrancl)
qed (simp add: run_starts_def)

subsection \<open>Where the messages are\<close>

definition phase_ok :: "nat \<Rightarrow> run_state \<Rightarrow> queue \<Rightarrow> nat \<Rightarrow> phase \<Rightarrow> bool" where
  "phase_ok retries s q x ph = (case ph of
     Attempting i \<Rightarrow> i \<le> retries \<and> i \<le> count_list (failures s q) x
   | Waiting i \<Rightarrow> i < retries \<and> Suc i \<le> count_list (failures s q) x
   | Failed \<Rightarrow> gctxDone (grp s) \<or> Suc retries \<le> count_list (failures s q) x
   | Decided v \<Rightarrow> (v = Acked \<longrightarrow> x \<in> set (successes s q)) \<and> (v = DeadLettered \<longrightarrow> Suc retries \<le> count_list (failures s q) x))"

definition in_hand :: "run_state \<Rightarrow> queue \<Rightarrow> nat multiset" where
  "in_hand s q = mset (fetched s q) + (case current s q of None \<Rightarrow> {#} | Some (x, _) \<Rightarrow> {#x#})"

text \<open>
  Each message is in one place; what the worker has in hand is what the broker holds for it,
  until the connection is gone; only a success leads to an acknowledgement, only exhausted
  retries to the dead queue.
\<close>

definition lane_ok :: "nat \<Rightarrow> nat \<Rightarrow> run_state \<Rightarrow> queue \<Rightarrow> bool" where
  "lane_ok prefetch retries s q \<longleftrightarrow>
     mset (accepted s q) = mset (waiting s q) + mset (held s q) + mset (acked s q) + mset (buried s q) \<and>
     (if connClosed (grp s) then held s q = [] else mset (held s q) = in_hand s q) \<and>
     length (held s q) \<le> prefetch \<and> set (acked s q) \<subseteq> set (successes s q) \<and>
     (\<forall>x \<in> set (buried s q). Suc retries \<le> count_list (failures s q) x) \<and>
     (\<forall>x ph. current s q = Some (x, ph) \<longrightarrow> phase_ok retries s q x ph)"

definition run_ok :: "nat \<Rightarrow> nat \<Rightarrow> run_state \<Rightarrow> bool" where
  "run_ok prefetch retries s \<longleftrightarrow> (\<forall>q. lane_ok prefetch retries s q) \<and> (closer (grp s) \<noteq> Running \<longrightarrow> connClosed (grp s))"

lemma run_ok_starts: "run_ok prefetch retries run_starts"
  by (simp add: run_ok_def lane_ok_def in_hand_def run_starts_def started_def)

text \<open>A lane that a step leaves alone, while the group goes on.\<close>

lemma lane_ok_frame:
  assumes "lane_ok prefetch retries s q" and "connClosed (grp s') = connClosed (grp s)" "gctxDone (grp s) \<Longrightarrow> gctxDone (grp s')"
    and "accepted s' q = accepted s q" "waiting s' q = waiting s q" "held s' q = held s q" "acked s' q = acked s q"
      "buried s' q = buried s q" "fetched s' q = fetched s q" "current s' q = current s q"
      "successes s' q = successes s q" "failures s' q = failures s q"
  shows "lane_ok prefetch retries s' q"
  using assms by (auto simp: lane_ok_def in_hand_def phase_ok_def split: phase.splits)

lemma lane_ok_cut:
  assumes "lane_ok prefetch retries s q" and "gctxDone (grp s) \<Longrightarrow> gctxDone g" "connClosed g"
  shows "lane_ok prefetch retries (s\<lparr>grp := g, waiting := (\<lambda>q. waiting s q @ held s q), held := (\<lambda>_. [])\<rparr>) q"
  using assms by (auto simp: lane_ok_def phase_ok_def split: phase.splits)

lemma gctxDone_mono [simp]:
  "gctxDone (g\<lparr>connClosed := c\<rparr>) = gctxDone g" "gctxDone g \<Longrightarrow> gctxDone (g\<lparr>parentDone := True\<rparr>)"
  "gctxDone g \<Longrightarrow> gctxDone (note_error e (g\<lparr>closer := r, connClosed := c\<rparr>))" "gctxDone g \<Longrightarrow> gctxDone (loop_ends q e g)"
  by (auto simp: gctxDone_def note_error_def loop_ends_def split: option.splits queue.splits)

lemma outer_step_ok:
  assumes "outer_step prefetch s s'" and "run_ok prefetch retries s"
  shows "run_ok prefetch retries s'"
proof -
  have lanes: "lane_ok prefetch retries s q" for q using assms(2) by (simp add: run_ok_def)
  have closer: "closer (grp s) \<noteq> Running \<longrightarrow> connClosed (grp s)" using assms(2) by (simp add: run_ok_def)
  from assms(1) show ?thesis
  proof cases
    case cancels
    have "lane_ok prefetch retries s' q" for q
      unfolding cancels by (rule lane_ok_frame [OF lanes]) simp_all
    with closer cancels show ?thesis by (simp add: run_ok_def)
  next
    case dies
    with lane_ok_cut [OF lanes, of "(grp s)\<lparr>connClosed := True\<rparr>"] show ?thesis by (simp add: run_ok_def cut_def)
  next
    case (arrives q x)
    have "lane_ok prefetch retries s' q'" for q'
      using lanes [of q'] unfolding arrives by (auto simp: lane_ok_def in_hand_def phase_ok_def split: phase.splits)
    with closer arrives show ?thesis by (simp add: run_ok_def)
  next
    case (delivers q xs x ys)
    have "lane_ok prefetch retries s' q'" for q'
      using lanes [of q'] delivers(2-) unfolding delivers(1)
      by (auto simp: lane_ok_def in_hand_def phase_ok_def split: phase.splits)
    with closer delivers show ?thesis by (simp add: run_ok_def)
  qed
qed

text \<open>A step of the goroutine of one queue, with the group as it is.\<close>

lemma run_ok_lane:
  assumes "run_ok prefetch retries s" and "grp s' = grp s" and "lane_ok prefetch retries s' q"
    and "\<And>r. r \<noteq> q \<Longrightarrow> accepted s' r = accepted s r \<and> waiting s' r = waiting s r \<and> held s' r = held s r \<and>
      acked s' r = acked s r \<and> buried s' r = buried s r \<and> fetched s' r = fetched s r \<and> current s' r = current s r \<and>
      successes s' r = successes s r \<and> failures s' r = failures s r"
  shows "run_ok prefetch retries s'"
proof -
  have "lane_ok prefetch retries s' r" for r
  proof (cases "r = q")
    case False
    have "lane_ok prefetch retries s r" using assms(1) by (simp add: run_ok_def)
    then show ?thesis by (rule lane_ok_frame) (simp_all add: assms(2) assms(4) [OF False])
  qed (simp add: assms(3))
  with assms(1,2) show ?thesis by (simp add: run_ok_def)
qed

lemma settle_ok:
  assumes "lane_ok prefetch retries s q" and "current s q = Some (x, Decided v)"
  shows "lane_ok prefetch retries (now_at q None (settle q x v s)) q"
proof (cases "connClosed (grp s)")
  case True
  with assms show ?thesis by (simp add: lane_ok_def settle_def now_at_def)
next
  case False
  have held: "mset (held s q) = add_mset x (mset (fetched s q))"
    and ok: "phase_ok retries s q x (Decided v)" using assms False by (simp_all add: lane_ok_def in_hand_def)
  have "length (remove1 x (held s q)) \<le> length (held s q)" by (simp add: length_remove1)
  then have len: "length (remove1 x (held s q)) \<le> prefetch" using assms(1) unfolding lane_ok_def by linarith
  have here: "mset (accepted s q) = mset (waiting s q) + add_mset x (mset (fetched s q)) + mset (acked s q) + mset (buried s q)"
    using assms(1) held by (simp add: lane_ok_def)
  show ?thesis
    using assms False held here ok len
    by (cases v) (auto simp: lane_ok_def in_hand_def phase_ok_def settle_def now_at_def)
qed

lemma inner_step_ok:
  assumes "inner_step retries s s'" and ok: "run_ok prefetch retries s"
  shows "run_ok prefetch retries s'"
proof -
  have lanes: "lane_ok prefetch retries s q" for q using ok by (simp add: run_ok_def)
  have closer: "closer (grp s) \<noteq> Running \<longrightarrow> connClosed (grp s)" using ok by (simp add: run_ok_def)
  note defs = lane_ok_def in_hand_def phase_ok_def now_at_def
  from assms(1) show ?thesis
  proof cases
    case (takes q x xs)
    have "lane_ok prefetch retries s' q" using lanes [of q] takes(2-) unfolding takes(1) by (auto simp: defs)
    then show ?thesis by (rule run_ok_lane [OF ok, rotated]) (simp_all add: takes(1) now_at_def)
  next
    case (succeeds q x i)
    have "lane_ok prefetch retries s' q" using lanes [of q] succeeds(2-) unfolding succeeds(1) by (auto simp: defs)
    then show ?thesis by (rule run_ok_lane [OF ok, rotated]) (simp_all add: succeeds(1) now_at_def)
  next
    case (fails q x i)
    have "lane_ok prefetch retries s' q" using lanes [of q] fails(2-) unfolding fails(1) by (auto simp: defs)
    then show ?thesis by (rule run_ok_lane [OF ok, rotated]) (simp_all add: fails(1) now_at_def)
  next
    case (fires q x i)
    have "lane_ok prefetch retries s' q" using lanes [of q] fires(2-) unfolding fires(1) by (auto simp: defs)
    then show ?thesis by (rule run_ok_lane [OF ok, rotated]) (simp_all add: fires(1) now_at_def)
  next
    case (wakes q x i)
    have "lane_ok prefetch retries s' q" using lanes [of q] wakes(2-) unfolding wakes(1) by (auto simp: defs)
    then show ?thesis by (rule run_ok_lane [OF ok, rotated]) (simp_all add: wakes(1) now_at_def)
  next
    case (decides q x)
    have "lane_ok prefetch retries s' q" using lanes [of q] decides(2-) unfolding decides(1) by (auto simp: defs)
    then show ?thesis by (rule run_ok_lane [OF ok, rotated]) (simp_all add: decides(1) now_at_def)
  next
    case (settles q x v)
    have "lane_ok prefetch retries s' q" unfolding settles(1) by (rule settle_ok [OF lanes settles(2)])
    then show ?thesis
      by (rule run_ok_lane [OF ok, rotated]) (simp_all add: settles(1) now_at_def settle_def Let_def split: settlement.splits)
  next
    case (ends q e)
    have keep: "connClosed (loop_ends q e (grp s)) = connClosed (grp s)" "closer (loop_ends q e (grp s)) = closer (grp s)"
      by (simp_all add: loop_ends_def note_error_def split: queue.splits)
    have "lane_ok prefetch retries s' r" for r
      unfolding ends(1) by (rule lane_ok_frame [OF lanes]) (simp_all add: keep)
    with closer keep show ?thesis by (simp add: run_ok_def ends(1))
  next
    case (closes e)
    let ?g = "note_error e ((grp s)\<lparr>closer := Returned e, connClosed := True\<rparr>)"
    have "lane_ok prefetch retries s' r" for r
      unfolding closes(1) cut_def using lane_ok_cut [OF lanes [of r], of "?g\<lparr>connClosed := True\<rparr>"] by simp
    then show ?thesis by (simp add: run_ok_def closes(1) cut_def)
  qed
qed

lemma run_ok_reachable: "(worker_step prefetch retries)\<^sup>*\<^sup>* run_starts s \<Longrightarrow> run_ok prefetch retries s"
proof (induction rule: rtranclp_induct)
  case (step t u)
  then show ?case using outer_step_ok inner_step_ok unfolding worker_step_def by blast
qed (rule run_ok_starts)

text \<open>A goroutine that has returned works on nothing.\<close>

lemma idle_step:
  assumes "worker_step prefetch retries s s'" and "\<And>q. loop_of q (grp s) \<noteq> Running \<Longrightarrow> current s q = None"
  shows "loop_of q (grp s') \<noteq> Running \<Longrightarrow> current s' q = None"
proof -
  have same: "loop_of q (g\<lparr>parentDone := b\<rparr>) = loop_of q g" "loop_of q (g\<lparr>connClosed := b\<rparr>) = loop_of q g"
    "loop_of q (note_error e (g\<lparr>closer := r, connClosed := b\<rparr>)) = loop_of q g" for q g b e r
    by (simp_all add: loop_of_def note_error_def split: queue.splits)
  have ended: "loop_of q (loop_ends q' e g) = (if q = q' then Returned e else loop_of q g)" for q q' e g
    by (cases q; cases q') (simp_all add: loop_of_def loop_ends_def note_error_def)
  have idle: "\<forall>q. loop_of q (grp s) \<noteq> Running \<longrightarrow> current s q = None" using assms(2) by blast
  have "outer_step prefetch s s' \<Longrightarrow> loop_of q (grp s') \<noteq> Running \<longrightarrow> current s' q = None"
    using idle by (elim outer_step.cases) (auto simp: same cut_def)
  moreover have "inner_step retries s s' \<Longrightarrow> loop_of q (grp s') \<noteq> Running \<longrightarrow> current s' q = None"
    using idle by (elim inner_step.cases)
      (auto simp: same ended cut_def now_at_def settle_def Let_def split: if_splits settlement.splits)
  ultimately show "loop_of q (grp s') \<noteq> Running \<Longrightarrow> current s' q = None"
    using assms(1) unfolding worker_step_def by blast
qed

lemma idle_reachable:
  "(worker_step prefetch retries)\<^sup>*\<^sup>* run_starts s \<Longrightarrow> loop_of q (grp s) \<noteq> Running \<Longrightarrow> current s q = None"
proof (induction arbitrary: q rule: rtranclp_induct)
  case (step t u)
  then show ?case using idle_step by blast
qed (simp add: run_starts_def started_def loop_of_def split: queue.splits)

subsection \<open>Properties\<close>

text \<open>
  C26: no message is lost in a shutdown, and none is settled wrongly. In every interleaving of
  the two loops with their deliveries, the closer, the broker, a cancelling parent and a dying
  connection, which is also a run of the goroutines of Run: when Run returns, no handler is
  at work, and every message accepted so far is, exactly once, in its queue, acknowledged or
  in the dead queue; it was acknowledged only after its handler succeeded, and dead-lettered
  only after the handler failed once and then in every retry, never because of the shutdown.
\<close>

theorem shutdown_loses_nothing:
  assumes "(worker_step prefetch retries)\<^sup>*\<^sup>* run_starts s" and "waited (grp s)"
  shows "run_step\<^sup>*\<^sup>* started (grp s) \<and> (\<forall>q. current s q = None \<and>
    mset (accepted s q) = mset (waiting s q) + mset (acked s q) + mset (buried s q) \<and>
    set (acked s q) \<subseteq> set (successes s q) \<and>
    (\<forall>x \<in> set (buried s q). Suc retries \<le> count_list (failures s q) x))"
proof -
  have ok: "lane_ok prefetch retries s q" and closed: "connClosed (grp s)" for q
    using run_ok_reachable [OF assms(1)] assms(2) by (simp_all add: run_ok_def waited_def)
  have idle: "current s q = None" for q
    by (rule idle_reachable [OF assms(1)]) (use assms(2) in \<open>simp add: waited_def loop_of_def split: queue.splits\<close>)
  show ?thesis
    using steps_run [OF assms(1)] idle ok closed unfolding lane_ok_def by simp
qed

text \<open>What a worker still has to do once its context is done.\<close>

definition phase_left :: "(nat \<times> phase) option \<Rightarrow> nat" where
  "phase_left j = (case j of None \<Rightarrow> 0 | Some (_, ph) \<Rightarrow>
     (case ph of Waiting _ \<Rightarrow> 4 | Attempting _ \<Rightarrow> 3 | Failed \<Rightarrow> 2 | Decided _ \<Rightarrow> 1))"

definition lane_left :: "run_state \<Rightarrow> queue \<Rightarrow> nat" where
  "lane_left s q = 4 * length (fetched s q) + phase_left (current s q) + (if loop_of q (grp s) = Running then 1 else 0)"

definition work_left :: "run_state \<Rightarrow> nat" where
  "work_left s = lane_left s Uploads + lane_left s Deletes + (if closer (grp s) = Running then 1 else 0)"


lemma now_at_sel [simp]:
  "current (now_at q j s) r = (if r = q then j else current s r)" "grp (now_at q j s) = grp s" "fetched (now_at q j s) = fetched s"
  by (simp_all add: now_at_def)

lemma settle_sel [simp]: "current (settle q x v s) = current s" "grp (settle q x v s) = grp s" "fetched (settle q x v s) = fetched s"
  by (simp_all add: settle_def Let_def split: settlement.splits)

lemma cut_sel [simp]: "current (cut s) = current s" "fetched (cut s) = fetched s" "grp (cut s) = (grp s)\<lparr>connClosed := True\<rparr>"
  by (simp_all add: cut_def)

lemma loop_ends_sel [simp]:
  "loop_of q (loop_ends r e g) = (if q = r then Returned e else loop_of q g)"
  "closer (loop_ends r e g) = closer g" "connClosed (loop_ends r e g) = connClosed g"
  by (cases q; cases r; simp add: loop_of_def loop_ends_def note_error_def)
     (simp_all add: loop_ends_def note_error_def split: queue.splits)

lemma work_less:
  assumes "lane_left s' q < lane_left s q" and "\<And>r. r \<noteq> q \<Longrightarrow> lane_left s' r = lane_left s r" and "closer (grp s') = closer (grp s)"
  shows "work_left s' < work_left s"
  using assms(1,3) assms(2) [of Uploads] assms(2) [of Deletes] by (cases q) (simp_all add: work_left_def)

lemma inner_step_less:
  assumes "inner_step retries s s'" and "gctxDone (grp s)"
  shows "gctxDone (grp s') \<and> work_left s' < work_left s"
  using assms
proof cases
  case (closes e)
  then show ?thesis
    by (simp add: work_left_def lane_left_def loop_of_def note_error_def gctxDone_def split: queue.splits option.splits)
qed (use assms(2) in \<open>simp; intro conjI work_less; simp add: lane_left_def phase_left_def\<close>)+

lemma outer_step_left:
  assumes "outer_step prefetch s s'" and "connClosed (grp s)"
  shows "connClosed (grp s') \<and> work_left s' = work_left s \<and> (gctxDone (grp s) \<longrightarrow> gctxDone (grp s'))"
  using assms by (elim outer_step.cases) (auto simp: work_left_def lane_left_def loop_of_def)

text \<open>Whatever a goroutine waits for then, it gets.\<close>

lemma inner_step_enabled:
  assumes "gctxDone (grp s)" and "\<not> waited (grp s)"
  shows "\<exists>s'. inner_step retries s s'"
proof (cases "closer (grp s) = Running")
  case True
  then show ?thesis using assms(1) closes [of s "Some ErrAmqpClosed"] by blast
next
  case False
  then obtain q where q: "loop_of q (grp s) = Running"
    using assms(2) by (auto simp: waited_def loop_of_def split: queue.splits) (metis queue.simps(3,4))+
  show ?thesis
  proof (cases "current s q")
    case None
    with q assms(1) show ?thesis using ends loop_return.ctx_done by blast
  next
    case (Some j)
    obtain x ph where "j = (x, ph)" by (cases j)
    with Some show ?thesis by (cases ph) (blast intro: inner_step.intros)+
  qed
qed

lemma shutdown_ends:
  assumes "gctxDone (grp s)"
  shows "\<exists>s'. (inner_step retries)\<^sup>*\<^sup>* s s' \<and> waited (grp s')"
  using assms
proof (induction "work_left s" arbitrary: s rule: less_induct)
  case less
  show ?case
  proof (cases "waited (grp s)")
    case False
    then obtain s1 where s1: "inner_step retries s s1" using inner_step_enabled [OF less.prems] by blast
    from less.hyps [OF _ conjunct1] inner_step_less [OF s1 less.prems] obtain s' where
      "(inner_step retries)\<^sup>*\<^sup>* s1 s'" "waited (grp s')" by blast
    with s1 show ?thesis by (meson converse_rtranclp_into_rtranclp)
  qed blast
qed

text \<open>
  C27: a shutdown comes to an end. Once the group's context is done every step of the
  goroutines lowers a bound on the steps that are left; once the connection is closed nothing
  around the worker raises it; and as long as Run has not returned one of the goroutines can
  go on, so that from every such state Run can return by the steps of its goroutines alone,
  provided that the calls of the handlers return.
\<close>

theorem shutdown_completes:
  assumes "gctxDone (grp s)"
  shows "(\<forall>s'. inner_step retries s s' \<longrightarrow> gctxDone (grp s') \<and> work_left s' < work_left s) \<and>
    (connClosed (grp s) \<longrightarrow> (\<forall>s'. outer_step prefetch s s' \<longrightarrow>
       gctxDone (grp s') \<and> connClosed (grp s') \<and> work_left s' = work_left s)) \<and>
    (\<exists>s'. (inner_step retries)\<^sup>*\<^sup>* s s' \<and> waited (grp s'))"
  using inner_step_less outer_step_left shutdown_ends [OF assms] assms by blast

text \<open>
  C28: a shutdown can undo finished work. The closer closes the connection as soon as the
  context is done, and does not wait for the loops: there is an interleaving in which the
  connection is alive until Run closes it and every call of the handler succeeds, Run returns
  no error, and the message is back in its queue, as its acknowledgement came too late.
\<close>

theorem shutdown_redelivers:
  "\<exists>s. (worker_step 1 retries)\<^sup>*\<^sup>* run_starts s \<and> waited (grp s) \<and> closer (grp s) = Returned None \<and>
     Run_result (grp s) = Inr () \<and> successes s Uploads = [x] \<and> failures s Uploads = [] \<and>
     waiting s Uploads = [x] \<and> acked s Uploads = []"
proof -
  let ?go = "\<lambda>s s'. worker_step 1 retries s s'"
  define s1 where "s1 = run_starts\<lparr>accepted := (accepted run_starts)(Uploads := accepted run_starts Uploads @ [x]),
    waiting := (waiting run_starts)(Uploads := waiting run_starts Uploads @ [x])\<rparr>"
  define s2 where "s2 = s1\<lparr>waiting := (waiting s1)(Uploads := [] @ []), held := (held s1)(Uploads := held s1 Uploads @ [x]),
    fetched := (fetched s1)(Uploads := fetched s1 Uploads @ [x])\<rparr>"
  define s3 where "s3 = now_at Uploads (Some (x, Attempting 0)) (s2\<lparr>fetched := (fetched s2)(Uploads := [])\<rparr>)"
  define s4 where "s4 = s3\<lparr>grp := (grp s3)\<lparr>parentDone := True\<rparr>\<rparr>"
  define s5 where "s5 = cut (s4\<lparr>grp := note_error None ((grp s4)\<lparr>closer := Returned None, connClosed := True\<rparr>)\<rparr>)"
  define s6 where "s6 = now_at Uploads (Some (x, Decided Acked)) (s5\<lparr>successes := (successes s5)(Uploads := successes s5 Uploads @ [x])\<rparr>)"
  define s7 where "s7 = now_at Uploads None (settle Uploads x Acked s6)"
  define s8 where "s8 = s7\<lparr>grp := loop_ends Uploads (Some Canceled) (grp s7)\<rparr>"
  define s9 where "s9 = s8\<lparr>grp := loop_ends Deletes (Some Canceled) (grp s8)\<rparr>"
  note states = s9_def s8_def s7_def s6_def s5_def s4_def s3_def s2_def s1_def run_starts_def started_def
    now_at_def cut_def settle_def note_error_def loop_ends_def loop_of_def gctxDone_def
  have "?go run_starts s1" unfolding worker_step_def s1_def by (intro disjI1 arrives)
  moreover have "?go s1 s2" unfolding worker_step_def s2_def
    by (intro disjI1 delivers) (simp_all add: states)
  moreover have "?go s2 s3" unfolding worker_step_def s3_def
    by (intro disjI2 takes) (simp_all add: states)
  moreover have "?go s3 s4" unfolding worker_step_def s4_def by (intro disjI1 cancels)
  moreover have "?go s4 s5" unfolding worker_step_def s5_def
    by (intro disjI2 closes) (simp_all add: states)
  moreover have "?go s5 s6" unfolding worker_step_def s6_def
    by (intro disjI2 succeeds [where i = 0]) (simp add: states)
  moreover have "?go s6 s7" unfolding worker_step_def s7_def
    by (intro disjI2 settles) (simp add: states)
  moreover have "?go s7 s8" unfolding worker_step_def s8_def
    by (intro disjI2 ends loop_return.ctx_done) (simp_all add: states)
  moreover have "?go s8 s9" unfolding worker_step_def s9_def
    by (intro disjI2 ends loop_return.ctx_done) (simp_all add: states)
  ultimately have "?go\<^sup>*\<^sup>* run_starts s9" by (meson rtranclp.rtrancl_refl rtranclp.rtrancl_into_rtrancl)
  moreover have "waited (grp s9)" "closer (grp s9) = Returned None" "Run_result (grp s9) = Inr ()" "successes s9 Uploads = [x]"
    "failures s9 Uploads = []" "waiting s9 Uploads = [x]" "acked s9 Uploads = []"
    by (simp_all add: states waited_def Run_result_def)
  ultimately show ?thesis by blast
qed

subsection \<open>Concrete runs\<close>

theorem shutdown_completes_witness:
  "\<exists>s'. (inner_step 3)\<^sup>*\<^sup>* (run_starts\<lparr>grp := started\<lparr>parentDone := True\<rparr>, fetched := (\<lambda>_. [7, 8])\<rparr>) s' \<and> waited (grp s')"
  using shutdown_completes [where prefetch = 2 and retries = 3 and
      s = "run_starts\<lparr>grp := started\<lparr>parentDone := True\<rparr>, fetched := (\<lambda>_. [7, 8])\<rparr>"]
  by (simp add: gctxDone_def)

theorem shutdown_loses_nothing_witness:
  "\<exists>s. (worker_step 1 3)\<^sup>*\<^sup>* run_starts s \<and> waited (grp s) \<and> set (acked s Uploads) \<subseteq> set (successes s Uploads)"
proof -
  let ?s1 = "run_starts\<lparr>grp := (grp run_starts)\<lparr>parentDone := True\<rparr>\<rparr>"
  have "gctxDone (grp ?s1)" by (simp add: gctxDone_def)
  then obtain s where inner: "(inner_step 3)\<^sup>*\<^sup>* ?s1 s" and w: "waited (grp s)"
    using shutdown_ends by blast
  have "(worker_step 1 3)\<^sup>*\<^sup>* ?s1 s"
    using inner by (rule rtranclp_mono [THEN predicate2D, rotated]) (auto simp: worker_step_def)
  moreover have "worker_step 1 3 run_starts ?s1" unfolding worker_step_def by (intro disjI1 cancels)
  ultimately have reach: "(worker_step 1 3)\<^sup>*\<^sup>* run_starts s" by (metis converse_rtranclp_into_rtranclp)
  from shutdown_loses_nothing [OF this w] reach w show ?thesis by blast
qed

end
