(* ===== verification/Api_Doc.thy ===== *)
theory Api_Doc
  imports Server "HOL-Library.Sublist"
begin

section \<open>The API documentation (docs/docs.go)\<close>

text \<open>
  \<^verbatim>\<open>docTemplate\<close>, the Swagger document that \<^verbatim>\<open>/swagger/*\<close> serves, as data: one definition
  per operation and per schema, put together as in the template, whose fields in braces come
  from \<^verbatim>\<open>SwaggerInfo\<close>. The description of a schema's property is left out. A definition of what the document promises of a request and of an
  answer follows, and the comparison with the handlers behind the router: the documented
  operations are the routes of the API, their documented inputs are all that the handlers
  read, but for the query string of an upload, and the answers conform to the documented responses. Rendering the template and its
  registration are the swag library's.
\<close>

subsection \<open>The document\<close>

text \<open>
  \<open>MapOf None\<close> is an object with \<^verbatim>\<open>additionalProperties: true\<close>, \<open>MapOf (Some t)\<close> one whose
  members all have the schema \<open>t\<close>.
\<close>

datatype schema =
    Ref string
  | TString
  | TInteger
  | TFile
  | TObject "(string \<times> schema) list"
  | TArray schema
  | MapOf "schema option"

record parameter =
  paType :: string
  paEnum :: "string list"
  paDescription :: string
  paName :: string
  paIn :: string
  paRequired :: bool

record response_doc =
  rdDescription :: string
  rdSchema :: "schema option"

record operation =
  opSecurity :: "string list"
  opConsumes :: "string list"
  opProduces :: "string list"
  opTags :: "string list"
  opSummary :: string
  opParameters :: "parameter list"
  opResponses :: "(int \<times> response_doc) list"

record security_scheme =
  ssDescription :: string
  ssType :: string
  ssName :: string
  ssIn :: string

text \<open>The fields of \<^verbatim>\<open>swag.Spec\<close> that a template can name.\<close>

record swag_Info =
  Version :: string
  Host :: string
  BasePath :: string
  Schemes :: "string list"
  Title :: string
  Description :: string
  InfoInstanceName :: string

record document =
  dcSchemes :: "string list"
  dcSwagger :: string
  dcDescription :: string
  dcTitle :: string
  dcVersion :: string
  dcHost :: string
  dcBasePath :: string
  dcPaths :: "((string \<times> string) \<times> operation) list"
  dcDefinitions :: "(string \<times> schema) list"
  dcSecurity :: "(string \<times> security_scheme) list"

record swag_Spec = swag_Info +
  SwaggerTemplate :: "swag_Info \<Rightarrow> document"
  LeftDelim :: string
  RightDelim :: string

abbreviation errorDoc :: "string \<Rightarrow> response_doc" where
  "errorDoc d \<equiv> \<lparr>rdDescription = d, rdSchema = Some (MapOf (Some TString))\<rparr>"

abbreviation path_param :: "string \<Rightarrow> string \<Rightarrow> parameter" where
  "path_param d n \<equiv> \<lparr>paType = ''string'', paEnum = [], paDescription = d, paName = n, paIn = ''path'', paRequired = True\<rparr>"

definition docUpload :: operation where
  "docUpload = \<lparr>opSecurity = [''UserID''], opConsumes = [''multipart/form-data''], opProduces = [''application/json''],
     opTags = [''avatars''], opSummary = ''Upload an avatar'',
     opParameters = [\<lparr>paType = ''file'', paEnum = [], paDescription = ''Image file (jpeg, png, webp), up to 10 MB'',
       paName = ''file'', paIn = ''formData'', paRequired = True\<rparr>],
     opResponses =
       [(201, \<lparr>rdDescription = ''Created'', rdSchema = Some (Ref ''httpserver.uploadResponse'')\<rparr>),
        (400, errorDoc ''Bad Request''),
        (413, \<lparr>rdDescription = ''Request Entity Too Large'', rdSchema = Some (MapOf None)\<rparr>),
        (500, errorDoc ''Internal Server Error'')]\<rparr>"

definition docGetFile :: operation where
  "docGetFile = \<lparr>opSecurity = [], opConsumes = [], opProduces = [''image/jpeg'', ''image/png'', ''image/webp''],
     opTags = [''avatars''], opSummary = ''Download the original file'',
     opParameters = [path_param ''Avatar id'' ''avatarID''],
     opResponses =
       [(200, \<lparr>rdDescription = ''OK'', rdSchema = Some TFile\<rparr>),
        (404, errorDoc ''Not Found'')]\<rparr>"

definition docDelete :: operation where
  "docDelete = \<lparr>opSecurity = [''UserID''], opConsumes = [], opProduces = [''application/json''],
     opTags = [''avatars''], opSummary = ''Delete an avatar'',
     opParameters = [path_param ''Avatar id'' ''avatarID''],
     opResponses =
       [(204, \<lparr>rdDescription = ''deleted'', rdSchema = None\<rparr>),
        (400, errorDoc ''Bad Request''),
        (403, errorDoc ''Forbidden''),
        (404, errorDoc ''Not Found'')]\<rparr>"

definition docMetadata :: operation where
  "docMetadata = \<lparr>opSecurity = [], opConsumes = [], opProduces = [''application/json''],
     opTags = [''avatars''], opSummary = ''Avatar metadata'',
     opParameters = [path_param ''Avatar id'' ''avatarID''],
     opResponses =
       [(200, \<lparr>rdDescription = ''OK'', rdSchema = Some (Ref ''httpserver.metadataResponse'')\<rparr>),
        (404, errorDoc ''Not Found'')]\<rparr>"

definition docThumbnail :: operation where
  "docThumbnail = \<lparr>opSecurity = [], opConsumes = [], opProduces = [''image/jpeg''],
     opTags = [''avatars''], opSummary = ''Download a thumbnail'',
     opParameters =
       [path_param ''Avatar id'' ''avatarID'',
        \<lparr>paType = ''string'', paEnum = [''100x100'', ''300x300''], paDescription = ''Size name'',
          paName = ''size'', paIn = ''path'', paRequired = True\<rparr>],
     opResponses =
       [(200, \<lparr>rdDescription = ''OK'', rdSchema = Some TFile\<rparr>),
        (404, errorDoc ''Not Found'')]\<rparr>"

definition docLatest :: operation where
  "docLatest = \<lparr>opSecurity = [], opConsumes = [], opProduces = [''image/jpeg'', ''image/png'', ''image/webp''],
     opTags = [''users''], opSummary = ''Download the user's latest avatar'',
     opParameters = [path_param ''User id'' ''userID''],
     opResponses =
       [(200, \<lparr>rdDescription = ''OK'', rdSchema = Some TFile\<rparr>),
        (404, errorDoc ''Not Found'')]\<rparr>"

definition docDeleteLatest :: operation where
  "docDeleteLatest = \<lparr>opSecurity = [''UserID''], opConsumes = [], opProduces = [''application/json''],
     opTags = [''users''], opSummary = ''Delete the user's latest avatar'',
     opParameters = [path_param ''User id (must match X-User-ID)'' ''userID''],
     opResponses =
       [(204, \<lparr>rdDescription = ''deleted'', rdSchema = None\<rparr>),
        (400, errorDoc ''Bad Request''),
        (403, errorDoc ''Forbidden''),
        (404, errorDoc ''Not Found'')]\<rparr>"

definition docList :: operation where
  "docList = \<lparr>opSecurity = [], opConsumes = [], opProduces = [''application/json''],
     opTags = [''users''], opSummary = ''List the user's avatars'',
     opParameters = [path_param ''User id'' ''userID''],
     opResponses =
       [(200, \<lparr>rdDescription = ''OK'', rdSchema = Some (TArray (Ref ''httpserver.metadataResponse''))\<rparr>),
        (500, errorDoc ''Internal Server Error'')]\<rparr>"

definition docPaths :: "((string \<times> string) \<times> operation) list" where
  "docPaths =
     [((''POST'', ''/api/v1/avatars''), docUpload),
      ((''GET'', ''/api/v1/avatars/{avatarID}''), docGetFile),
      ((''DELETE'', ''/api/v1/avatars/{avatarID}''), docDelete),
      ((''GET'', ''/api/v1/avatars/{avatarID}/metadata''), docMetadata),
      ((''GET'', ''/api/v1/avatars/{avatarID}/thumbnails/{size}''), docThumbnail),
      ((''GET'', ''/api/v1/users/{userID}/avatar''), docLatest),
      ((''DELETE'', ''/api/v1/users/{userID}/avatar''), docDeleteLatest),
      ((''GET'', ''/api/v1/users/{userID}/avatars''), docList)]"

definition docDimensions :: schema where
  "docDimensions = TObject [(''height'', TInteger), (''width'', TInteger)]"

definition docMetadataResponse :: schema where
  "docMetadataResponse = TObject
     [(''created_at'', TString), (''dimensions'', Ref ''httpserver.dimensions''), (''file_name'', TString),
      (''id'', TString), (''mime_type'', TString), (''size'', TInteger), (''status'', TString),
      (''thumbnails'', TArray (Ref ''httpserver.thumbnail'')), (''updated_at'', TString), (''url'', TString),
      (''user_id'', TString)]"

definition docThumbnailEntry :: schema where
  "docThumbnailEntry = TObject [(''size'', TString), (''url'', TString)]"

definition docUploadResponse :: schema where
  "docUploadResponse = TObject
     [(''created_at'', TString), (''id'', TString), (''status'', TString), (''url'', TString), (''user_id'', TString)]"

definition docDefinitions :: "(string \<times> schema) list" where
  "docDefinitions =
     [(''httpserver.dimensions'', docDimensions),
      (''httpserver.metadataResponse'', docMetadataResponse),
      (''httpserver.thumbnail'', docThumbnailEntry),
      (''httpserver.uploadResponse'', docUploadResponse)]"

definition docSecurity :: "(string \<times> security_scheme) list" where
  "docSecurity = [(''UserID'',
     \<lparr>ssDescription = ''The requester's user id; the MVP trusts it instead of real authentication.'',
       ssType = ''apiKey'', ssName = ''X-User-ID'', ssIn = ''header''\<rparr>)]"

definition docTemplate :: "'a swag_Info_scheme \<Rightarrow> document" where
  "docTemplate info = \<lparr>dcSchemes = Schemes info, dcSwagger = ''2.0'', dcDescription = Description info,
     dcTitle = Title info, dcVersion = Version info, dcHost = Host info, dcBasePath = BasePath info,
     dcPaths = docPaths, dcDefinitions = docDefinitions, dcSecurity = docSecurity\<rparr>"

definition SwaggerInfo :: swag_Spec where
  "SwaggerInfo = \<lparr>Version = ''1.0'', Host = [], BasePath = ''/'', Schemes = [], Title = ''GophProfile API'',
     Description = ''Avatar service: uploads, thumbnails and user galleries.'', InfoInstanceName = ''swagger'',
     SwaggerTemplate = docTemplate, LeftDelim = ''{{'', RightDelim = ''}}''\<rparr>"

text \<open>The package's \<^verbatim>\<open>init\<close>: the registration of the document with the swag library.\<close>

definition docs_init :: "(swag_Spec \<Rightarrow> string) \<Rightarrow> (string \<Rightarrow> swag_Spec \<Rightarrow> 'w \<Rightarrow> 'w) \<Rightarrow> 'w \<Rightarrow> 'w" where
  "docs_init InstanceName Register = Register (InstanceName SwaggerInfo) SwaggerInfo"

abbreviation api_document :: document where
  "api_document \<equiv> docTemplate SwaggerInfo"

subsection \<open>What the document promises\<close>

text \<open>
  A reference is resolved once, as no definition of the document is a reference itself. An
  object has exactly the members its schema names.
\<close>

definition resolve :: "(string \<times> schema) list \<Rightarrow> schema \<Rightarrow> schema option" where
  "resolve defs s = (case s of Ref n \<Rightarrow> map_of defs n | _ \<Rightarrow> Some s)"

fun conforms :: "(string \<times> schema) list \<Rightarrow> json \<Rightarrow> schema \<Rightarrow> bool" where
  "conforms defs (JObj kvs) s = (case resolve defs s of
     Some (TObject props) \<Rightarrow> set (map fst kvs) = set (map fst props) \<and>
       list_all (\<lambda>kv. case map_of props (fst kv) of Some t \<Rightarrow> conforms defs (snd kv) t | None \<Rightarrow> False) kvs
   | Some (MapOf None) \<Rightarrow> True
   | Some (MapOf (Some t)) \<Rightarrow> list_all (\<lambda>kv. conforms defs (snd kv) t) kvs
   | _ \<Rightarrow> False)"
| "conforms defs (JArr js) s = (case resolve defs s of
     Some (TArray t) \<Rightarrow> list_all (\<lambda>j. conforms defs j t) js
   | _ \<Rightarrow> False)"
| "conforms defs (JStr _) s \<longleftrightarrow> resolve defs s = Some TString"
| "conforms defs (JNum _) s \<longleftrightarrow> resolve defs s = Some TInteger"
| "conforms defs _ s \<longleftrightarrow> False"

text \<open>The body of an answer: none, the bytes of a file, or one JSON value.\<close>

definition body_conforms :: "(string \<times> schema) list \<Rightarrow> schema option \<Rightarrow> chunk list \<Rightarrow> bool" where
  "body_conforms defs sc cs = (case sc of
     None \<Rightarrow> cs = []
   | Some TFile \<Rightarrow> list_all (\<lambda>ch. case ch of RawBytes _ \<Rightarrow> True | JsonText _ \<Rightarrow> False) cs
   | Some s \<Rightarrow> (case cs of [JsonText j] \<Rightarrow> conforms defs j s | _ \<Rightarrow> False))"

definition documented :: "document \<Rightarrow> operation \<Rightarrow> response \<Rightarrow> bool" where
  "documented doc op rs = (case map_of (opResponses op) (answer_status rs) of
     Some d \<Rightarrow> body_conforms (dcDefinitions doc) (rdSchema d) (chunks rs)
   | None \<Rightarrow> False)"

subsection \<open>The errors of the service\<close>

text \<open>
  With which status the errors of each method are answered, whatever the stores and the
  other processes do. For Upload the others keep to the history of the table: the row it
  has created is there when its status is set.
\<close>

definition fails_with :: "int set \<Rightarrow> 'a res go \<Rightarrow> bool" where
  "fails_with S out \<longleftrightarrow> (\<exists>r. out = Value r \<and> (\<forall>e. r = Inl e \<longrightarrow> error_status e \<in> S))"

lemma fails_with_value:
  "(\<And>e w'. m w = (Inl e, w') \<Longrightarrow> error_status e \<in> S) \<Longrightarrow> fails_with S (Value (fst (m w)))"
  by (cases "m w") (simp add: fails_with_def)

lemma error_status_Wrapf [simp]: "error_status (Wrapf m e) = error_status e"
  by (simp add: error_status_def)

lemma remote_result:
  assumes "remote act w = (r, w')"
  obtains now s where "r = fst (act now s)" | e where "r = Inl (Net e)"
  using assms by (auto simp: remote_def Let_def split: prod.splits outcome.splits) (metis fst_conv)+

lemma GetByID_status: "pg_GetByID E i w = (Inl e, w') \<Longrightarrow> error_status e \<in> {404, 500}"
  unfolding pg_GetByID_def
  by (auto simp: sql_select_by_id_def bad_literal_def scanAvatar_def error_status_def
      split: prod.splits option.splits sum.splits if_splits elim!: remote_result)

lemma LatestByUser_status: "pg_LatestByUser E uid w = (Inl e, w') \<Longrightarrow> error_status e \<in> {404, 500}"
  unfolding pg_LatestByUser_def
  by (auto simp: sql_latest_by_user_def scanAvatar_def error_status_def
      split: prod.splits list.splits sum.splits if_splits elim!: remote_result)

lemma ListByUser_status: "pg_ListByUser E uid w = (Inl e, w') \<Longrightarrow> error_status e = 500"
  unfolding pg_ListByUser_def
  by (auto simp: sql_list_by_user_def error_status_def split: prod.splits if_splits elim!: remote_result)

lemma Create_status: "pg_Create E n w = (Inl e, w') \<Longrightarrow> error_status e = 500"
  unfolding pg_Create_def
  by (auto simp: sql_insert_def scanAvatar_def error_status_def
      split: prod.splits option.splits sum.splits if_splits elim!: remote_result)

lemma SoftDelete_status: "pg_SoftDelete E i w = (Inl e, w') \<Longrightarrow> error_status e \<in> {404, 500}"
  unfolding pg_SoftDelete_def pg_exec_def
  by (auto simp: sql_update_def bad_literal_def error_status_def Let_def
      split: prod.splits option.splits sum.splits if_splits elim!: remote_result)

lemma Get_status: "s3_Get (world_store b) k w = (Inl e, w') \<Longrightarrow> error_status e \<in> {404, 500}"
  by (auto simp: s3_Get_def world_object_def act_read_def no_bucket_def error_status_def isNoSuchKey_def
      split: prod.splits option.splits sum.splits if_splits elim!: remote_result)

lemma Put_status: "s3_Put (world_store b) k ct d n w = (Inl e, w') \<Longrightarrow> error_status e = 500"
  by (auto simp: s3_Put_def act_put_def no_bucket_def error_status_def
      split: prod.splits option.splits sum.splits if_splits elim!: remote_result)

lemmas store_statuses = GetByID_status LatestByUser_status ListByUser_status Create_status SoftDelete_status
  Get_status Put_status

lemma history_ids:
  assumes "history E s s'" and "i \<in> set (map ID (rows s))"
  shows "i \<in> set (map ID (rows s'))"
proof -
  obtain old new where rs: "rows s' = old @ new" and same: "list_all2 same_record (rows s) old"
    using assms(1) by (auto simp: history_def table_extends_def)
  have "list_all2 (\<lambda>a b. ID a = ID b) (rows s) old"
    using same by (rule list_all2_mono) (simp add: same_record_def)
  then have "map ID old = map ID (rows s)" by (induction rule: list_all2_induct) simp_all
  then have "map ID (rows s') = map ID (rows s) @ map ID new" by (simp add: rs)
  with assms(2) show ?thesis by simp
qed

lemma Create_stored:
  assumes "env_ok E" and "others_keep (history E) w" and "pg_Create E n w = (Inr a, w')"
  shows "others_keep (history E) w' \<and> ID a \<in> set (map ID (rows (sh w'))) \<and> uuid_in E (ID a) = Some (ID a)"
proof -
  have "others_keep (history E) w'"
    using pg_keeps_history(1) [of E n] assms(2,3) by (metis keeps_def upheld_def snd_conv)
  moreover obtain now s where q: "sql_insert E n now s = (Inr a, sh w')"
    using assms(3) by (auto simp: pg_Create_def remote_def scanAvatar_def Let_def
        split: prod.splits outcome.splits sum.splits if_splits)
  have row: "new_row E now n = Some a" "sh w' = s\<lparr>rows := rows s @ [a]\<rparr>"
    using q by (auto simp: sql_insert_def split: option.splits if_splits)
  ultimately show ?thesis
    using new_row_ok [OF assms(1) row(1)] by (simp add: row_ok_def)
qed

lemma Put_keeps_id:
  assumes "s3_Put (world_store b) k ct d n w = (r, w')" and "others_keep (history E) w" and "i \<in> set (map ID (rows (sh w)))"
  shows "others_keep (history E) w' \<and> i \<in> set (map ID (rows (sh w')))"
  using s3_keeps_history(1) [of E b k ct d n] assms history_ids
  unfolding keeps_def upheld_def by (metis snd_conv)

lemma SetUploadStatus_status:
  assumes "others_keep (history E) w" and "i \<in> set (map ID (rows (sh w)))" and "uuid_in E i = Some i"
    and "pg_SetUploadStatus E i st w = (Inl e, w')"
  shows "error_status e = 500"
proof -
  obtain out w1 where t: "take_turn w = (out, w1)" by fastforce
  have "history E (sh w) (sh w1)"
    using t assms(1) history_refl by (auto simp: take_turn_def others_keep_def split: list.splits)
  then have "filter (\<lambda>a. ID a = i) (rows (sh w1)) \<noteq> []"
    using history_ids [OF _ assms(2)] by (fastforce simp: filter_empty_conv)
  then show ?thesis
    using assms(3,4) t unfolding pg_SetUploadStatus_def pg_exec_def
    by (auto simp: remote_def sql_update_def bad_literal_def error_status_def Let_def
        split: prod.splits sum.splits if_splits outcome.splits)
qed

lemma Upload_status:
  assumes "env_ok E" and "others_keep (history E) w" and run: "svc_Upload (world_service E b) uid name data w = (Inl e, w')"
  shows "error_status e = 500"
proof -
  let ?w0 = "w\<lparr>next_id := Suc (next_id w)\<rparr>"
    and ?n = "upload_record (world_service E b) uid name data (uuid_gen E (next_id w))"
  have w0: "others_keep (history E) ?w0" using assms(2) by (simp add: others_keep_def)
  show ?thesis
  proof (cases "pg_Create E ?n ?w0")
    case (Pair rc w1)
    show ?thesis
    proof (cases rc)
      case (Inl e1)
      with run Pair Create_status show ?thesis by (auto simp: svc_Upload_def)
    next
      case (Inr a)
      note row = Create_stored [OF assms(1) w0 Pair [unfolded Inr]]
      obtain rp w2 where put: "s3_Put (world_store b) (S3Key a) (MimeType a) data (SizeBytes a) w1 = (rp, w2)" by fastforce
      have kept: "others_keep (history E) w2" "ID a \<in> set (map ID (rows (sh w2)))"
        using Put_keeps_id [OF put] row by blast+
      have set: "error_status e2 = 500" if "pg_SetUploadStatus E (ID a) st w2 = (Inl e2, w3)" for st e2 w3
        using SetUploadStatus_status [OF kept _ that] row by blast
      show ?thesis
        using run Pair Inr put Put_status [of b] set
        by (auto simp: svc_Upload_def split: sum.splits prod.splits)
    qed
  qed
qed

lemma service_statuses:
  "svc_Metadata (world_service E b) i w = (Inl e, w') \<Longrightarrow> error_status e \<in> {404, 500}"
  "svc_List (world_service E b) uid w = (Inl e, w') \<Longrightarrow> error_status e = 500"
  "svc_GetFile (world_service E b) i w = (Inl e, w') \<Longrightarrow> error_status e \<in> {404, 500}"
  "svc_LatestFile (world_service E b) uid w = (Inl e, w') \<Longrightarrow> error_status e \<in> {404, 500}"
  "svc_ThumbnailFile (world_service E b) i sz w = (Inl e, w') \<Longrightarrow> error_status e \<in> {404, 500}"
  "svc_Delete (world_service E b) i req w = (Inl e, w') \<Longrightarrow> error_status e \<in> {403, 404, 500}"
  "svc_DeleteLatest (world_service E b) uid req w = (Inl e, w') \<Longrightarrow> error_status e \<in> {403, 404, 500}"
proof -
  have 404: "error_status ErrNotFound = 404" "error_status ErrNotOwner = 403" by (simp_all add: error_status_def)
  have original: "openOriginal (world_service E b) a w = (Inl e, w') \<Longrightarrow> error_status e \<in> {404, 500}" for a w
    using Get_status [of b "S3Key a" w] 404 by (auto simp: openOriginal_def split: prod.splits sum.splits if_splits)
  have deletion: "deleteAvatar (world_service E b) a w = (Inl e, w') \<Longrightarrow> error_status e \<in> {404, 500}" for a w
    using SoftDelete_status [of E "ID a" w] by (auto simp: deleteAvatar_def Let_def split: prod.splits sum.splits)
  show "svc_Metadata (world_service E b) i w = (Inl e, w') \<Longrightarrow> error_status e \<in> {404, 500}"
    unfolding svc_Metadata_def using GetByID_status by simp
  show "svc_List (world_service E b) uid w = (Inl e, w') \<Longrightarrow> error_status e = 500"
    unfolding svc_List_def using ListByUser_status by simp
  show "svc_GetFile (world_service E b) i w = (Inl e, w') \<Longrightarrow> error_status e \<in> {404, 500}"
    using original GetByID_status by (fastforce simp: svc_GetFile_def split: prod.splits sum.splits)
  show "svc_LatestFile (world_service E b) uid w = (Inl e, w') \<Longrightarrow> error_status e \<in> {404, 500}"
    using original LatestByUser_status by (fastforce simp: svc_LatestFile_def split: prod.splits sum.splits)
  show "svc_ThumbnailFile (world_service E b) i sz w = (Inl e, w') \<Longrightarrow> error_status e \<in> {404, 500}"
    using GetByID_status Get_status 404
    by (fastforce simp: svc_ThumbnailFile_def split: prod.splits sum.splits option.splits)
  show "svc_Delete (world_service E b) i req w = (Inl e, w') \<Longrightarrow> error_status e \<in> {403, 404, 500}"
    using deletion GetByID_status 404 by (fastforce simp: svc_Delete_def split: prod.splits sum.splits if_splits)
  show "svc_DeleteLatest (world_service E b) uid req w = (Inl e, w') \<Longrightarrow> error_status e \<in> {403, 404, 500}"
    using deletion LatestByUser_status 404
    by (fastforce simp: svc_DeleteLatest_def split: prod.splits sum.splits if_splits)
qed

subsection \<open>Answers that conform\<close>

text \<open>
  An answer is proper if it is documented, or the generic 500 of an operation whose
  documentation names no 500; and a success has a documented content type, but for the
  originals, which are served with the type detected at the upload.
\<close>

definition proper :: "document \<Rightarrow> operation \<Rightarrow> response \<Rightarrow> bool" where
  "proper doc op rs \<longleftrightarrow>
     (documented doc op rs \<or> answer_status rs = 500 \<and> map_of (opResponses op) 500 = None \<and>
        chunks rs = [JsonText (JObj [(''error'', json_string ''internal error'')])]) \<and>
     (answer_status rs \<in> {200, 201} \<and> op \<notin> {docGetFile, docLatest} \<longrightarrow>
        (\<exists>ct \<in> set (opProduces op). answer_header rs ''Content-Type'' = Some ct))"

definition answers_as :: "document \<Rightarrow> operation \<Rightarrow> unit go \<times> 'w conn \<Rightarrow> bool" where
  "answers_as doc op out \<longleftrightarrow> fst out = Value () \<and> proper doc op (cResp (snd out))"

lemma watch_same: "answer_status (watch x rs) = answer_status rs" "chunks (watch x rs) = chunks rs"
    "answer_header (watch x rs) k = answer_header rs k" "blank (watch x rs) = blank rs"
  by (simp_all add: watch_def answer_status_def answer_header_def blank_def split: option.splits)

lemma proper_watch [simp]: "proper doc op (watch x rs) = proper doc op rs"
  by (simp only: proper_def documented_def watch_same)

lemma recovery_answers_as: "answers_as doc op (nxt r c) \<Longrightarrow> answers_as doc op (recovery t nxt r c)"
  by (cases "nxt r c") (auto simp: recovery_def answers_as_def)

lemma NewRouter_answers:
  assumes "\<And>c. blank (cResp c) \<Longrightarrow> cState c = w \<Longrightarrow> answers_as doc op (serve_route l h checks r c)"
  shows "answers_as doc op (NewRouter t l h checks r \<lparr>cState = w, cResp = fresh_response\<rparr>)"
proof -
  have traced: "blank (set_header k v fresh_response)" for k v by (simp add: blank_def set_header_def fresh_response_def)
  have run: "answers_as doc op (serve_route l h checks r \<lparr>cState = w, cResp = rs\<rparr>)" if "blank rs" for rs
    using assms that by simp
  have observed: "answers_as doc op (observability t' (serve_route l h checks) r \<lparr>cState = w, cResp = rs\<rparr>)"
    if "blank rs" for rs t'
    using run [OF that] run [of "watch (Some 200) rs"] that
    by (auto simp: observability_def answer_def watch_same answers_as_def Let_def split: prod.splits go.splits)
  have "answers_as doc op (tracing t' (observability t' (serve_route l h checks)) r \<lparr>cState = w, cResp = fresh_response\<rparr>)" for t'
  proof -
    let ?c = "\<lparr>cState = w, cResp = fresh_response\<rparr>"
    obtain rs where start: "(case spanOf t' r of Some i \<Rightarrow> answer (set_header ''X-Trace-Id'' i) ?c | None \<Rightarrow> ?c) = \<lparr>cState = w, cResp = rs\<rparr>"
      and "blank rs" using traced by (cases "spanOf t' r") (simp_all add: answer_def)
    from observed [OF this(2), of t'] show ?thesis
      unfolding tracing_def start Let_def by (auto simp: answers_as_def split: prod.splits go.splits)
  qed
  then show ?thesis unfolding NewRouter_def Let_def by (rule recovery_answers_as)
qed

text \<open>The bodies.\<close>

lemma conforms_string [simp]: "conforms defs (json_string s) TString"
  by (simp add: json_string_def resolve_def)

lemma conforms_error: "conforms defs (error_body e) (MapOf (Some TString))"
  "conforms defs (JObj [(''error'', json_string m)]) (MapOf (Some TString))"
  by (simp_all add: error_body_def resolve_def)

lemma conforms_thumbnail: "conforms docDefinitions (thumbnail_json x) (Ref ''httpserver.thumbnail'')"
  by (auto simp: thumbnail_json_def resolve_def docDefinitions_def docThumbnailEntry_def)

lemma conforms_metadata: "conforms docDefinitions (metadata_json fmt m) (Ref ''httpserver.metadataResponse'')"
proof -
  have refs: "map_of docDefinitions ''httpserver.metadataResponse'' = Some docMetadataResponse"
    "map_of docDefinitions ''httpserver.dimensions'' = Some docDimensions"
    by (simp_all add: docDefinitions_def)
  have dims: "conforms docDefinitions (JObj [(''width'', JNum x), (''height'', JNum y)]) (Ref ''httpserver.dimensions'')" for x y
    by (auto simp: resolve_def refs docDimensions_def)
  have thumbs: "conforms docDefinitions (JArr (map thumbnail_json ts)) (TArray (Ref ''httpserver.thumbnail''))" for ts
    using conforms_thumbnail by (simp add: resolve_def list_all_iff)
  show ?thesis
    unfolding metadata_json_def using dims thumbs
    by (simp add: resolve_def [of _ "Ref ''httpserver.metadataResponse''"] refs docMetadataResponse_def
        resolve_def [of _ TString] resolve_def [of _ TInteger] insert_commute)
qed

lemma conforms_upload: "conforms docDefinitions (uploadResponse fmt a) (Ref ''httpserver.uploadResponse'')"
  by (auto simp: uploadResponse_def resolve_def docDefinitions_def docUploadResponse_def)

subsection \<open>Handlers that conform\<close>

text \<open>Every answer that is one JSON value: the documented one, or the undocumented 500.\<close>

lemma proper_error:
  assumes "error_answer e rs" and "map_of (opResponses op) (error_status e) = Some (errorDoc d) \<or>
    error_status e = 500 \<and> map_of (opResponses op) 500 = None"
  shows "proper doc op rs"
proof -
  have "error_status e \<notin> {200, 201}" by (simp add: error_status_def)
  moreover have "error_status e = 500 \<Longrightarrow> error_body e = JObj [(''error'', json_string ''internal error'')]"
    by (simp add: error_status_def error_body_def split: if_splits)
  ultimately show ?thesis
    using assms conforms_error(1)
    by (auto simp: proper_def documented_def error_answer_def body_conforms_def split: schema.splits)
qed

lemma proper_json:
  assumes "blank rs" and "code \<noteq> 204" and "map_of (opResponses op) code = Some \<lparr>rdDescription = d, rdSchema = Some sc\<rparr>"
    and "conforms (dcDefinitions doc) j sc" and "sc \<noteq> TFile" and "''application/json'' \<in> set (opProduces op)"
  shows "proper doc op (writeJSON code j rs)"
  using assms writeJSON_fresh [of rs code j] 
  by (auto simp: proper_def documented_def blank_def body_conforms_def split: schema.splits)

lemma proper_400:
  assumes "blank rs" and "map_of (opResponses op) 400 = Some (errorDoc d)"
  shows "proper doc op (writeError 400 m rs)"
  using assms blank_write(3,4) [OF assms(1), of 400 m] conforms_error(2)
  by (auto simp: proper_def documented_def body_conforms_def split: schema.splits)

lemma proper_413:
  assumes "blank rs" and "map_of (opResponses op) 413 = Some \<lparr>rdDescription = d, rdSchema = Some (MapOf None)\<rparr>"
  shows "proper doc op (writeTooLarge rs)"
  using assms blank_write(1,2) [OF assms(1), of 413]
  by (auto simp: proper_def documented_def body_conforms_def writeTooLarge_def resolve_def split: schema.splits)

text \<open>A handler that calls the service and goes on with its value.\<close>

lemma with_service_proper:
  assumes "fails_with S (fst (m (cState c)))" and "blank (cResp c)"
    and errs: "\<And>st. st \<in> S \<Longrightarrow> (\<exists>d. map_of (opResponses op) st = Some (errorDoc d)) \<or> st = 500 \<and> map_of (opResponses op) 500 = None"
    and vals: "\<And>a w. m (cState c) = (Value (Inr a), w) \<Longrightarrow> answers_as doc op (k a (c\<lparr>cState := w\<rparr>))"
  shows "answers_as doc op (with_service m k c)"
proof -
  obtain r w where m: "m (cState c) = (Value r, w)" and r: "\<And>e. r = Inl e \<Longrightarrow> error_status e \<in> S"
    using assms(1) by (cases "m (cState c)") (auto simp: fails_with_def)
  show ?thesis
  proof (cases r)
    case (Inl e)
    from with_service_error [of m c e w, OF _ assms(2)] m Inl obtain rs where
      "with_service m k c = (Value (), \<lparr>cState = w, cResp = rs\<rparr>)" "error_answer e rs" by blast
    with proper_error errs [OF r [OF Inl]] show ?thesis by (fastforce simp: answers_as_def)
  next
    case (Inr a)
    with m vals show ?thesis by (simp add: with_service_def)
  qed
qed

lemma streamFile_proper:
  assumes "blank (cResp c)" and "map_of (opResponses op) 200 = Some \<lparr>rdDescription = d, rdSchema = Some TFile\<rparr>"
    and "op \<in> {docGetFile, docLatest} \<or> fileContentType f \<in> set (opProduces op)"
  shows "answers_as doc op (streamFile f c)"
proof -
  obtain bs err w where body: "Body f (cState c) = ((bs, err), w)" by (cases "Body f (cState c)") auto
  have "statusLine (cResp c) = None" "chunks (cResp c) = []" using assms(1) by (simp_all add: blank_def)
  then show ?thesis
    using assms(2,3) body
    by (auto simp: answers_as_def streamFile_def proper_def documented_def body_conforms_def http_simps Let_def)
qed

lemma no_content_proper:
  assumes "blank (cResp c)" and "map_of (opResponses op) 204 = Some \<lparr>rdDescription = d, rdSchema = None\<rparr>"
  shows "answers_as doc op (no_content u c)"
proof -
  have "statusLine (cResp c) = None" "chunks (cResp c) = []" using assms(1) by (simp_all add: blank_def)
  then show ?thesis
    using assms(2) by (simp add: answers_as_def no_content_def proper_def documented_def body_conforms_def http_simps)
qed

lemma guarded_proper:
  assumes "blank (cResp c)" and "map_of (opResponses op) 400 = Some (errorDoc d)"
    and "\<And>uid. answers_as doc op (f uid c)"
  shows "answers_as doc op (case requireUserID r (cResp c) of
      (None, rs) \<Rightarrow> (Value (), c\<lparr>cResp := rs\<rparr>) | (Some uid, _) \<Rightarrow> f uid c)"
  using assms(3) proper_400 [OF assms(1,2)]
  by (auto simp: requireUserID_def Let_def answers_as_def)

text \<open>The contract of the service, and what each handler makes of it.\<close>

locale error_api =
  fixes good :: "'w \<Rightarrow> bool" and api :: "'w AvatarService"
  assumes upload_errors: "good w \<Longrightarrow> fails_with {500} (fst (aUpload api uid name data w))"
    and metadata_errors: "good w \<Longrightarrow> fails_with {404, 500} (fst (aMetadata api i w))"
    and list_errors: "good w \<Longrightarrow> fails_with {500} (fst (aList api uid w))"
    and file_errors: "good w \<Longrightarrow> fails_with {404, 500} (fst (aGetFile api i w))"
    and latest_errors: "good w \<Longrightarrow> fails_with {404, 500} (fst (aLatestFile api uid w))"
    and thumbnail_errors: "good w \<Longrightarrow> fails_with {404, 500} (fst (aThumbnailFile api i sz w))"
    and thumbnail_type: "good w \<Longrightarrow> aThumbnailFile api i sz w = (Value (Inr f), w') \<Longrightarrow> fileContentType f = ''image/jpeg''"
    and delete_errors: "good w \<Longrightarrow> fails_with {403, 404, 500} (fst (aDelete api i uid w))"
    and delete_latest_errors: "good w \<Longrightarrow> fails_with {403, 404, 500} (fst (aDeleteLatest api uid req w))"
begin

lemma reads_proper:
  assumes "good (cState c)" and "blank (cResp c)" and "hSvc h = api" and "dcDefinitions doc = docDefinitions"
  shows "answers_as doc docGetFile (getFile h r c)" "answers_as doc docLatest (latestFile h r c)"
    "answers_as doc docThumbnail (getThumbnail h r c)" "answers_as doc docMetadata (metadata h r c)"
    "answers_as doc docList (list_handler h r c)"
proof -
  have blank: "blank (cResp (c\<lparr>cState := w\<rparr>))" for w using assms(2) by simp
  show "answers_as doc docGetFile (getFile h r c)" unfolding getFile_def assms(3)
    by (rule with_service_proper, rule file_errors [OF assms(1)], rule assms(2))
       (auto simp: docGetFile_def intro!: streamFile_proper [OF blank])
  show "answers_as doc docLatest (latestFile h r c)" unfolding latestFile_def assms(3)
    by (rule with_service_proper, rule latest_errors [OF assms(1)], rule assms(2))
       (auto simp: docLatest_def intro!: streamFile_proper [OF blank])
  show "answers_as doc docThumbnail (getThumbnail h r c)" unfolding getThumbnail_def assms(3)
    by (rule with_service_proper, rule thumbnail_errors [OF assms(1)], rule assms(2))
       (auto simp: docThumbnail_def dest: thumbnail_type [OF assms(1)] intro!: streamFile_proper [OF blank])
  show "answers_as doc docMetadata (metadata h r c)" unfolding metadata_def assms(3)
    by (rule with_service_proper, rule metadata_errors [OF assms(1)], rule assms(2))
       (auto simp: docMetadata_def answers_as_def assms(2,4) conforms_metadata intro!: proper_json)
  show "answers_as doc docList (list_handler h r c)" unfolding list_handler_def assms(3)
    by (rule with_service_proper, rule list_errors [OF assms(1)], rule assms(2))
       (auto simp: docList_def answers_as_def assms(2,4) resolve_def list_all_iff conforms_metadata intro!: proper_json)
qed

lemma deletes_proper:
  assumes "good (cState c)" and "blank (cResp c)" and "hSvc h = api"
  shows "answers_as doc docDelete (delete_handler h r c)" "answers_as doc docDeleteLatest (deleteLatest h r c)"
proof -
  have blank: "blank (cResp (c\<lparr>cState := w\<rparr>))" for w using assms(2) by simp
  have "answers_as doc docDelete (with_service (aDelete api i uid) no_content c)" for i uid
    by (rule with_service_proper, rule delete_errors [OF assms(1)], rule assms(2))
       (auto simp: docDelete_def intro!: no_content_proper [OF blank])
  then show "answers_as doc docDelete (delete_handler h r c)" unfolding delete_handler_def assms(3)
    by (rule guarded_proper [OF assms(2), rotated]) (simp add: docDelete_def)
  have "answers_as doc docDeleteLatest (with_service (aDeleteLatest api i uid) no_content c)" for i uid
    by (rule with_service_proper, rule delete_latest_errors [OF assms(1)], rule assms(2))
       (auto simp: docDeleteLatest_def intro!: no_content_proper [OF blank])
  then show "answers_as doc docDeleteLatest (deleteLatest h r c)" unfolding deleteLatest_def assms(3)
    by (rule guarded_proper [OF assms(2), rotated]) (simp add: docDeleteLatest_def)
qed

lemma upload_proper:
  assumes "good (cState c)" and "blank (cResp c)" and "hSvc h = api" and "dcDefinitions doc = docDefinitions"
  shows "answers_as doc docUpload (upload h r c)"
proof -
  have 400: "proper doc docUpload (writeError 400 m (cResp c))" for m
    by (rule proper_400 [OF assms(2)]) (simp add: docUpload_def)
  have 413: "proper doc docUpload (writeTooLarge (cResp c))"
    by (rule proper_413 [OF assms(2)]) (simp add: docUpload_def)
  have 201: "proper doc docUpload (writeJSON 201 (uploadResponse fmt a) (cResp c))" for fmt a
    by (rule proper_json [OF assms(2)]) (auto simp: docUpload_def assms(4) conforms_upload)
  have err: "proper doc docUpload (serviceError e (cResp c))" if "error_status e = 500" for e
    by (rule proper_error [OF serviceError_answer [OF assms(2)]]) (simp add: docUpload_def that)
  have "fst (fst (upload_handler h r c)) = Value () \<and> proper doc docUpload (cResp (snd (upload_handler h r c)))"
  proof (cases "upload_request r")
    case None
    then show ?thesis
      using 400 413 unfolding upload_handler_def upload_request_def requireUserID_def maxUserIDLen_def Let_def
      by (auto simp: answer_def too_large_or_400_def split: sum.splits prod.splits if_splits)
  next
    case (Some call)
    obtain uid name data where call: "call = (uid, name, data)" by (cases call)
    show ?thesis
      using upload_errors [OF assms(1), of uid name data] 201 err
      by (auto simp: upload_handler_calls [OF Some [unfolded call], of h c] assms(3) answer_def fails_with_def
          split: prod.splits sum.splits)
  qed
  then show ?thesis by (auto simp: upload_def answers_as_def split: prod.splits)
qed

end

subsection \<open>The document and the service\<close>

lemma world_api_calls:
  "aUpload (world_api E b) uid name data = total_call (svc_Upload (world_service E b) uid name data)"
  "aMetadata (world_api E b) i = total_call (svc_Metadata (world_service E b) i)"
  "aList (world_api E b) uid = total_call (svc_List (world_service E b) uid)"
  "aGetFile (world_api E b) i = total_call (svc_GetFile (world_service E b) i)"
  "aLatestFile (world_api E b) uid = total_call (svc_LatestFile (world_service E b) uid)"
  "aThumbnailFile (world_api E b) i sz = total_call (svc_ThumbnailFile (world_service E b) i sz)"
  "aDelete (world_api E b) i req = total_call (svc_Delete (world_service E b) i req)"
  "aDeleteLatest (world_api E b) uid req = total_call (svc_DeleteLatest (world_service E b) uid req)"
  by (simp_all add: world_api_def Let_def)

interpretation world_errors: error_api "\<lambda>w. env_ok E \<and> others_keep (history E) w" "world_api E b" for E b
proof (unfold_locales, goal_cases)
  case (1 w uid name data)
  then show ?case unfolding world_api_calls total_call_eq fst_conv
    by (intro fails_with_value) (use Upload_status in blast)
next
  case (7 w i sz f w')
  then show ?case
    by (auto simp: world_api_calls svc_ThumbnailFile_def split: prod.splits sum.splits option.splits)
qed (unfold world_api_calls total_call_eq fst_conv, (rule fails_with_value, drule service_statuses, simp)+)

text \<open>The documented operations are the routes of the API, each behind its handler.\<close>

definition documented_routes :: "'w handlers \<Rightarrow> ((string \<times> string) \<times> operation \<times> 'w http_handler) list" where
  "documented_routes h =
     [((''POST'', ''/api/v1/avatars''), docUpload, upload h),
      ((''GET'', ''/api/v1/avatars/{avatarID}''), docGetFile, getFile h),
      ((''DELETE'', ''/api/v1/avatars/{avatarID}''), docDelete, delete_handler h),
      ((''GET'', ''/api/v1/avatars/{avatarID}/metadata''), docMetadata, metadata h),
      ((''GET'', ''/api/v1/avatars/{avatarID}/thumbnails/{size}''), docThumbnail, getThumbnail h),
      ((''GET'', ''/api/v1/users/{userID}/avatar''), docLatest, latestFile h),
      ((''DELETE'', ''/api/v1/users/{userID}/avatar''), docDeleteLatest, deleteLatest h),
      ((''GET'', ''/api/v1/users/{userID}/avatars''), docList, list_handler h)]"

abbreviation route_keys :: "(string \<times> string) list" where
  "route_keys \<equiv> map fst (route_table (undefined :: unit router_libs) undefined [])"

lemma route_keys: "map fst (route_table l h checks) = route_keys"
  by (simp add: route_table_def)

lemma distinct_keys_docs: "distinct (map fst docPaths)" "distinct route_keys"
    "list_all (\<lambda>k. prefix ''/api/v1'' (snd k) \<longrightarrow> k \<in> set (map fst docPaths)) route_keys"
  unfolding route_table_def docPaths_def list.map fst_conv by code_simp+

lemma docPaths_routes: "docPaths = map (\<lambda>(k, op, f). (k, op)) (documented_routes h)"
  by (simp add: documented_routes_def docPaths_def)

lemma documented_routes_routed: "set (map (\<lambda>(k, op, f). (k, f)) (documented_routes h)) \<subseteq> set (route_table l h checks)"
  unfolding documented_routes_def route_table_def list.map list.set prod.case
  by (intro insert_subsetI empty_subsetI; (rule insertI1 | rule insertI2)+)

lemma documented_route:
  assumes "(k, op, f) \<in> set (documented_routes h)"
  shows "map_of docPaths k = Some op \<and> map_of (route_table l h checks) k = Some f"
proof -
  have "(k, op) \<in> set docPaths" using assms by (force simp: docPaths_routes [of h])
  moreover have "(k, f) \<in> set (route_table l h checks)" using assms documented_routes_routed by fastforce
  ultimately show ?thesis using distinct_keys_docs(1,2) route_keys [of l h checks] by (metis map_of_is_SomeI)
qed

lemma api_route:
  assumes "k \<in> set (map fst (route_table l h checks))" and "prefix ''/api/v1'' (snd k)"
  obtains op f where "(k, op, f) \<in> set (documented_routes h)"
proof -
  have "k \<in> set route_keys" using assms(1) by (subst (asm) route_keys)
  then have "k \<in> set (map fst docPaths)"
    using assms(2) distinct_keys_docs(3) unfolding list_all_iff by blast
  then show thesis using that by (auto simp: docPaths_routes [of h])
qed

lemma documented_route_answers:
  assumes "(k, op, f) \<in> set (documented_routes (world_handlers E b))" and "env_ok E" and "others_keep (history E) (cState c)"
    and "blank (cResp c)"
  shows "answers_as api_document op (f r c)"
proof -
  have h: "hSvc (world_handlers E b) = world_api E b" by (simp add: world_handlers_def)
  have doc: "dcDefinitions api_document = docDefinitions" by (simp add: docTemplate_def)
  have good: "env_ok E \<and> others_keep (history E) (cState c)" using assms(2,3) by simp
  have "list_all (\<lambda>(k, op, f). answers_as api_document op (f r c)) (documented_routes (world_handlers E b))"
    using world_errors.reads_proper [OF good assms(4) h doc, of r] world_errors.upload_proper [OF good assms(4) h doc, of r]
      world_errors.deletes_proper [OF good assms(4) h, of api_document r]
    by (simp add: documented_routes_def)
  with assms(1) show ?thesis by (auto simp: list_all_iff)
qed

text \<open>
  C15: the service answers as its documentation says, whatever the database, the bucket, the
  broker and the other instances do. For every request that the router matches to a route
  under /api/v1, the documentation has the operation; the client gets a status documented
  for it with a body that conforms to the documented schema, or, where the documentation
  names no 500, the generic 500, which is not documented; and a success (200 or 201) that is
  not an original file comes with a content type of the documented ones. Originals come with
  the type detected at the upload, documented or not.
\<close>

theorem api_answers:
  assumes "env_ok E" and "others_keep (history E) w" and "k \<in> set (map fst (route_table l (world_handlers E b) checks))"
    and "findRoute l (map fst (route_table l (world_handlers E b) checks)) r = Some (k, params)" and "prefix ''/api/v1'' (snd k)"
  shows "\<exists>op c'. map_of (dcPaths api_document) k = Some op \<and>
    NewRouter t l (world_handlers E b) checks r \<lparr>cState = w, cResp = fresh_response\<rparr> = (Value (), c') \<and>
    (documented api_document op (cResp c') \<or>
       answer_status (cResp c') = 500 \<and> map_of (opResponses op) 500 = None \<and>
       chunks (cResp c') = [JsonText (JObj [(''error'', json_string ''internal error'')])]) \<and>
    (answer_status (cResp c') \<in> {200, 201} \<and> op \<notin> {docGetFile, docLatest} \<longrightarrow>
       (\<exists>ct \<in> set (opProduces op). answer_header (cResp c') ''Content-Type'' = Some ct))"
proof -
  obtain op f where route: "(k, op, f) \<in> set (documented_routes (world_handlers E b))"
    by (rule api_route [OF assms(3,5)])
  note found = documented_route [OF route, of l checks]
  have "answers_as api_document op (serve_route l (world_handlers E b) checks r c)"
    if "blank (cResp c)" "cState c = w" for c
    using documented_route_answers [OF route assms(1), of c] that assms(2,4) found
    by (simp add: serve_route_def Let_def)
  from NewRouter_answers [OF this, of w t] found show ?thesis
    by (auto simp: answers_as_def proper_def docTemplate_def prod_eq_iff)
qed

subsection \<open>The documented inputs\<close>

definition path_params :: "operation \<Rightarrow> string list" where
  "path_params op = map paName (filter (\<lambda>p. paIn p = ''path'') (opParameters op))"

definition takes_form :: "operation \<Rightarrow> bool" where
  "takes_form op \<longleftrightarrow> list_ex (\<lambda>p. paIn p = ''formData'') (opParameters op)"

definition auth_headers :: "document \<Rightarrow> operation \<Rightarrow> string list" where
  "auth_headers doc op = List.map_filter (\<lambda>n. map_option ssName (map_of (dcSecurity doc) n)) (opSecurity op)"

text \<open>Two requests that agree on every input the documentation names.\<close>

definition same_inputs :: "document \<Rightarrow> operation \<Rightarrow> request \<Rightarrow> request \<Rightarrow> bool" where
  "same_inputs doc op r r' \<longleftrightarrow>
     (\<forall>n \<in> set (path_params op). URLParam r n = URLParam r' n) \<and>
     (\<forall>n \<in> set (auth_headers doc op). Header r n = Header r' n) \<and>
     (takes_form op \<longrightarrow> ContentLength r = ContentLength r' \<and>
        firstForm r = firstForm r' \<and> secondForm r = secondForm r')"

text \<open>The names in braces of a route pattern.\<close>

function placeholders :: "string \<Rightarrow> string list" where
  "placeholders [] = []"
| "placeholders (c # s) = (if c = CHR ''{''
     then takeWhile (\<lambda>d. d \<noteq> CHR ''}'') s # placeholders (dropWhile (\<lambda>d. d \<noteq> CHR ''}'') s)
     else placeholders s)"
  by pat_completeness auto
termination
  by (relation "measure length") (auto simp: le_imp_less_Suc length_dropWhile_le)

lemma documented_shapes:
  "path_params docUpload = []" "path_params docGetFile = [''avatarID'']" "path_params docDelete = [''avatarID'']"
  "path_params docMetadata = [''avatarID'']" "path_params docThumbnail = [''avatarID'', ''size'']"
  "path_params docLatest = [''userID'']" "path_params docDeleteLatest = [''userID'']" "path_params docList = [''userID'']"
  "takes_form docUpload" "\<not> takes_form docGetFile" "\<not> takes_form docDelete" "\<not> takes_form docMetadata"
  "\<not> takes_form docThumbnail" "\<not> takes_form docLatest" "\<not> takes_form docDeleteLatest" "\<not> takes_form docList"
  "auth_headers api_document docUpload = [''X-User-ID'']" "auth_headers api_document docDelete = [''X-User-ID'']"
  "auth_headers api_document docDeleteLatest = [''X-User-ID'']" "auth_headers api_document docGetFile = []"
  "auth_headers api_document docMetadata = []" "auth_headers api_document docThumbnail = []"
  "auth_headers api_document docLatest = []" "auth_headers api_document docList = []"
  by code_simp+

lemma documented_placeholders: "list_all (\<lambda>(k, op). path_params op = placeholders (snd k)) docPaths"
  by code_simp

lemma documented_sizes:
  "list_all (\<lambda>(k, op). list_all (\<lambda>p. paEnum p \<noteq> [] \<longrightarrow> paEnum p = map SizeName ThumbnailSizes) (opParameters op)) docPaths"
  by code_simp

lemma upload_inputs:
  assumes "Header r ''X-User-ID'' = Header r' ''X-User-ID''" and "ContentLength r = ContentLength r'" "queryErr r = queryErr r'"
    "firstForm r = firstForm r'" "secondForm r = secondForm r'"
  shows "upload h r = upload h r'"
proof -
  have form: "formFile r = formFile r'" unfolding formFile_def FormFile1_def FormFile2_def assms(3-5) by (rule refl)
  have user: "requireUserID r = requireUserID r'" using assms(1) by (simp add: requireUserID_def fun_eq_iff)
  show ?thesis by (rule ext) (unfold upload_def upload_handler_def form user assms(2), rule refl)
qed

lemma param_inputs:
  assumes "URLParam r ''avatarID'' = URLParam r' ''avatarID''"
  shows "getFile h r = getFile h r'" "metadata h r = metadata h r'"
    "Header r ''X-User-ID'' = Header r' ''X-User-ID'' \<Longrightarrow> delete_handler h r = delete_handler h r'"
    "URLParam r ''size'' = URLParam r' ''size'' \<Longrightarrow> getThumbnail h r = getThumbnail h r'"
  unfolding getFile_def metadata_def getThumbnail_def delete_handler_def [abs_def] requireUserID_def assms by simp_all

lemma user_inputs:
  assumes "URLParam r ''userID'' = URLParam r' ''userID''"
  shows "latestFile h r = latestFile h r'" "list_handler h r = list_handler h r'"
    "Header r ''X-User-ID'' = Header r' ''X-User-ID'' \<Longrightarrow> deleteLatest h r = deleteLatest h r'"
  unfolding latestFile_def list_handler_def deleteLatest_def [abs_def] requireUserID_def assms by simp_all

lemma same_inputs_simps:
  "same_inputs api_document docUpload r r' \<longleftrightarrow> Header r ''X-User-ID'' = Header r' ''X-User-ID'' \<and>
     ContentLength r = ContentLength r' \<and> firstForm r = firstForm r' \<and> secondForm r = secondForm r'"
  "same_inputs api_document docGetFile r r' \<longleftrightarrow> URLParam r ''avatarID'' = URLParam r' ''avatarID''"
  "same_inputs api_document docMetadata r r' \<longleftrightarrow> URLParam r ''avatarID'' = URLParam r' ''avatarID''"
  "same_inputs api_document docThumbnail r r' \<longleftrightarrow>
     URLParam r ''avatarID'' = URLParam r' ''avatarID'' \<and> URLParam r ''size'' = URLParam r' ''size''"
  "same_inputs api_document docDelete r r' \<longleftrightarrow>
     URLParam r ''avatarID'' = URLParam r' ''avatarID'' \<and> Header r ''X-User-ID'' = Header r' ''X-User-ID''"
  "same_inputs api_document docLatest r r' \<longleftrightarrow> URLParam r ''userID'' = URLParam r' ''userID''"
  "same_inputs api_document docList r r' \<longleftrightarrow> URLParam r ''userID'' = URLParam r' ''userID''"
  "same_inputs api_document docDeleteLatest r r' \<longleftrightarrow>
     URLParam r ''userID'' = URLParam r' ''userID'' \<and> Header r ''X-User-ID'' = Header r' ''X-User-ID''"
  by (simp_all add: same_inputs_def documented_shapes)

lemma documented_route_inputs:
  assumes "(k, op, f) \<in> set (documented_routes h)" and "same_inputs api_document op r r'"
    and "takes_form op \<Longrightarrow> queryErr r = queryErr r'"
  shows "f r = f r'"
proof -
  have "list_all (\<lambda>(k, op, f). same_inputs api_document op r r' \<longrightarrow> (takes_form op \<longrightarrow> queryErr r = queryErr r') \<longrightarrow> f r = f r')
      (documented_routes h)"
    unfolding documented_routes_def list.pred_inject prod.case same_inputs_simps
    by (intro conjI impI list.pred_inject(1); (elim conjE)?; (drule mp [OF _ documented_shapes(9)])?; intro upload_inputs param_inputs user_inputs; assumption)
  with assms show ?thesis by (auto simp: list_all_iff)
qed

text \<open>
  The query string of an upload is no documented input, and the handler depends on it: when
  it cannot be parsed, the file is looked for under its second name only, so a form with the
  documented field is refused.
\<close>

definition refused_upload :: "'w handlers \<Rightarrow> 'w conn \<Rightarrow> unit go \<times> 'w conn \<Rightarrow> bool" where
  "refused_upload h c out \<longleftrightarrow> fst out = Value () \<and> answer_status (cResp (snd out)) \<in> {400, 413} \<and>
     cState (snd out) = hObserveUpload h StatusRejected 0 (cState c)"

definition only_file_field :: "request \<Rightarrow> bool" where
  "only_file_field r \<longleftrightarrow> fst (firstForm r) \<le> maxUploadBytes \<and>
     (case snd (firstForm r) of Inr ps \<Rightarrow> list_all (\<lambda>p. pField p = ''file'') ps | Inl _ \<Rightarrow> False)"

lemma upload_bad_query:
  assumes "queryErr r = Some e" and "only_file_field r" and "blank (cResp c)"
  shows "refused_upload h c (upload h r c)"
proof -
  obtain ps where form: "read_form maxUploadBytes (firstForm r) = Inr ps" and ps: "list_all (\<lambda>p. pField p = ''file'') ps"
    using assms(2) by (auto simp: only_file_field_def read_form_def split: sum.splits)
  have "find (\<lambda>p. pField p = ''image'') ps = None"
    using ps by (auto simp: find_None_iff list_all_iff)
  then have "formFile r = Inl e \<or> formFile r = Inl ErrMissingFile"
    using assms(1) by (simp add: formFile_def FormFile1_def FormFile2_def form open_part_def)
  then have "upload_request r = None"
    by (auto simp: upload_request_def Let_def)
  with upload_exits [where c = c and r = r and h = h, OF assms(3)] show ?thesis
    by (auto simp: refused_upload_def)
qed

lemma documented_route_query:
  assumes "(k, op, f) \<in> set (documented_routes h)" and "takes_form op"
    and "queryErr r = Some e" and "only_file_field r" and "blank (cResp c)"
  shows "refused_upload h c (f r c)"
proof -
  have "list_all (\<lambda>(k, op, f). takes_form op \<longrightarrow> refused_upload h c (f r c)) (documented_routes h)"
    using upload_bad_query [OF assms(3-5)] by (simp add: documented_routes_def documented_shapes)
  with assms(1,2) show ?thesis by (auto simp: list_all_iff)
qed

text \<open>A secured operation without the header.\<close>

definition refused_unnamed :: "'w handlers \<Rightarrow> 'w conn \<Rightarrow> unit go \<times> 'w conn \<Rightarrow> bool" where
  "refused_unnamed h c out \<longleftrightarrow> fst out = Value () \<and> answer_status (cResp (snd out)) = 400 \<and>
     cState (snd out) \<in> {cState c, hObserveUpload h StatusRejected 0 (cState c)}"

lemma documented_route_secured:
  assumes "(k, op, f) \<in> set (documented_routes h)" and "blank (cResp c)"
    and "n \<in> set (auth_headers api_document op)" and "Header r n = []"
  shows "refused_unnamed h c (f r c)"
proof -
  have "answer_status (writeError 400 m (cResp c)) = 400" for m by (rule blank_write(3) [OF assms(2)]) simp
  then have "refused_unnamed h c (upload h r c)" "refused_unnamed h c (delete_handler h r c)"
    "refused_unnamed h c (deleteLatest h r c)" if "Header r ''X-User-ID'' = []"
    using that by (simp_all add: refused_unnamed_def upload_def upload_handler_def delete_handler_def deleteLatest_def
        requireUserID_def)
  then have "list_all (\<lambda>(k, op, f). \<forall>n \<in> set (auth_headers api_document op). Header r n = [] \<longrightarrow> refused_unnamed h c (f r c))
      (documented_routes h)"
    by (simp add: documented_routes_def documented_shapes)
  with assms(1,3,4) show ?thesis by (auto simp: list_all_iff)
qed


subsection \<open>Concrete requests\<close>


text \<open>A deletion by someone else, through the router: the documented 403.\<close>

definition world_telemetry :: "world telemetry" where
  "world_telemetry = \<lparr>spanOf = (\<lambda>_. Some ''t1''), SetName = (\<lambda>_ w. w), LogRequest = (\<lambda>_ _ _ _ w. w),
     LogPanic = (\<lambda>_ _ w. w), Observed = (\<lambda>_ _ _ _ w. w), RoutePattern = (\<lambda>_. ''/api/v1''), Now = clock\<rparr>"

theorem api_answers_witness:
  "\<exists>c'. NewRouter world_telemetry (sample_libs\<lparr>findRoute := \<lambda>_ _. Some ((''DELETE'', ''/api/v1/avatars/{avatarID}''), \<lambda>_. ''a1'')\<rparr>)
      (world_handlers sample_env ''b'') [] (sample_request ''bob'')
      \<lparr>cState = sample_world sample_rows Map.empty [], cResp = fresh_response\<rparr> = (Value (), c') \<and>
    (documented api_document docDelete (cResp c') \<or> answer_status (cResp c') = 500)"
proof -
  let ?k = "(''DELETE'', ''/api/v1/avatars/{avatarID}'')" and ?w = "sample_world sample_rows Map.empty []"
  let ?l = "sample_libs\<lparr>findRoute := \<lambda>_ _. Some (?k, \<lambda>_. ''a1'')\<rparr> :: world router_libs" and ?h = "world_handlers sample_env ''b''"
  have env: "env_ok sample_env" "others_keep (history sample_env) ?w"
    using good_sample_world [OF table_ok_sample_rows] by (simp_all add: good_world_def others_keep_def)
  have k: "?k \<in> set (map fst (route_table ?l ?h []))" "prefix ''/api/v1'' (snd ?k)"
    "findRoute ?l (map fst (route_table ?l ?h [])) (sample_request ''bob'') = Some (?k, \<lambda>_. ''a1'')"
    by (simp_all add: route_table_def)
  have doc: "map_of (dcPaths api_document) ?k = Some docDelete" by (simp add: docTemplate_def docPaths_def)
  from api_answers [OF env k(1,3,2), of world_telemetry] show ?thesis unfolding doc by auto
qed

end
